(* ===== verification/Prelude.thy ===== *)
theory Prelude
  imports Main "HOL-Library.Word" "HOL-Library.Char_ord"
begin

text \<open>
  Shared vocabulary of the development.

  A Rust \<open>String\<close>/\<open>&str\<close> is the list of its UTF-8 bytes, an Isabelle \<^typ>\<open>string\<close>:
  one \<^typ>\<open>char\<close> is one byte, so \<^const>\<open>length\<close> is \<open>str::len\<close>.  This theory holds
  the part of the Rust standard library that the modelled code calls on strings and
  integers (\<open>trim\<close>, \<open>split\<close>, \<open>to_ascii_lowercase\<close>, \<open>is_char_boundary\<close>,
  \<open>parse::<u64>\<close>, \<open>saturating_mul\<close>, \<dots>), generic lemmas on lists and association
  lists, and the theorem collections the component theories extend.
\<close>

named_theorems byte_class \<open>definitions of the ASCII classes of bytes\<close>

section \<open>Bytes\<close>

type_synonym ('e, 'a) result = "'e + 'a"

abbreviation Err :: "'e \<Rightarrow> ('e, 'a) result" where "Err \<equiv> Inl"
abbreviation Ok :: "'a \<Rightarrow> ('e, 'a) result" where "Ok \<equiv> Inr"

definition byte :: "char \<Rightarrow> nat" where
  "byte c = of_char c"

lemma byte_lt [simp]: "byte c < 256"
  by (simp add: byte_def)

lemma byte_inj [simp]: "byte a = byte b \<longleftrightarrow> a = b"
  by (simp add: byte_def)

lemma char_of_byte [simp]: "char_of (byte c) = c"
  by (simp add: byte_def)

lemma byte_char_of [simp]: "n < 256 \<Longrightarrow> byte (char_of n) = n"
  by (simp add: byte_def)

definition is_ascii :: "char \<Rightarrow> bool" where
  "is_ascii c \<longleftrightarrow> byte c < 128"

definition is_ascii_digit :: "char \<Rightarrow> bool" where
  "is_ascii_digit c \<longleftrightarrow> 48 \<le> byte c \<and> byte c \<le> 57"

definition is_ascii_upper :: "char \<Rightarrow> bool" where
  "is_ascii_upper c \<longleftrightarrow> 65 \<le> byte c \<and> byte c \<le> 90"

definition is_ascii_lower :: "char \<Rightarrow> bool" where
  "is_ascii_lower c \<longleftrightarrow> 97 \<le> byte c \<and> byte c \<le> 122"

definition is_ascii_alphanumeric :: "char \<Rightarrow> bool" where
  "is_ascii_alphanumeric c \<longleftrightarrow> is_ascii_digit c \<or> is_ascii_upper c \<or> is_ascii_lower c"

text \<open>\<open>u8::is_ascii_whitespace\<close> (tab, LF, FF, CR, space), \<open>u8::is_ascii_control\<close> and
  \<open>u8::is_ascii_graphic\<close>.\<close>

definition is_ascii_whitespace :: "char \<Rightarrow> bool" where
  "is_ascii_whitespace c \<longleftrightarrow> byte c \<in> {9, 10, 12, 13, 32}"

definition is_ascii_control :: "char \<Rightarrow> bool" where
  "is_ascii_control c \<longleftrightarrow> byte c < 32 \<or> byte c = 127"

definition is_ascii_graphic :: "char \<Rightarrow> bool" where
  "is_ascii_graphic c \<longleftrightarrow> 33 \<le> byte c \<and> byte c \<le> 126"

lemmas [byte_class] = is_ascii_def is_ascii_digit_def is_ascii_upper_def is_ascii_lower_def
  is_ascii_alphanumeric_def is_ascii_whitespace_def is_ascii_control_def is_ascii_graphic_def

definition lower_byte :: "char \<Rightarrow> char" where
  "lower_byte c = (if is_ascii_upper c then char_of (byte c + 32) else c)"

definition to_ascii_lowercase :: "string \<Rightarrow> string" where
  "to_ascii_lowercase s = map lower_byte s"

definition eq_ignore_ascii_case :: "string \<Rightarrow> string \<Rightarrow> bool" where
  "eq_ignore_ascii_case s t \<longleftrightarrow> to_ascii_lowercase s = to_ascii_lowercase t"

lemma length_to_ascii_lowercase [simp]: "length (to_ascii_lowercase s) = length s"
  by (simp add: to_ascii_lowercase_def)

lemma lower_byte_idem [simp]: "lower_byte (lower_byte c) = lower_byte c"
  by (simp add: lower_byte_def is_ascii_upper_def)

section \<open>Whitespace and trimming\<close>

text \<open>
  \<open>str::trim\<close> removes the Unicode \<open>White_Space\<close> scalar values from both ends.  In UTF-8
  these are one byte (U+0009 to U+000D, U+0020), two bytes (U+0085, U+00A0) or three bytes
  (U+1680, U+2000 to U+200A, U+2028, U+2029, U+202F, U+205F, U+3000).
\<close>

definition ws1 :: "char \<Rightarrow> bool" where
  "ws1 a \<longleftrightarrow> (9 \<le> byte a \<and> byte a \<le> 13) \<or> byte a = 32"

definition ws2 :: "char \<Rightarrow> char \<Rightarrow> bool" where
  "ws2 a b \<longleftrightarrow> byte a = 194 \<and> (byte b = 133 \<or> byte b = 160)"

definition ws3 :: "char \<Rightarrow> char \<Rightarrow> char \<Rightarrow> bool" where
  "ws3 a b c \<longleftrightarrow>
     (byte a = 225 \<and> byte b = 154 \<and> byte c = 128) \<or>
     (byte a = 226 \<and> byte b = 128 \<and>
        ((128 \<le> byte c \<and> byte c \<le> 138) \<or> byte c = 168 \<or> byte c = 169 \<or> byte c = 175)) \<or>
     (byte a = 226 \<and> byte b = 129 \<and> byte c = 159) \<or>
     (byte a = 227 \<and> byte b = 128 \<and> byte c = 128)"

fun trim_start :: "string \<Rightarrow> string" where
  "trim_start [] = []"
| "trim_start [a] = (if ws1 a then [] else [a])"
| "trim_start [a, b] =
     (if ws1 a then trim_start [b] else if ws2 a b then [] else [a, b])"
| "trim_start (a # b # c # s) =
     (if ws1 a then trim_start (b # c # s)
      else if ws2 a b then trim_start (c # s)
      else if ws3 a b c then trim_start s
      else a # b # c # s)"

text \<open>The same walk from the right: the argument is the reversed byte list.\<close>

fun trim_rev :: "string \<Rightarrow> string" where
  "trim_rev [] = []"
| "trim_rev [a] = (if ws1 a then [] else [a])"
| "trim_rev [b, a] =
     (if ws1 b then trim_rev [a] else if ws2 a b then [] else [b, a])"
| "trim_rev (c # b # a # s) =
     (if ws1 c then trim_rev (b # a # s)
      else if ws2 b c then trim_rev (a # s)
      else if ws3 a b c then trim_rev s
      else c # b # a # s)"

definition trim_end :: "string \<Rightarrow> string" where
  "trim_end s = rev (trim_rev (rev s))"

definition trim :: "string \<Rightarrow> string" where
  "trim s = trim_end (trim_start s)"

text \<open>An ASCII byte that is not white space stops the walk.\<close>

definition solid :: "char \<Rightarrow> bool" where
  "solid c \<longleftrightarrow> is_ascii c \<and> \<not> ws1 c"

lemma trim_start_solid: "solid c \<Longrightarrow> trim_start (c # s) = c # s"
  by (cases "c # s" rule: trim_start.cases)
    (auto simp: solid_def is_ascii_def ws2_def ws3_def)

lemma trim_rev_solid: "solid c \<Longrightarrow> trim_rev (c # s) = c # s"
  by (cases "c # s" rule: trim_rev.cases)
    (auto simp: solid_def is_ascii_def ws2_def ws3_def)

lemma trim_end_solid: "solid c \<Longrightarrow> trim_end (s @ [c]) = s @ [c]"
  by (simp add: trim_end_def trim_rev_solid)

lemma trim_Nil [simp]: "trim [] = []"
  by (simp add: trim_def trim_end_def)

lemma trim_start_all_solid: "list_all solid s \<Longrightarrow> trim_start s = s"
  by (cases s) (auto simp: trim_start_solid)

lemma trim_end_all_solid: "list_all solid s \<Longrightarrow> trim_end s = s"
  by (cases s rule: rev_cases) (auto simp: trim_end_solid, simp add: trim_end_def)

lemma trim_all_solid: "list_all solid s \<Longrightarrow> trim s = s"
  by (simp add: trim_def trim_start_all_solid trim_end_all_solid)

lemma ws1_space [simp]: "ws1 (CHR '' '')"
  by (simp add: ws1_def byte_def)

lemma trim_start_space [simp]: "trim_start (CHR '' '' # s) = trim_start s"
  by (cases "CHR '' '' # s" rule: trim_start.cases) auto

lemma trim_rev_space [simp]: "trim_rev (CHR '' '' # s) = trim_rev s"
  by (cases "CHR '' '' # s" rule: trim_rev.cases) auto

lemma trim_start_spaces [simp]: "trim_start (replicate k (CHR '' '') @ s) = trim_start s"
  by (induction k) auto

lemma trim_end_spaces [simp]: "trim_end (s @ replicate k (CHR '' '')) = trim_end s"
proof -
  have "trim_rev (replicate k (CHR '' '') @ rev s) = trim_rev (rev s)" by (induction k) auto
  then show ?thesis by (simp add: trim_end_def)
qed

lemma trim_start_suffix: "\<exists>p. s = p @ trim_start s"
proof (induction s rule: trim_start.induct)
  case (4 a b c s)
  then show ?case
    by (auto intro: exI [of _ "[a]"] exI [of _ "[a, b]"] exI [of _ "[a, b, c]"])
      (metis append_Cons)+
qed auto

section \<open>Searching and splitting\<close>

definition starts_with :: "string \<Rightarrow> string \<Rightarrow> bool" where
  "starts_with s p \<longleftrightarrow> take (length p) s = p"

definition strip_prefix :: "string \<Rightarrow> string \<Rightarrow> string option" where
  "strip_prefix s p = (if starts_with s p then Some (drop (length p) s) else None)"

text \<open>\<open>str::find\<close> of a pattern string: the byte index of the first match.\<close>

fun find_sub :: "string \<Rightarrow> string \<Rightarrow> nat option" where
  "find_sub p [] = (if p = [] then Some 0 else None)"
| "find_sub p (c # s) =
     (if starts_with (c # s) p then Some 0 else map_option Suc (find_sub p s))"

definition contains_sub :: "string \<Rightarrow> string \<Rightarrow> bool" where
  "contains_sub s p \<longleftrightarrow> find_sub p s \<noteq> None"

text \<open>\<open>str::split(ch)\<close>: one more piece than there are separators.\<close>

fun split_char :: "char \<Rightarrow> string \<Rightarrow> string list" where
  "split_char d [] = [[]]"
| "split_char d (c # s) =
     (if c = d then [] # split_char d s
      else case split_char d s of [] \<Rightarrow> [[c]] | p # ps \<Rightarrow> (c # p) # ps)"

text \<open>\<open>str::split_once(ch)\<close>.\<close>

definition split_once :: "char \<Rightarrow> string \<Rightarrow> (string \<times> string) option" where
  "split_once d s =
     (if d \<in> set s then Some (takeWhile (\<lambda>c. c \<noteq> d) s, tl (dropWhile (\<lambda>c. c \<noteq> d) s)) else None)"

text \<open>\<open>str::split_whitespace\<close>, on the Unicode white space above.\<close>

fun ws_width :: "string \<Rightarrow> nat" where
  "ws_width (a # b # c # s) =
     (if ws1 a then 1 else if ws2 a b then 2 else if ws3 a b c then 3 else 0)"
| "ws_width [a, b] = (if ws1 a then 1 else if ws2 a b then 2 else 0)"
| "ws_width [a] = (if ws1 a then 1 else 0)"
| "ws_width [] = 0"

function split_ws :: "string \<Rightarrow> string \<Rightarrow> string list" where
  "split_ws acc s =
     (if s = [] then (if acc = [] then [] else [rev acc])
      else if ws_width s = 0 then split_ws (hd s # acc) (tl s)
      else (if acc = [] then [] else [rev acc]) @ split_ws [] (drop (ws_width s) s))"
  by pat_completeness auto
termination
  by (relation "measure (\<lambda>(acc, s). length s)") auto

declare split_ws.simps [simp del]

definition split_whitespace :: "string \<Rightarrow> string list" where
  "split_whitespace s = split_ws [] s"

definition join :: "string \<Rightarrow> string list \<Rightarrow> string" where
  "join sep xs = (case xs of [] \<Rightarrow> [] | x # ys \<Rightarrow> x @ concat (map (\<lambda>y. sep @ y) ys))"

lemma starts_with_append [simp]: "starts_with (p @ s) p"
  by (simp add: starts_with_def)

lemma starts_with_Nil [simp]: "starts_with s []"
  by (simp add: starts_with_def)

lemma starts_with_iff: "starts_with s p \<longleftrightarrow> (\<exists>r. s = p @ r)"
  by (metis append_eq_conv_conj append_take_drop_id starts_with_def)

lemma find_sub_None: "find_sub p s = None \<Longrightarrow> s \<noteq> a @ p @ b"
proof (induction s arbitrary: a)
  case Nil
  then show ?case by (auto split: if_splits)
next
  case (Cons c s)
  then show ?case
    by (cases a) (auto split: if_splits simp: starts_with_iff)
qed

lemma find_sub_Some:
  "find_sub p s = Some i \<Longrightarrow> i + length p \<le> length s \<and> take (length p) (drop i s) = p"
  by (induction s arbitrary: i)
    (auto split: if_splits simp: starts_with_iff dest: arg_cong [of _ _ length])

lemma find_sub_first:
  "find_sub p s = Some i \<Longrightarrow> j < i \<Longrightarrow> take (length p) (drop j s) \<noteq> p"
proof (induction s arbitrary: i j)
  case Nil
  then show ?case by (auto split: if_splits)
next
  case (Cons c s)
  then show ?case
    by (cases j) (auto split: if_splits simp: starts_with_def)
qed

lemma split_char_nonempty [simp]: "split_char d s \<noteq> []"
  by (induction s) (auto split: list.splits)

lemma split_char_no_sep: "p \<in> set (split_char d s) \<Longrightarrow> d \<notin> set p"
  by (induction s arbitrary: p) (auto split: list.splits if_splits)

lemma join_split_char: "join [d] (split_char d s) = s"
proof (induction s)
  case Nil
  show ?case by (simp add: join_def)
next
  case (Cons c s)
  obtain p ps where "split_char d s = p # ps" by (cases "split_char d s") auto
  with Cons show ?case by (auto simp: join_def split: list.splits)
qed

lemma split_char_append_sep:
  "split_char d (a @ d # b) = split_char d a @ split_char d b"
  by (induction a) (auto split: list.splits)

lemma split_char_single: "d \<notin> set s \<Longrightarrow> split_char d s = [s]"
  by (induction s) auto

lemma split_once_append: "d \<notin> set u \<Longrightarrow> split_once d (u @ d # p) = Some (u, p)"
proof -
  assume u: "d \<notin> set u"
  then have "takeWhile (\<lambda>c. c \<noteq> d) (u @ d # p) = u" "dropWhile (\<lambda>c. c \<noteq> d) (u @ d # p) = d # p"
    by (induction u) auto
  then show ?thesis by (simp add: split_once_def)
qed

lemma split_once_Some: "split_once d s = Some (u, p) \<Longrightarrow> s = u @ d # p \<and> d \<notin> set u"
proof -
  assume "split_once d s = Some (u, p)"
  then have d: "d \<in> set s" and u: "u = takeWhile (\<lambda>c. c \<noteq> d) s"
    and p: "p = tl (dropWhile (\<lambda>c. c \<noteq> d) s)"
    by (auto simp: split_once_def split: if_splits)
  have "dropWhile (\<lambda>c. c \<noteq> d) s = d # tl (dropWhile (\<lambda>c. c \<noteq> d) s)"
    using d by (induction s) auto
  with u p show ?thesis
    by (metis (full_types) set_takeWhileD takeWhile_dropWhile_id)
qed

section \<open>Lists\<close>

lemma filter_sorted_split:
  fixes f :: "'a \<Rightarrow> 'k :: linorder"
  assumes "sorted (map f xs)"
  shows "filter P xs = filter (\<lambda>x. P x \<and> f x \<le> k) xs @ filter (\<lambda>x. P x \<and> k < f x) xs"
  using assms
proof (induction xs)
  case (Cons x xs)
  then have "f x \<le> f y" if "y \<in> set xs" for y using that by simp
  then have "filter (\<lambda>y. P y \<and> f y \<le> k) xs = []" if "k < f x"
    using that by (force simp: filter_empty_conv)
  with Cons show ?case by (auto simp: not_le)
qed simp

lemma prefix_iff_take:
  "(\<exists>p. xs = p @ ys \<and> length p = n \<and> Q p) \<longleftrightarrow> n \<le> length xs \<and> ys = drop n xs \<and> Q (take n xs)"
proof
  assume "n \<le> length xs \<and> ys = drop n xs \<and> Q (take n xs)"
  then have "xs = take n xs @ ys \<and> length (take n xs) = n \<and> Q (take n xs)" by simp
  then show "\<exists>p. xs = p @ ys \<and> length p = n \<and> Q p" by blast
qed auto

section \<open>UTF-8 boundaries\<close>

text \<open>\<open>str::is_char_boundary\<close>: the ends, or a byte that is not a continuation byte
  (the standard library tests \<open>(b as i8) >= -0x40\<close>).\<close>

definition is_cont :: "char \<Rightarrow> bool" where
  "is_cont c \<longleftrightarrow> 128 \<le> byte c \<and> byte c < 192"

definition is_char_boundary :: "string \<Rightarrow> nat \<Rightarrow> bool" where
  "is_char_boundary s i \<longleftrightarrow>
     i = 0 \<or> i = length s \<or> (i < length s \<and> \<not> is_cont (s ! i))"

text \<open>\<open>String::from_utf8\<close>: well-formed byte sequences of the Unicode standard
  (Table 3-7), which the standard library checks.\<close>

definition in_range :: "nat \<Rightarrow> nat \<Rightarrow> char \<Rightarrow> bool" where
  "in_range lo hi c \<longleftrightarrow> lo \<le> byte c \<and> byte c \<le> hi"

definition utf8_2 :: "char \<Rightarrow> char \<Rightarrow> bool" where
  "utf8_2 a b \<longleftrightarrow> in_range 194 223 a \<and> in_range 128 191 b"

definition utf8_3 :: "char \<Rightarrow> char \<Rightarrow> char \<Rightarrow> bool" where
  "utf8_3 a b c \<longleftrightarrow> in_range 128 191 c \<and>
     (byte a = 224 \<and> in_range 160 191 b \<or>
      (in_range 225 236 a \<or> in_range 238 239 a) \<and> in_range 128 191 b \<or>
      byte a = 237 \<and> in_range 128 159 b)"

definition utf8_4 :: "char \<Rightarrow> char \<Rightarrow> char \<Rightarrow> char \<Rightarrow> bool" where
  "utf8_4 a b c d \<longleftrightarrow> in_range 128 191 c \<and> in_range 128 191 d \<and>
     (byte a = 240 \<and> in_range 144 191 b \<or>
      in_range 241 243 a \<and> in_range 128 191 b \<or>
      byte a = 244 \<and> in_range 128 143 b)"

text \<open>\<open>str::chars\<close> as the list of encoded scalar values, \<open>None\<close> on malformed input.\<close>

definition utf8_width :: "string \<Rightarrow> nat" where
  "utf8_width s =
     (case s of
        a # t \<Rightarrow>
          if is_ascii a then 1
          else (case t of
             b # u \<Rightarrow>
               if utf8_2 a b then 2
               else (case u of
                  c # v \<Rightarrow>
                    if utf8_3 a b c then 3
                    else (case v of d # w \<Rightarrow> if utf8_4 a b c d then 4 else 0 | [] \<Rightarrow> 0)
                | [] \<Rightarrow> 0)
           | [] \<Rightarrow> 0)
      | [] \<Rightarrow> 0)"

function utf8_chars :: "string \<Rightarrow> string list option" where
  "utf8_chars s =
     (if s = [] then Some []
      else if utf8_width s = 0 then None
      else map_option (\<lambda>cs. take (utf8_width s) s # cs) (utf8_chars (drop (utf8_width s) s)))"
  by pat_completeness auto
termination
  by (relation "measure length") auto

declare utf8_chars.simps [simp del]

definition utf8_valid :: "string \<Rightarrow> bool" where
  "utf8_valid s \<longleftrightarrow> utf8_chars s \<noteq> None"

lemma utf8_width_le: "utf8_width s \<le> length s"
  by (auto simp: utf8_width_def split: list.splits)

lemma utf8_chars_concat: "utf8_chars s = Some cs \<Longrightarrow> concat cs = s"
proof (induction s arbitrary: cs rule: utf8_chars.induct)
  case (1 s)
  from "1.prems" show ?case
    by (subst (asm) utf8_chars.simps) (auto split: if_splits dest: "1.IH")
qed

lemma utf8_chars_nonempty: "utf8_chars s = Some cs \<Longrightarrow> c \<in> set cs \<Longrightarrow> c \<noteq> []"
proof (induction s arbitrary: cs rule: utf8_chars.induct)
  case (1 s)
  from "1.prems" show ?case
    by (subst (asm) utf8_chars.simps) (auto split: if_splits dest: "1.IH")
qed

lemma utf8_chars_ascii: "list_all is_ascii s \<Longrightarrow> utf8_chars s = Some (map (\<lambda>c. [c]) s)"
  by (induction s) (simp_all add: utf8_chars.simps utf8_width_def)

text \<open>One scalar value: the chunks \<^const>\<open>utf8_chars\<close> cuts are such, and concatenating such
  chunks gives a string that is cut in the same way.\<close>

definition utf8_single :: "string \<Rightarrow> bool" where
  "utf8_single c \<longleftrightarrow> c \<noteq> [] \<and> utf8_width c = length c"

lemma utf8_width_single_append: "utf8_single c \<Longrightarrow> utf8_width (c @ r) = length c"
  by (auto simp: utf8_single_def utf8_width_def split: list.splits if_splits)

lemma utf8_width_take: "utf8_width (take (utf8_width s) s) = utf8_width s"
  by (auto simp: utf8_width_def split: list.splits)

lemma utf8_chars_single: "utf8_chars s = Some cs \<Longrightarrow> list_all utf8_single cs"
proof (induction s arbitrary: cs rule: utf8_chars.induct)
  case (1 s)
  have "utf8_width s \<noteq> 0 \<Longrightarrow> utf8_single (take (utf8_width s) s)"
    using utf8_width_le [of s] by (auto simp: utf8_single_def utf8_width_take)
  with "1.prems" show ?case
    by (subst (asm) utf8_chars.simps) (auto split: if_splits dest: "1.IH")
qed

lemma utf8_chars_concat_singles: "list_all utf8_single cs \<Longrightarrow> utf8_chars (concat cs) = Some cs"
proof (induction cs)
  case (Cons c cs)
  then have "utf8_width (c @ concat cs) = length c" "c \<noteq> []"
    by (simp_all add: utf8_width_single_append utf8_single_def)
  with Cons show ?case by (subst utf8_chars.simps) simp
qed (simp add: utf8_chars.simps)

section \<open>Integers\<close>

text \<open>The bounds of \<open>u16\<close>, \<open>u32\<close> and \<open>u64\<close> (and of \<open>usize\<close> on a 64-bit
  target), for amounts that the code keeps at a width and saturates.\<close>

definition u16_max :: nat where "u16_max = 2 ^ 16 - 1"
definition u32_max :: nat where "u32_max = 2 ^ 32 - 1"
definition u64_max :: nat where "u64_max = 2 ^ 64 - 1"

definition sat_mul64 :: "nat \<Rightarrow> nat \<Rightarrow> nat" where
  "sat_mul64 a b = min (a * b) u64_max"

definition sat_add64 :: "nat \<Rightarrow> nat \<Rightarrow> nat" where
  "sat_add64 a b = min (a + b) u64_max"

text \<open>\<open>str::parse\<close> for an unsigned integer type with the given maximum: an optional
  \<open>+\<close>, then at least one digit, and the value must fit.\<close>

definition digit_val :: "char \<Rightarrow> nat" where
  "digit_val c = byte c - 48"

definition digits_val :: "string \<Rightarrow> nat" where
  "digits_val s = foldl (\<lambda>v c. 10 * v + digit_val c) 0 s"

definition parse_uint :: "nat \<Rightarrow> string \<Rightarrow> nat option" where
  "parse_uint mx s =
     (let ds = (case s of [] \<Rightarrow> [] | c # t \<Rightarrow> if c = CHR ''+'' then t else s)
      in if ds = [] \<or> \<not> list_all is_ascii_digit ds then None
         else if digits_val ds \<le> mx then Some (digits_val ds) else None)"

definition digit_char :: "nat \<Rightarrow> char" where
  "digit_char d = char_of (48 + d)"

fun show_nat :: "nat \<Rightarrow> string" where
  "show_nat n = (if n < 10 then [digit_char n] else show_nat (n div 10) @ [digit_char (n mod 10)])"

declare show_nat.simps [simp del]

lemma digit_char_digit: "d < 10 \<Longrightarrow> is_ascii_digit (digit_char d) \<and> digit_val (digit_char d) = d"
  by (simp add: digit_char_def is_ascii_digit_def digit_val_def)

lemma show_nat_digits: "list_all is_ascii_digit (show_nat n)"
  by (induction n rule: show_nat.induct)
    (subst show_nat.simps, auto simp: digit_char_digit)

lemma show_nat_nonempty [simp]: "show_nat n \<noteq> []"
  by (subst show_nat.simps) simp

lemma digits_val_show_nat: "digits_val (show_nat n) = n"
proof (induction n rule: show_nat.induct)
  case (1 n)
  then show ?case
    by (subst show_nat.simps) (simp add: digits_val_def digit_char_digit)
qed

lemma digit_not_plus: "is_ascii_digit c \<Longrightarrow> c \<noteq> CHR ''+''"
  by (auto simp: is_ascii_digit_def byte_def)

lemma parse_uint_digits:
  "ds \<noteq> [] \<Longrightarrow> list_all is_ascii_digit ds \<Longrightarrow>
   parse_uint mx ds = (if digits_val ds \<le> mx then Some (digits_val ds) else None)"
  by (cases ds) (auto simp: parse_uint_def Let_def dest: digit_not_plus)

lemma parse_show_nat: "n \<le> mx \<Longrightarrow> parse_uint mx (show_nat n) = Some n"
  by (simp add: parse_uint_digits show_nat_digits digits_val_show_nat)

lemma parse_uint_bound: "parse_uint mx s = Some n \<Longrightarrow> n \<le> mx"
  by (auto simp: parse_uint_def Let_def split: if_splits)

lemma digit_solid: "is_ascii_digit c \<Longrightarrow> solid c"
  by (auto simp: is_ascii_digit_def solid_def is_ascii_def ws1_def)

section \<open>Counting the tasks of a table\<close>

lemma filter_update_count:
  "i < length xs \<Longrightarrow>
   length (filter P (xs[i := y])) + (if P (xs ! i) then 1 else 0) = length (filter P xs) + (if P y then 1 else 0)"
proof (induction xs arbitrary: i)
  case (Cons x xs)
  then show ?case using Cons.IH [of "i - 1"] by (cases i) auto
qed simp

lemma filter_at_most_one:
  assumes "length (filter P xs) \<le> 1" "i < length xs" "j < length xs" "P (xs ! i)" "P (xs ! j)"
  shows "i = j"
proof -
  have "card {k. k < length xs \<and> P (xs ! k)} \<le> 1" using assms(1) by (simp add: length_filter_conv_card)
  with assms(2-) show ?thesis by (auto simp: card_le_Suc0_iff_eq)
qed

end
