(* ===== verification/Plugin_Ordering.thy ===== *)
theory Plugin_Ordering
  imports Prelude
begin

text \<open>
  Plugin ordering (\<open>rusty-gasket/src/plugin/ordering.rs\<close>): the declared constraints of a
  plugin and \<open>topological_sort\<close>, Kahn's algorithm over the constraint graph.

  A plugin is seen here through its name and its ordering, the first fields of a plugin
  handle (the engine's record extends \<open>plugin_decl\<close>).  A \<open>BTreeSet<usize>\<close> is an
  ascending distinct list, a \<open>VecDeque\<close> and a \<open>Vec\<close> are lists.  The in-degrees are
  \<open>usize\<close>: the decrement of 0 panics when the crate is compiled with overflow checks
  (the dev profile) and wraps around otherwise (the release profile), so the sort takes
  the profile as its first argument \<open>ck\<close>.
\<close>

section \<open>Constraints\<close>

record plugin_ordering =
  po_before :: "string list"
  po_after :: "string list"
  po_first :: bool
  po_last :: bool

definition ordering_new :: plugin_ordering where
  "ordering_new = \<lparr>po_before = [], po_after = [], po_first = False, po_last = False\<rparr>"

definition with_before :: "string list \<Rightarrow> plugin_ordering \<Rightarrow> plugin_ordering" where
  "with_before names o' = o'\<lparr>po_before := po_before o' @ names\<rparr>"

definition with_after :: "string list \<Rightarrow> plugin_ordering \<Rightarrow> plugin_ordering" where
  "with_after names o' = o'\<lparr>po_after := po_after o' @ names\<rparr>"

definition with_first :: "plugin_ordering \<Rightarrow> plugin_ordering" where
  "with_first o' = o'\<lparr>po_first := True\<rparr>"

definition with_last :: "plugin_ordering \<Rightarrow> plugin_ordering" where
  "with_last o' = o'\<lparr>po_last := True\<rparr>"

record plugin_decl =
  pl_name :: string
  pl_ordering :: plugin_ordering

datatype sort_error =
    DuplicateName string nat nat
  | FirstAndLast string
  | UnknownBefore string string
  | UnknownAfter string string
  | CycleDetected "string list"
  | FuelExhausted \<comment> \<open>no outcome of the code, see \<open>topological_sort_fuel\<close>\<close>
  | SubtractOverflow \<comment> \<open>the panic of an overflow-checked \<open>usize\<close> decrement\<close>

section \<open>The constraint graph\<close>

definition btree_insert :: "nat \<Rightarrow> nat list \<Rightarrow> nat list" where
  "btree_insert x xs = (if x \<in> set xs then xs else insort x xs)"

definition add_edge :: "nat \<Rightarrow> nat \<Rightarrow> nat list list \<Rightarrow> nat list list" where
  "add_edge i j adj = adj[i := btree_insert j (adj ! i)]"

fun index_names ::
  "nat \<Rightarrow> 'a plugin_decl_scheme list \<Rightarrow> (string \<rightharpoonup> nat) \<Rightarrow> (sort_error, string \<rightharpoonup> nat) result" where
  "index_names i [] m = Ok m"
| "index_names i (p # ps) m =
     (case m (pl_name p) of
        Some prev \<Rightarrow> Err (DuplicateName (pl_name p) prev i)
      | None \<Rightarrow> index_names (Suc i) ps (m(pl_name p \<mapsto> i)))"

text \<open>The two sweeps over all plugins, for \<open>first\<close> and for \<open>last\<close>.\<close>

definition first_edges :: "'a plugin_decl_scheme list \<Rightarrow> nat \<Rightarrow> nat list list \<Rightarrow> nat list list" where
  "first_edges ps i adj =
     fold (\<lambda>j adj. if j \<noteq> i \<and> \<not> po_first (pl_ordering (ps ! j)) then add_edge i j adj else adj)
       [0..<length ps] adj"

definition last_edges :: "'a plugin_decl_scheme list \<Rightarrow> nat \<Rightarrow> nat list list \<Rightarrow> nat list list" where
  "last_edges ps i adj =
     fold (\<lambda>j adj. if j \<noteq> i \<and> \<not> po_last (pl_ordering (ps ! j)) then add_edge j i adj else adj)
       [0..<length ps] adj"

fun before_edges ::
  "(string \<rightharpoonup> nat) \<Rightarrow> nat \<Rightarrow> string \<Rightarrow> string list \<Rightarrow> nat list list \<Rightarrow> (sort_error, nat list list) result"
where
  "before_edges idx i pname [] adj = Ok adj"
| "before_edges idx i pname (t # ts) adj =
     (case idx t of
        Some j \<Rightarrow> before_edges idx i pname ts (add_edge i j adj)
      | None \<Rightarrow> Err (UnknownBefore pname t))"

fun after_edges ::
  "(string \<rightharpoonup> nat) \<Rightarrow> nat \<Rightarrow> string \<Rightarrow> string list \<Rightarrow> nat list list \<Rightarrow> (sort_error, nat list list) result"
where
  "after_edges idx i pname [] adj = Ok adj"
| "after_edges idx i pname (t # ts) adj =
     (case idx t of
        Some j \<Rightarrow> after_edges idx i pname ts (add_edge j i adj)
      | None \<Rightarrow> Err (UnknownAfter pname t))"

definition plugin_edges ::
  "'a plugin_decl_scheme list \<Rightarrow> (string \<rightharpoonup> nat) \<Rightarrow> nat \<Rightarrow> nat list list \<Rightarrow> (sort_error, nat list list) result"
where
  "plugin_edges ps idx i adj =
     (let p = ps ! i; ord = pl_ordering p in
      if po_first ord \<and> po_last ord then Err (FirstAndLast (pl_name p))
      else
        let adj = (if po_first ord then first_edges ps i adj else adj);
            adj = (if po_last ord then last_edges ps i adj else adj)
        in case before_edges idx i (pl_name p) (po_before ord) adj of
             Err e \<Rightarrow> Err e
           | Ok adj \<Rightarrow> after_edges idx i (pl_name p) (po_after ord) adj)"

fun all_edges ::
  "'a plugin_decl_scheme list \<Rightarrow> (string \<rightharpoonup> nat) \<Rightarrow> nat list \<Rightarrow> nat list list \<Rightarrow> (sort_error, nat list list) result"
where
  "all_edges ps idx [] adj = Ok adj"
| "all_edges ps idx (i # is) adj =
     (case plugin_edges ps idx i adj of
        Err e \<Rightarrow> Err e
      | Ok adj \<Rightarrow> all_edges ps idx is adj)"

section \<open>Kahn's loop\<close>

definition in_degrees :: "nat list list \<Rightarrow> nat list" where
  "in_degrees adj =
     fold (\<lambda>i deg. fold (\<lambda>j deg. if i \<noteq> j then deg[j := deg ! j + 1] else deg) (adj ! i) deg)
       [0..<length adj] (replicate (length adj) 0)"

definition dec_usize :: "bool \<Rightarrow> nat \<Rightarrow> nat option" where
  "dec_usize ck d = (if d = 0 then (if ck then None else Some u64_max) else Some (d - 1))"

fun dec_neighbors ::
  "bool \<Rightarrow> nat list \<Rightarrow> nat list \<Rightarrow> nat list \<Rightarrow> (nat list \<times> nat list) option" where
  "dec_neighbors ck [] deg q = Some (deg, q)"
| "dec_neighbors ck (v # vs) deg q =
     (case dec_usize ck (deg ! v) of
        None \<Rightarrow> None
      | Some d \<Rightarrow> dec_neighbors ck vs (deg[v := d]) (if d = 0 then q @ [v] else q))"

datatype kahn_result = KDone "nat list" "nat list" | KPanic | KFuel

fun kahn :: "nat \<Rightarrow> bool \<Rightarrow> nat list list \<Rightarrow> nat list \<Rightarrow> nat list \<Rightarrow> nat list \<Rightarrow> kahn_result" where
  "kahn 0 ck adj q deg srt = KFuel"
| "kahn (Suc fuel) ck adj [] deg srt = KDone srt deg"
| "kahn (Suc fuel) ck adj (node # q) deg srt =
     (case dec_neighbors ck (adj ! node) deg q of
        None \<Rightarrow> KPanic
      | Some (deg', q') \<Rightarrow> kahn fuel ck adj q' deg' (srt @ [node]))"

text \<open>\<open>Suc n\<close> units of fuel: every iteration but the last pops a fresh node
  (\<open>kahn_run\<close> below), so \<open>FuelExhausted\<close> is never returned.\<close>

definition topological_sort ::
  "bool \<Rightarrow> 'a plugin_decl_scheme list \<Rightarrow> (sort_error, nat list) result" where
  "topological_sort ck ps =
     (let n = length ps in
      case index_names 0 ps Map.empty of
        Err e \<Rightarrow> Err e
      | Ok idx \<Rightarrow>
          (case all_edges ps idx [0..<n] (replicate n []) of
             Err e \<Rightarrow> Err e
           | Ok adj \<Rightarrow>
               let deg = in_degrees adj;
                   q = filter (\<lambda>i. deg ! i = 0) [0..<n]
               in (case kahn (Suc n) ck adj q deg [] of
                     KDone srt deg' \<Rightarrow>
                       if length srt \<noteq> n
                       then Err (CycleDetected
                              (map (\<lambda>i. pl_name (ps ! i)) (filter (\<lambda>i. 0 < deg' ! i) [0..<n])))
                       else Ok srt
                   | KPanic \<Rightarrow> Err SubtractOverflow
                   | KFuel \<Rightarrow> Err FuelExhausted)))"


section \<open>What the graph construction builds\<close>

text \<open>The constraint relation of the declarations: \<open>u\<close> has to run before \<open>v\<close>.\<close>

definition must_precede :: "'a plugin_decl_scheme list \<Rightarrow> nat \<Rightarrow> nat \<Rightarrow> bool" where
  "must_precede ps u v \<longleftrightarrow> u < length ps \<and> v < length ps \<and>
     (let pu = ps ! u; pv = ps ! v in
       (po_first (pl_ordering pu) \<and> \<not> po_first (pl_ordering pv)) \<or>
       (po_last (pl_ordering pv) \<and> \<not> po_last (pl_ordering pu)) \<or>
       pl_name pv \<in> set (po_before (pl_ordering pu)) \<or>
       pl_name pu \<in> set (po_after (pl_ordering pv)))"

definition names_resolve :: "'a plugin_decl_scheme list \<Rightarrow> bool" where
  "names_resolve ps \<longleftrightarrow>
     list_all (\<lambda>p. list_all (\<lambda>t. t \<in> set (map pl_name ps))
       (po_before (pl_ordering p) @ po_after (pl_ordering p))) ps"

definition well_declared :: "'a plugin_decl_scheme list \<Rightarrow> bool" where
  "well_declared ps \<longleftrightarrow> distinct (map pl_name ps) \<and>
     list_all (\<lambda>p. \<not> (po_first (pl_ordering p) \<and> po_last (pl_ordering p))) ps \<and> names_resolve ps"

definition edges :: "nat list list \<Rightarrow> (nat \<times> nat) set" where
  "edges adj = {(u, v). u < length adj \<and> v \<in> set (adj ! u)}"

definition adj_ok :: "nat \<Rightarrow> nat list list \<Rightarrow> bool" where
  "adj_ok n adj \<longleftrightarrow> length adj = n \<and> (\<forall>u<n. distinct (adj ! u) \<and> set (adj ! u) \<subseteq> {..<n})"

lemma set_btree_insert [simp]: "set (btree_insert x xs) = insert x (set xs)"
  by (auto simp: btree_insert_def set_insort_key)

lemma distinct_btree_insert [simp]: "distinct xs \<Longrightarrow> distinct (btree_insert x xs)"
  by (simp add: btree_insert_def distinct_insort)

lemma length_add_edge [simp]: "length (add_edge i j adj) = length adj"
  by (simp add: add_edge_def)

lemma edges_add_edge: "i < length adj \<Longrightarrow> edges (add_edge i j adj) = insert (i, j) (edges adj)"
  by (auto simp: edges_def add_edge_def nth_list_update split: if_splits)

lemma adj_ok_add_edge: "adj_ok n adj \<Longrightarrow> i < n \<Longrightarrow> j < n \<Longrightarrow> adj_ok n (add_edge i j adj)"
  by (auto simp: adj_ok_def add_edge_def nth_list_update)

text \<open>A sweep that adds an edge for every element of a list that passes a test.\<close>

lemma sweep_edges:
  assumes "adj_ok n adj" and "\<And>j. j \<in> set js \<Longrightarrow> f j < n \<and> g j < n"
  shows "adj_ok n (fold (\<lambda>j a. if P j then add_edge (f j) (g j) a else a) js adj) \<and>
    edges (fold (\<lambda>j a. if P j then add_edge (f j) (g j) a else a) js adj) =
      edges adj \<union> {(f j, g j) | j. j \<in> set js \<and> P j}"
  using assms
proof (induction js arbitrary: adj)
  case Nil
  then show ?case by simp
next
  case (Cons j js)
  let ?a = "if P j then add_edge (f j) (g j) adj else adj"
  have ok: "adj_ok n ?a" using Cons.prems by (auto intro: adj_ok_add_edge)
  have ed: "edges ?a = edges adj \<union> (if P j then {(f j, g j)} else {})"
    using Cons.prems by (simp add: edges_add_edge adj_ok_def)
  show ?case using Cons.IH [OF ok] Cons.prems(2) by (auto simp: ed)
qed

lemma first_edges_spec:
  assumes "adj_ok (length ps) adj" "i < length ps"
  shows "adj_ok (length ps) (first_edges ps i adj) \<and>
    edges (first_edges ps i adj) =
      edges adj \<union> {(i, j) | j. j < length ps \<and> j \<noteq> i \<and> \<not> po_first (pl_ordering (ps ! j))}"
  using sweep_edges [OF assms(1), of "[0..<length ps]" "\<lambda>_. i" "\<lambda>j. j"
      "\<lambda>j. j \<noteq> i \<and> \<not> po_first (pl_ordering (ps ! j))"] assms(2)
  by (simp add: first_edges_def)

lemma last_edges_spec:
  assumes "adj_ok (length ps) adj" "i < length ps"
  shows "adj_ok (length ps) (last_edges ps i adj) \<and>
    edges (last_edges ps i adj) =
      edges adj \<union> {(j, i) | j. j < length ps \<and> j \<noteq> i \<and> \<not> po_last (pl_ordering (ps ! j))}"
  using sweep_edges [OF assms(1), of "[0..<length ps]" "\<lambda>j. j" "\<lambda>_. i"
      "\<lambda>j. j \<noteq> i \<and> \<not> po_last (pl_ordering (ps ! j))"] assms(2)
  by (simp add: last_edges_def)

lemma before_edges_spec:
  assumes "adj_ok n adj" "i < n" "ran idx \<subseteq> {..<n}" "before_edges idx i nm ts adj = Ok adj'"
  shows "adj_ok n adj' \<and> edges adj' = edges adj \<union> {(i, j) | j t. t \<in> set ts \<and> idx t = Some j}"
  using assms
proof (induction ts arbitrary: adj)
  case Nil
  then show ?case by simp
next
  case (Cons t ts)
  from Cons.prems obtain j where j: "idx t = Some j" by (auto split: option.splits)
  with Cons.prems(3) have "j < n" by (auto intro: ranI)
  then have ok: "adj_ok n (add_edge i j adj)" using Cons.prems by (auto intro: adj_ok_add_edge)
  have "edges (add_edge i j adj) = insert (i, j) (edges adj)"
    using Cons.prems by (simp add: edges_add_edge adj_ok_def)
  then show ?case using Cons.IH [OF ok Cons.prems(2,3)] Cons.prems(4) j by auto
qed

lemma after_edges_spec:
  assumes "adj_ok n adj" "i < n" "ran idx \<subseteq> {..<n}" "after_edges idx i nm ts adj = Ok adj'"
  shows "adj_ok n adj' \<and> edges adj' = edges adj \<union> {(j, i) | j t. t \<in> set ts \<and> idx t = Some j}"
  using assms
proof (induction ts arbitrary: adj)
  case Nil
  then show ?case by simp
next
  case (Cons t ts)
  from Cons.prems obtain j where j: "idx t = Some j" by (auto split: option.splits)
  with Cons.prems(3) have jn: "j < n" by (auto intro: ranI)
  then have ok: "adj_ok n (add_edge j i adj)" using Cons.prems by (auto intro: adj_ok_add_edge)
  have "edges (add_edge j i adj) = insert (j, i) (edges adj)"
    using Cons.prems jn by (simp add: edges_add_edge adj_ok_def)
  then show ?case using Cons.IH [OF ok Cons.prems(2,3)] Cons.prems(4) j by auto
qed

lemma before_edges_total: "(\<forall>t \<in> set ts. idx t \<noteq> None) \<Longrightarrow> \<exists>adj'. before_edges idx i nm ts adj = Ok adj'"
  by (induction ts arbitrary: adj) (auto split: option.splits)

lemma after_edges_total: "(\<forall>t \<in> set ts. idx t \<noteq> None) \<Longrightarrow> \<exists>adj'. after_edges idx i nm ts adj = Ok adj'"
  by (induction ts arbitrary: adj) (auto split: option.splits)

text \<open>The edges one plugin contributes.\<close>

definition contrib :: "'a plugin_decl_scheme list \<Rightarrow> (string \<rightharpoonup> nat) \<Rightarrow> nat \<Rightarrow> (nat \<times> nat) set" where
  "contrib ps idx i =
     {(i, j) | j. po_first (pl_ordering (ps ! i)) \<and> j < length ps \<and> j \<noteq> i \<and> \<not> po_first (pl_ordering (ps ! j))} \<union>
     {(j, i) | j. po_last (pl_ordering (ps ! i)) \<and> j < length ps \<and> j \<noteq> i \<and> \<not> po_last (pl_ordering (ps ! j))} \<union>
     {(i, j) | j t. t \<in> set (po_before (pl_ordering (ps ! i))) \<and> idx t = Some j} \<union>
     {(j, i) | j t. t \<in> set (po_after (pl_ordering (ps ! i))) \<and> idx t = Some j}"

lemma plugin_edges_spec:
  assumes ok: "adj_ok (length ps) adj" and i: "i < length ps" and idx: "ran idx \<subseteq> {..<length ps}"
    and res: "plugin_edges ps idx i adj = Ok adj'"
  shows "adj_ok (length ps) adj' \<and> edges adj' = edges adj \<union> contrib ps idx i"
proof -
  define a1 where "a1 = (if po_first (pl_ordering (ps ! i)) then first_edges ps i adj else adj)"
  define a2 where "a2 = (if po_last (pl_ordering (ps ! i)) then last_edges ps i a1 else a1)"
  from res obtain a3 where
    a3: "before_edges idx i (pl_name (ps ! i)) (po_before (pl_ordering (ps ! i))) a2 = Ok a3" and
    a4: "after_edges idx i (pl_name (ps ! i)) (po_after (pl_ordering (ps ! i))) a3 = Ok adj'"
    by (auto simp: plugin_edges_def Let_def a1_def a2_def split: if_splits sum.splits)
  have 1: "adj_ok (length ps) a1" using first_edges_spec [OF ok i] ok by (simp add: a1_def)
  have 2: "adj_ok (length ps) a2" using last_edges_spec [OF 1 i] 1 by (simp add: a2_def)
  note e3 = before_edges_spec [OF 2 i idx a3]
  note e4 = after_edges_spec [OF conjunct1 [OF e3] i idx a4]
  show ?thesis
    using e3 e4 first_edges_spec [OF ok i] last_edges_spec [OF 1 i]
    by (auto simp: contrib_def a1_def a2_def split: if_splits)
qed

lemma all_edges_spec:
  assumes "adj_ok (length ps) adj" "set is \<subseteq> {..<length ps}" "ran idx \<subseteq> {..<length ps}"
    "all_edges ps idx is adj = Ok adj'"
  shows "adj_ok (length ps) adj' \<and> edges adj' = edges adj \<union> (\<Union>i \<in> set is. contrib ps idx i)"
  using assms
proof (induction "is" arbitrary: adj)
  case Nil
  then show ?case by simp
next
  case (Cons i "is")
  from Cons.prems obtain a where a: "plugin_edges ps idx i adj = Ok a"
    and rest: "all_edges ps idx is a = Ok adj'"
    by (auto split: sum.splits)
  have e: "adj_ok (length ps) a \<and> edges a = edges adj \<union> contrib ps idx i"
    by (rule plugin_edges_spec) (use Cons.prems a in auto)
  then show ?case using Cons.IH [of a] Cons.prems rest by auto
qed

lemma all_edges_Ok_decl:
  assumes "all_edges ps idx is adj = Ok adj'" "i \<in> set is"
  shows "\<not> (po_first (pl_ordering (ps ! i)) \<and> po_last (pl_ordering (ps ! i)))"
  using assms
  by (induction "is" arbitrary: adj) (auto simp: plugin_edges_def Let_def split: sum.splits if_splits)

lemma plugin_edges_total:
  assumes "\<not> (po_first (pl_ordering (ps ! i)) \<and> po_last (pl_ordering (ps ! i)))"
    "\<forall>t \<in> set (po_before (pl_ordering (ps ! i)) @ po_after (pl_ordering (ps ! i))). idx t \<noteq> None"
  shows "\<exists>adj'. plugin_edges ps idx i adj = Ok adj'"
proof -
  have "\<exists>a. before_edges idx i nm (po_before (pl_ordering (ps ! i))) b = Ok a" for nm b
    by (rule before_edges_total) (use assms(2) in auto)
  moreover have "\<exists>a. after_edges idx i nm (po_after (pl_ordering (ps ! i))) b = Ok a" for nm b
    by (rule after_edges_total) (use assms(2) in auto)
  ultimately show ?thesis
    using assms(1) unfolding plugin_edges_def Let_def
    by (metis (no_types, lifting) old.sum.simps(6))
qed

lemma all_edges_total:
  assumes "\<forall>i \<in> set is. \<not> (po_first (pl_ordering (ps ! i)) \<and> po_last (pl_ordering (ps ! i)))"
    "\<forall>i \<in> set is. \<forall>t \<in> set (po_before (pl_ordering (ps ! i)) @ po_after (pl_ordering (ps ! i))). idx t \<noteq> None"
  shows "\<exists>adj'. all_edges ps idx is adj = Ok adj'"
  using assms
proof (induction "is" arbitrary: adj)
  case Nil
  then show ?case by simp
next
  case (Cons i "is")
  obtain a where "plugin_edges ps idx i adj = Ok a"
    using plugin_edges_total [of ps i idx adj] Cons.prems by auto
  then show ?case using Cons.IH [of a] Cons.prems by auto
qed

lemma index_names_spec:
  "index_names i ps m0 = Ok m \<Longrightarrow>
     distinct (map pl_name ps) \<and> set (map pl_name ps) \<inter> dom m0 = {} \<and>
     (\<forall>x k. m x = Some k \<longleftrightarrow> m0 x = Some k \<or> (\<exists>j<length ps. k = i + j \<and> pl_name (ps ! j) = x))"
proof (induction ps arbitrary: i m0)
  case Nil
  then show ?case by simp
next
  case (Cons p ps)
  from Cons.prems have fresh: "m0 (pl_name p) = None"
    and rest: "index_names (Suc i) ps (m0(pl_name p \<mapsto> i)) = Ok m"
    by (auto split: option.splits)
  note ih = Cons.IH [OF rest]
  have "(\<exists>j<length (p # ps). k = i + j \<and> pl_name ((p # ps) ! j) = x) \<longleftrightarrow>
      (k = i \<and> pl_name p = x) \<or> (\<exists>j<length ps. k = Suc i + j \<and> pl_name (ps ! j) = x)" for x k
    by (auto simp: less_Suc_eq_0_disj)
  with ih fresh show ?case by auto
qed

lemma index_names_total:
  "distinct (map pl_name ps) \<Longrightarrow> set (map pl_name ps) \<inter> dom m0 = {} \<Longrightarrow>
     \<exists>m. index_names i ps m0 = Ok m"
proof (induction ps arbitrary: i m0)
  case (Cons p ps)
  then have "m0 (pl_name p) = None" by auto
  moreover have "\<exists>m. index_names (Suc i) ps (m0(pl_name p \<mapsto> i)) = Ok m"
  proof (rule Cons.IH)
    show "distinct (map pl_name ps)" using Cons.prems by simp
    have "pl_name p \<notin> set (map pl_name ps)" using Cons.prems by simp
    moreover have "set (map pl_name ps) \<inter> dom m0 = {}"
      using Cons.prems(2) by (simp add: Int_insert_left split: if_splits)
    ultimately show "set (map pl_name ps) \<inter> dom (m0(pl_name p \<mapsto> i)) = {}"
      by (simp add: Int_insert_right)
  qed
  ultimately show ?case by simp
qed simp

text \<open>Both phases together: the graph holds exactly the declared constraints.\<close>

lemma graph_spec:
  assumes idx: "index_names 0 ps Map.empty = Ok idx"
    and adj: "all_edges ps idx [0..<length ps] (replicate (length ps) []) = Ok adj"
  shows "adj_ok (length ps) adj" and "edges adj = {(u, v). must_precede ps u v}"
proof -
  have m: "idx x = Some k \<longleftrightarrow> k < length ps \<and> pl_name (ps ! k) = x" for x k
    using index_names_spec [OF idx] by auto
  then have r: "ran idx \<subseteq> {..<length ps}" by (auto simp: ran_def)
  have "adj_ok (length ps) (replicate (length ps) [])" by (simp add: adj_ok_def)
  from all_edges_spec [OF this _ r adj]
  have ok: "adj_ok (length ps) adj"
    and e: "edges adj = (\<Union>i<length ps. contrib ps idx i)"
    by (auto simp: edges_def atLeast0LessThan)
  show "adj_ok (length ps) adj" by (rule ok)
  show "edges adj = {(u, v). must_precede ps u v}"
    unfolding e contrib_def m by (auto simp: must_precede_def Let_def)
qed

lemma graph_total:
  assumes "well_declared ps"
  shows "\<exists>idx adj. index_names 0 ps Map.empty = Ok idx \<and>
    all_edges ps idx [0..<length ps] (replicate (length ps) []) = Ok adj"
proof -
  obtain idx where idx: "index_names 0 ps Map.empty = Ok idx"
    using index_names_total [of ps Map.empty 0] assms by (auto simp: well_declared_def)
  have dom: "t \<in> set (map pl_name ps) \<Longrightarrow> idx t \<noteq> None" for t
    using index_names_spec [OF idx] by (force simp: in_set_conv_nth)
  have "\<exists>adj. all_edges ps idx [0..<length ps] (replicate (length ps) []) = Ok adj"
  proof (rule all_edges_total)
    show "\<forall>i\<in>set [0..<length ps]. \<not> (po_first (pl_ordering (ps ! i)) \<and> po_last (pl_ordering (ps ! i)))"
      using assms by (auto simp: well_declared_def list_all_length)
    show "\<forall>i\<in>set [0..<length ps]. \<forall>t\<in>set (po_before (pl_ordering (ps ! i)) @ po_after (pl_ordering (ps ! i))). idx t \<noteq> None"
    proof (intro ballI)
      fix i t
      assume "i \<in> set [0..<length ps]"
        and t: "t \<in> set (po_before (pl_ordering (ps ! i)) @ po_after (pl_ordering (ps ! i)))"
      then have "ps ! i \<in> set ps" by simp
      with t assms have "t \<in> set (map pl_name ps)"
        unfolding well_declared_def names_resolve_def list_all_iff by blast
      then show "idx t \<noteq> None" by (rule dom)
    qed
  qed
  with idx show ?thesis by blast
qed


section \<open>Kahn's loop is correct\<close>

definition pred_count :: "nat list list \<Rightarrow> nat set \<Rightarrow> nat \<Rightarrow> nat" where
  "pred_count adj S v = card {u. u \<noteq> v \<and> u \<notin> S \<and> (u, v) \<in> edges adj}"

lemma preds_finite [simp]: "finite {u. u \<noteq> v \<and> u \<notin> S \<and> (u, v) \<in> edges adj}"
  by (rule finite_subset [of _ "{..<length adj}"]) (auto simp: edges_def)

lemma pred_count_0: "pred_count adj S v = 0 \<longleftrightarrow> (\<forall>u. (u, v) \<in> edges adj \<longrightarrow> u = v \<or> u \<in> S)"
  by (auto simp: pred_count_def card_eq_0_iff)

lemma pred_count_insert:
  assumes "x \<notin> S" "v \<noteq> x"
  shows "pred_count adj (insert x S) v =
    (if (x, v) \<in> edges adj then pred_count adj S v - 1 else pred_count adj S v)"
proof -
  have "{u. u \<noteq> v \<and> u \<notin> insert x S \<and> (u, v) \<in> edges adj} =
      {u. u \<noteq> v \<and> u \<notin> S \<and> (u, v) \<in> edges adj} - {x}"
    by auto
  then show ?thesis using assms by (auto simp: pred_count_def card_Diff_singleton_if)
qed

lemma pred_count_pos:
  "x \<notin> S \<Longrightarrow> v \<noteq> x \<Longrightarrow> (x, v) \<in> edges adj \<Longrightarrow> 0 < pred_count adj S v"
  using pred_count_0 [of adj S v] by auto

lemma in_degrees_inner:
  "distinct js \<Longrightarrow> \<forall>j \<in> set js. j < length deg \<Longrightarrow> v < length deg \<Longrightarrow>
   length (fold (\<lambda>j deg. if i \<noteq> j then deg[j := deg ! j + 1] else deg) js deg) = length deg \<and>
   fold (\<lambda>j deg. if i \<noteq> j then deg[j := deg ! j + 1] else deg) js deg ! v =
     deg ! v + (if v \<in> set js \<and> v \<noteq> i then 1 else (0::nat))"
  by (induction js arbitrary: deg) (auto simp: nth_list_update)

lemma in_degrees_prefix:
  assumes ok: "adj_ok n adj" and "k \<le> n"
  defines "st \<equiv> fold (\<lambda>i deg. fold (\<lambda>j deg. if i \<noteq> j then deg[j := deg ! j + 1] else deg) (adj ! i) deg)
       [0..<k] (replicate n 0)"
  shows "length st = n \<and> (\<forall>v<n. st ! v = card {u. u < k \<and> u \<noteq> v \<and> v \<in> set (adj ! u)})"
  using assms(2) unfolding st_def
proof (induction k)
  case 0
  then show ?case by simp
next
  case (Suc k)
  let ?st = "fold (\<lambda>i deg. fold (\<lambda>j deg. if i \<noteq> j then deg[j := deg ! j + 1] else deg) (adj ! i) deg)
       [0..<k] (replicate n (0::nat))"
  let ?f = "fold (\<lambda>j deg. if k \<noteq> j then deg[j := deg ! j + 1] else deg) (adj ! k) ?st"
  have ih: "length ?st = n \<and> (\<forall>v<n. ?st ! v = card {u. u < k \<and> u \<noteq> v \<and> v \<in> set (adj ! u)})"
    by (rule Suc.IH) (use Suc.prems in simp)
  then have len: "length ?st = n" and val: "\<And>v. v < n \<Longrightarrow> ?st ! v = card {u. u < k \<and> u \<noteq> v \<and> v \<in> set (adj ! u)}"
    by auto
  have d: "distinct (adj ! k)" "\<forall>j \<in> set (adj ! k). j < length ?st"
    using ok Suc.prems unfolding len adj_ok_def by (auto dest!: spec [of _ k])
  have eq: "{u. u < Suc k \<and> u \<noteq> v \<and> v \<in> set (adj ! u)} =
      {u. u < k \<and> u \<noteq> v \<and> v \<in> set (adj ! u)} \<union> (if v \<in> set (adj ! k) \<and> v \<noteq> k then {k} else {})" for v
    by (auto simp: less_Suc_eq)
  have "length ?f = n \<and> ?f ! v = card {u. u < Suc k \<and> u \<noteq> v \<and> v \<in> set (adj ! u)}" if "v < n" for v
    using in_degrees_inner [OF d, of v k] that len val [OF that] by (simp add: eq)
  moreover from this [of k] Suc.prems have "length ?f = n" by simp
  ultimately show ?case by simp
qed

lemma in_degrees_spec:
  assumes "adj_ok n adj"
  shows "length (in_degrees adj) = n" and "v < n \<Longrightarrow> in_degrees adj ! v = pred_count adj {} v"
proof -
  have n: "length adj = n" using assms by (simp add: adj_ok_def)
  have "{u. u < n \<and> u \<noteq> v \<and> v \<in> set (adj ! u)} = {u. u \<noteq> v \<and> u \<notin> {} \<and> (u, v) \<in> edges adj}" for v
    using n by (auto simp: edges_def)
  then show "length (in_degrees adj) = n" "v < n \<Longrightarrow> in_degrees adj ! v = pred_count adj {} v"
    using in_degrees_prefix [OF assms order_refl] n by (auto simp: in_degrees_def pred_count_def)
qed

text \<open>One pass over the neighbours of the node \<open>x\<close> that was just taken from the queue:
  every other neighbour loses one, and a self edge meets the in-degree 0 of \<open>x\<close>.\<close>

lemma dec_neighbors_panic:
  assumes "distinct vs" "deg ! x = 0" "x \<in> set vs" "\<forall>v \<in> set vs. v < length deg"
    "\<forall>v \<in> set vs. v \<noteq> x \<longrightarrow> 0 < deg ! v"
  shows "dec_neighbors True vs deg q = None"
  using assms
proof (induction vs arbitrary: deg q)
  case (Cons v vs)
  show ?case
  proof (cases "v = x")
    case True
    with Cons.prems show ?thesis by (simp add: dec_usize_def)
  next
    case False
    let ?deg = "deg[v := deg ! v - 1]"
    have "dec_neighbors True vs ?deg q' = None" for q'
      by (rule Cons.IH) (use Cons.prems False in \<open>auto simp: nth_list_update\<close>)
    with Cons.prems False show ?thesis by (auto simp: dec_usize_def)
  qed
qed simp

lemma dec_neighbors_run:
  assumes "distinct vs" "x < length deg" "deg ! x = 0 \<or> x \<notin> set vs" "\<not> (ck \<and> x \<in> set vs)"
    "\<forall>v \<in> set vs. v < length deg" "\<forall>v \<in> set vs. v \<noteq> x \<longrightarrow> 0 < deg ! v"
  shows "\<exists>deg'. dec_neighbors ck vs deg q =
      Some (deg', q @ filter (\<lambda>v. v \<noteq> x \<and> deg ! v = 1) vs) \<and> length deg' = length deg \<and>
      (\<forall>v<length deg. v \<noteq> x \<or> x \<notin> set vs \<longrightarrow>
        deg' ! v = (if v \<in> set vs then deg ! v - 1 else deg ! v))"
  using assms
proof (induction vs arbitrary: deg q)
  case Nil
  then show ?case by simp
next
  case (Cons v vs)
  define d where "d = (if v = x then u64_max else deg ! v - 1)"
  have d: "dec_usize ck (deg ! v) = Some d"
    using Cons.prems by (cases "v = x") (auto simp: dec_usize_def d_def)
  have z: "d = 0 \<longleftrightarrow> v \<noteq> x \<and> deg ! v = 1"
    using Cons.prems(6) by (auto simp: d_def u64_max_def)
  let ?deg = "deg[v := d]"
  have p: "distinct vs" "x < length ?deg" "?deg ! x = 0 \<or> x \<notin> set vs" "\<not> (ck \<and> x \<in> set vs)"
    "\<forall>v \<in> set vs. v < length ?deg" "\<forall>v \<in> set vs. v \<noteq> x \<longrightarrow> 0 < ?deg ! v"
    using Cons.prems by (auto simp: nth_list_update)
  obtain deg' where deg': "dec_neighbors ck vs ?deg (if d = 0 then q @ [v] else q) =
      Some (deg', (if d = 0 then q @ [v] else q) @ filter (\<lambda>u. u \<noteq> x \<and> ?deg ! u = 1) vs)"
    "length deg' = length ?deg"
    "\<forall>u<length ?deg. u \<noteq> x \<or> x \<notin> set vs \<longrightarrow>
      deg' ! u = (if u \<in> set vs then ?deg ! u - 1 else ?deg ! u)"
    using Cons.IH [of ?deg "if d = 0 then q @ [v] else q", OF p] by blast
  have f: "filter (\<lambda>u. u \<noteq> x \<and> ?deg ! u = 1) vs = filter (\<lambda>u. u \<noteq> x \<and> deg ! u = 1) vs"
    using Cons.prems(1) by (intro filter_cong refl) (metis distinct.simps(2) nth_list_update_neq)
  have "dec_neighbors ck (v # vs) deg q =
      Some (deg', q @ filter (\<lambda>u. u \<noteq> x \<and> deg ! u = 1) (v # vs))"
    using deg'(1) unfolding f by (simp add: d z)
  moreover have "deg' ! u = (if u \<in> set (v # vs) then deg ! u - 1 else deg ! u)"
    if "u < length deg" "u \<noteq> x \<or> x \<notin> set (v # vs)" for u
    using deg'(3) that Cons.prems(1) by (cases "u = v") (auto simp: d_def)
  ultimately show ?case using deg'(2) by auto
qed

definition kahn_inv :: "nat \<Rightarrow> nat list list \<Rightarrow> nat list \<Rightarrow> nat list \<Rightarrow> nat list \<Rightarrow> bool" where
  "kahn_inv n adj q deg srt \<longleftrightarrow>
     length deg = n \<and> distinct (srt @ q) \<and> set (srt @ q) \<subseteq> {..<n} \<and>
     (\<forall>v<n. v \<notin> set srt \<longrightarrow> deg ! v = pred_count adj (set srt) v) \<and>
     (\<forall>v<n. v \<notin> set srt \<longrightarrow> (v \<in> set q \<longleftrightarrow> deg ! v = 0)) \<and>
     (\<forall>v \<in> set srt. (v, v) \<notin> edges adj \<longrightarrow> deg ! v = 0) \<and>
     (\<forall>u v. v \<in> set srt \<longrightarrow> (u, v) \<in> edges adj \<longrightarrow> u = v \<or> u \<in> set srt) \<and>
     sorted_wrt (\<lambda>a b. (b, a) \<notin> edges adj) srt"

lemma kahn_inv_init:
  assumes "adj_ok n adj"
  shows "kahn_inv n adj (filter (\<lambda>i. in_degrees adj ! i = 0) [0..<n]) (in_degrees adj) []"
  using in_degrees_spec [OF assms] by (auto simp: kahn_inv_def)

text \<open>The node at the front of the queue: its in-degree is 0, and each of its other
  neighbours is still unsorted and counts it.\<close>

lemma kahn_inv_head:
  assumes ok: "adj_ok n adj" and inv: "kahn_inv n adj (x # q) deg srt"
  shows "length adj = n" "length deg = n" "x < n" "x \<notin> set srt" "x \<notin> set q" "deg ! x = 0"
    and "distinct (adj ! x)" "\<forall>v \<in> set (adj ! x). v < length deg"
    and "\<And>v. (x, v) \<in> edges adj \<longleftrightarrow> v \<in> set (adj ! x)"
    and "\<And>v. v \<in> set (adj ! x) \<Longrightarrow> v \<noteq> x \<Longrightarrow> v \<notin> set srt"
    and "\<forall>v \<in> set (adj ! x). v \<noteq> x \<longrightarrow> 0 < deg ! v"
proof -
  show n: "length adj = n" "length deg = n" "x < n" "x \<notin> set srt" "x \<notin> set q" "deg ! x = 0"
    using ok inv by (auto simp: kahn_inv_def adj_ok_def)
  show vs: "distinct (adj ! x)" "\<forall>v \<in> set (adj ! x). v < length deg"
    using ok n by (auto simp: adj_ok_def)
  show ed: "(x, v) \<in> edges adj \<longleftrightarrow> v \<in> set (adj ! x)" for v using n by (simp add: edges_def)
  have clo: "v \<in> set srt \<Longrightarrow> (u, v) \<in> edges adj \<Longrightarrow> u = v \<or> u \<in> set srt" for u v
    using inv unfolding kahn_inv_def by blast
  show closed: "v \<notin> set srt" if "v \<in> set (adj ! x)" "v \<noteq> x" for v
    using clo [of v x] that ed n by blast
  show "\<forall>v \<in> set (adj ! x). v \<noteq> x \<longrightarrow> 0 < deg ! v"
  proof (intro ballI impI)
    fix v
    assume v: "v \<in> set (adj ! x)" "v \<noteq> x"
    with vs n closed [OF v] inv have "deg ! v = pred_count adj (set srt) v"
      by (auto simp: kahn_inv_def)
    then show "0 < deg ! v" using pred_count_pos [of x "set srt" v adj] n v ed by simp
  qed
qed

text \<open>Taking a node from the queue keeps the invariant.\<close>

lemma kahn_inv_step:
  assumes ok: "adj_ok n adj" and inv: "kahn_inv n adj (x # q) deg srt"
    and ns: "\<not> (ck \<and> (x, x) \<in> edges adj)"
  shows "\<exists>deg'. dec_neighbors ck (adj ! x) deg q =
      Some (deg', q @ filter (\<lambda>v. v \<noteq> x \<and> deg ! v = 1) (adj ! x)) \<and>
    kahn_inv n adj (q @ filter (\<lambda>v. v \<noteq> x \<and> deg ! v = 1) (adj ! x)) deg' (srt @ [x])"
proof -
  note h = kahn_inv_head [OF ok inv]
  have cnt: "deg ! v = pred_count adj (set srt) v" if "v < n" "v \<notin> set srt" for v
    using inv that by (simp add: kahn_inv_def)
  obtain deg' where run: "dec_neighbors ck (adj ! x) deg q =
      Some (deg', q @ filter (\<lambda>v. v \<noteq> x \<and> deg ! v = 1) (adj ! x))"
    and len: "length deg' = n"
    and deg': "\<And>v. v < n \<Longrightarrow> v \<noteq> x \<or> x \<notin> set (adj ! x) \<Longrightarrow>
      deg' ! v = (if v \<in> set (adj ! x) then deg ! v - 1 else deg ! v)"
    using dec_neighbors_run [of "adj ! x" x deg ck q] ns h by auto
  let ?q = "q @ filter (\<lambda>v. v \<noteq> x \<and> deg ! v = 1) (adj ! x)"
  have cnt': "deg' ! v = pred_count adj (set (srt @ [x])) v" if "v < n" "v \<notin> set (srt @ [x])" for v
    using that cnt [of v] deg' [of v] pred_count_insert [OF h(4), of v adj] h(9) by simp
  have inq: "v \<in> set q \<longleftrightarrow> deg ! v = 0" if "v < n" "v \<notin> set (srt @ [x])" for v
    using inv that by (auto simp: kahn_inv_def)
  have q': "v \<in> set ?q \<longleftrightarrow> deg' ! v = 0" if "v < n" "v \<notin> set (srt @ [x])" for v
    using that inq [OF that] deg' [of v] h(11) by auto
  have "v \<notin> set q" if "v \<in> set (adj ! x)" "v \<noteq> x" "deg ! v = 1" for v
    using inq [of v] that h(8,2) h(10) [of v] by auto
  then have dist: "distinct ((srt @ [x]) @ ?q)"
    using inv h(7,10) by (auto simp: kahn_inv_def)
  have sub: "set ((srt @ [x]) @ ?q) \<subseteq> {..<n}" using inv h(2,8) by (auto simp: kahn_inv_def)
  have px: "u = x \<or> u \<in> set srt" if "(u, x) \<in> edges adj" for u
    using cnt [OF h(3,4)] h(6) that by (auto simp: pred_count_0)
  have clo0: "v \<in> set srt \<Longrightarrow> (u, v) \<in> edges adj \<Longrightarrow> u = v \<or> u \<in> set srt" for u v
    using inv unfolding kahn_inv_def by blast
  have clo: "u = v \<or> u \<in> set (srt @ [x])" if "v \<in> set (srt @ [x])" "(u, v) \<in> edges adj" for u v
    using that px clo0 [of v u] by auto
  have no_back: "(x, a) \<notin> edges adj" if "a \<in> set srt" for a
    using clo0 [OF that, of x] that h(4) by blast
  have zero: "deg' ! v = 0" if v: "v \<in> set (srt @ [x])" "(v, v) \<notin> edges adj" for v
  proof -
    have "v < n" "deg ! v = 0" using v inv h(6) by (auto simp: kahn_inv_def)
    moreover have "v \<notin> set (adj ! x)" using v no_back [of v] h(9) by auto
    ultimately show ?thesis using deg' [of v] v(2) h(9) by auto
  qed
  from no_back have ord: "sorted_wrt (\<lambda>a b. (b, a) \<notin> edges adj) (srt @ [x])"
    using inv by (simp add: kahn_inv_def sorted_wrt_append)
  have "kahn_inv n adj ?q deg' (srt @ [x])"
    unfolding kahn_inv_def using len dist sub cnt' q' zero clo ord by blast
  with run show ?thesis by blast
qed

lemma kahn_run:
  assumes "adj_ok n adj" "kahn_inv n adj q deg srt" "n - length srt < fuel"
  shows "(kahn fuel ck adj q deg srt = KPanic \<and> ck \<and> (\<exists>x. (x, x) \<in> edges adj)) \<or>
    (\<exists>deg' srt'. kahn fuel ck adj q deg srt = KDone srt' deg' \<and> kahn_inv n adj [] deg' srt')"
  using assms
proof (induction fuel ck adj q deg srt rule: kahn.induct)
  case (3 fuel ck adj x q deg srt)
  note h = kahn_inv_head [OF "3.prems"(1,2)]
  have srt: "distinct (x # srt)" "set (x # srt) \<subseteq> {..<n}"
    using "3.prems"(2) by (auto simp: kahn_inv_def)
  then have "length (x # srt) \<le> n"
    by (metis card_lessThan card_mono distinct_card finite_lessThan)
  then have fuel: "n - length (srt @ [x]) < fuel" using "3.prems"(3) by simp
  show ?case
  proof (cases "ck \<and> (x, x) \<in> edges adj")
    case True
    then have "dec_neighbors ck (adj ! x) deg q = None"
      using dec_neighbors_panic [OF h(7,6) _ h(8,11)] h(9) by simp
    with True show ?thesis by auto
  next
    case False
    then obtain deg' q' where run: "dec_neighbors ck (adj ! x) deg q = Some (deg', q')"
      and inv: "kahn_inv n adj q' deg' (srt @ [x])"
      using kahn_inv_step [OF "3.prems"(1,2)] by blast
    show ?thesis
      using "3.IH" [OF run refl "3.prems"(1) inv fuel] run by simp
  qed
qed (auto simp: kahn_inv_def)


section \<open>The sort against its specification\<close>

text \<open>An admissible initialisation order: every plugin once, and none before a plugin that
  has to precede it.\<close>

definition valid_order :: "'a plugin_decl_scheme list \<Rightarrow> nat list \<Rightarrow> bool" where
  "valid_order ps ord \<longleftrightarrow> distinct ord \<and> set ord = {..<length ps} \<and>
     sorted_wrt (\<lambda>a b. \<not> must_precede ps b a) ord"

definition no_self_constraint :: "'a plugin_decl_scheme list \<Rightarrow> bool" where
  "no_self_constraint ps \<longleftrightarrow>
     list_all (\<lambda>p. pl_name p \<notin> set (po_before (pl_ordering p) @ po_after (pl_ordering p))) ps"

lemma no_self_constraintD: "no_self_constraint ps \<Longrightarrow> \<not> must_precede ps x x"
  by (auto simp: no_self_constraint_def must_precede_def list_all_length)

text \<open>The outcomes of the sort once the graph is built.\<close>

lemma topological_sort_cases:
  assumes "index_names 0 ps Map.empty = Ok idx"
    and "all_edges ps idx [0..<length ps] (replicate (length ps) []) = Ok adj"
  obtains (panic) x where "topological_sort ck ps = Err SubtractOverflow" "ck" "must_precede ps x x"
  | (finished) deg srt where "kahn_inv (length ps) adj [] deg srt" "edges adj = {(u, v). must_precede ps u v}"
      "topological_sort ck ps =
        (if length srt = length ps then Ok srt
         else Err (CycleDetected (map (\<lambda>i. pl_name (ps ! i)) (filter (\<lambda>i. 0 < deg ! i) [0..<length ps]))))"
proof -
  let ?n = "length ps"
  let ?k = "kahn (Suc ?n) ck adj (filter (\<lambda>i. in_degrees adj ! i = 0) [0..<?n]) (in_degrees adj) []"
  note g = graph_spec [OF assms]
  have "(?k = KPanic \<and> ck \<and> (\<exists>x. (x, x) \<in> edges adj)) \<or>
      (\<exists>deg srt. ?k = KDone srt deg \<and> kahn_inv ?n adj [] deg srt)"
    by (rule kahn_run [OF g(1) kahn_inv_init [OF g(1)]]) simp
  then show thesis
  proof (elim disjE conjE exE)
    fix x assume "?k = KPanic" "ck" "(x, x) \<in> edges adj"
    then show thesis
      using g(2) by (intro panic) (auto simp: topological_sort_def assms Let_def simp del: kahn.simps)
  next
    fix deg srt assume "?k = KDone srt deg" "kahn_inv ?n adj [] deg srt"
    then show thesis
      using g(2) by (intro finished) (auto simp: topological_sort_def assms Let_def simp del: kahn.simps)
  qed
qed

lemma topological_sort_graph:
  assumes "topological_sort ck ps = Ok srt"
  obtains idx adj where "index_names 0 ps Map.empty = Ok idx"
    and "all_edges ps idx [0..<length ps] (replicate (length ps) []) = Ok adj"
  using assms by (auto simp: topological_sort_def Let_def simp del: kahn.simps split: sum.splits)

text \<open>A complete result of the loop is an admissible order.\<close>

lemma kahn_inv_valid:
  assumes inv: "kahn_inv (length ps) adj [] deg srt" and ed: "edges adj = {(u, v). must_precede ps u v}"
    and len: "length srt = length ps"
  shows "valid_order ps srt"
proof -
  have d: "distinct srt" "set srt \<subseteq> {..<length ps}" using inv by (auto simp: kahn_inv_def)
  then have "set srt = {..<length ps}"
    using len by (intro card_subset_eq) (auto simp: distinct_card)
  then show ?thesis using inv ed d by (auto simp: valid_order_def kahn_inv_def)
qed

text \<open>When the loop stops early, the nodes that are left block each other.\<close>

lemma kahn_inv_stuck:
  assumes inv: "kahn_inv n adj [] deg srt" and v: "v < n" "v \<notin> set srt"
  shows "\<exists>u. u \<noteq> v \<and> u \<notin> set srt \<and> (u, v) \<in> edges adj"
proof -
  have "pred_count adj (set srt) v \<noteq> 0" using inv v by (auto simp: kahn_inv_def)
  then show ?thesis by (auto simp: pred_count_0)
qed

lemma valid_order_not_stuck:
  assumes "valid_order ps ord" and "S \<subseteq> {..<length ps}"
    and stuck: "\<And>v. v < length ps \<Longrightarrow> v \<notin> S \<Longrightarrow> \<exists>u. u \<noteq> v \<and> u \<notin> S \<and> must_precede ps u v"
  shows "S = {..<length ps}"
proof (rule ccontr)
  assume "S \<noteq> {..<length ps}"
  then obtain w where "w \<in> set ord" "w \<notin> S" using assms(1,2) by (auto simp: valid_order_def)
  then obtain as v bs where ord: "ord = as @ v # bs" "v \<notin> S" and first: "\<forall>a \<in> set as. a \<in> S"
    using split_list_first_prop [of ord "\<lambda>x. x \<notin> S"] by blast
  have "v < length ps" using ord assms(1) by (auto simp: valid_order_def)
  from stuck [OF this ord(2)] obtain u where u: "u \<noteq> v" "u \<notin> S" "must_precede ps u v" by blast
  then have "u \<in> set ord" using assms(1) by (auto simp: valid_order_def must_precede_def)
  with u first ord have "u \<in> set bs" by auto
  then show False using assms(1) u(3) ord(1) by (auto simp: valid_order_def sorted_wrt_append)
qed

lemma topological_sort_valid:
  assumes "topological_sort ck ps = Ok srt"
  shows "valid_order ps srt"
proof -
  obtain idx adj where "index_names 0 ps Map.empty = Ok idx"
    "all_edges ps idx [0..<length ps] (replicate (length ps) []) = Ok adj"
    by (rule topological_sort_graph [OF assms])
  then show ?thesis
    by (rule topological_sort_cases [where ck = ck])
      (use assms in \<open>auto split: if_splits dest: kahn_inv_valid\<close>)
qed

text \<open>C1: the order the sort returns is admissible: every plugin appears exactly once, and
  no plugin stands before one that has to run earlier (by \<open>before\<close>, \<open>after\<close>, \<open>first\<close> or
  \<open>last\<close>).\<close>

theorem topological_sort_sound:
  "topological_sort ck ps = Ok srt \<Longrightarrow> valid_order ps srt"
  by (rule topological_sort_valid)

lemma topological_sort_decides:
  assumes wd: "well_declared ps" and ns: "no_self_constraint ps"
  shows "if \<exists>ord. valid_order ps ord then \<exists>srt. topological_sort ck ps = Ok srt
    else \<exists>is. topological_sort ck ps = Err (CycleDetected (map (\<lambda>i. pl_name (ps ! i)) is)) \<and>
      is \<noteq> [] \<and> (\<forall>v \<in> set is. \<exists>u \<in> set is. u \<noteq> v \<and> must_precede ps u v)"
proof -
  obtain idx adj where g: "index_names 0 ps Map.empty = Ok idx"
    "all_edges ps idx [0..<length ps] (replicate (length ps) []) = Ok adj"
    using graph_total [OF wd] by blast
  show ?thesis
  proof (rule topological_sort_cases [OF g, where ck = ck])
    fix deg srt
    assume inv: "kahn_inv (length ps) adj [] deg srt" and ed: "edges adj = {(u, v). must_precede ps u v}"
      and res: "topological_sort ck ps = (if length srt = length ps then Ok srt
         else Err (CycleDetected (map (\<lambda>i. pl_name (ps ! i)) (filter (\<lambda>i. 0 < deg ! i) [0..<length ps]))))"
    have srt: "distinct srt" "set srt \<subseteq> {..<length ps}" using inv by (auto simp: kahn_inv_def)
    have stuck: "\<exists>u. u \<noteq> v \<and> u \<notin> set srt \<and> must_precede ps u v" if "v < length ps" "v \<notin> set srt" for v
      using kahn_inv_stuck [OF inv that] by (simp add: ed)
    have left: "set (filter (\<lambda>i. 0 < deg ! i) [0..<length ps]) = {v. v < length ps \<and> v \<notin> set srt}"
      using inv no_self_constraintD [OF ns] by (auto simp: kahn_inv_def ed)
    show ?thesis
    proof (cases "length srt = length ps")
      case True
      then show ?thesis using kahn_inv_valid [OF inv ed] res by auto
    next
      case False
      have ne: "set srt \<noteq> {..<length ps}"
      proof
        assume "set srt = {..<length ps}"
        then have "card (set srt) = length ps" by simp
        with False show False by (simp only: distinct_card [OF srt(1)])
      qed
      have no: "\<not> (\<exists>ord. valid_order ps ord)"
      proof
        assume "\<exists>ord. valid_order ps ord"
        then obtain ord where "valid_order ps ord" ..
        from valid_order_not_stuck [OF this srt(2) stuck] ne show False by simp
      qed
      let ?is = "filter (\<lambda>i. 0 < deg ! i) [0..<length ps]"
      from ne srt(2) obtain w where "w < length ps" "w \<notin> set srt" by blast
      with left have "w \<in> set ?is" by simp
      then have "?is \<noteq> []" by (metis empty_iff list.set(1))
      moreover have "\<forall>v \<in> set ?is. \<exists>u \<in> set ?is. u \<noteq> v \<and> must_precede ps u v"
      proof
        fix v
        assume "v \<in> set ?is"
        with left have "v < length ps" "v \<notin> set srt" by auto
        from stuck [OF this] obtain u where u: "u \<noteq> v" "u \<notin> set srt" "must_precede ps u v" by blast
        then have "u \<in> set ?is" unfolding left by (simp add: must_precede_def)
        with u show "\<exists>u \<in> set ?is. u \<noteq> v \<and> must_precede ps u v" by blast
      qed
      moreover have "topological_sort ck ps = Err (CycleDetected (map (\<lambda>i. pl_name (ps ! i)) ?is))"
        using res False by simp
      ultimately show ?thesis unfolding if_not_P [OF no] by blast
    qed
  qed (use no_self_constraintD [OF ns] in auto)
qed

text \<open>C3: for declarations that are well formed and do not name themselves, the sort succeeds
  exactly when an admissible order exists; otherwise it reports a cycle, and every plugin
  it names has to run after another one that it names.\<close>

theorem topological_sort_complete:
  assumes "well_declared ps" and "no_self_constraint ps"
  shows "if \<exists>ord. valid_order ps ord then \<exists>srt. topological_sort ck ps = Ok srt
    else \<exists>is. topological_sort ck ps = Err (CycleDetected (map (\<lambda>i. pl_name (ps ! i)) is)) \<and>
      is \<noteq> [] \<and> (\<forall>v \<in> set is. \<exists>u \<in> set is. u \<noteq> v \<and> must_precede ps u v)"
  by (rule topological_sort_decides [OF assms])

text \<open>The bound on the loop is never reached, and only a self constraint panics.\<close>

lemma topological_sort_outcomes:
  "topological_sort ck ps \<noteq> Err FuelExhausted \<and>
   (topological_sort ck ps = Err SubtractOverflow \<longrightarrow> ck \<and> (\<exists>x. must_precede ps x x))"
proof (cases "\<exists>idx adj. index_names 0 ps Map.empty = Ok idx \<and>
    all_edges ps idx [0..<length ps] (replicate (length ps) []) = Ok adj")
  case True
  then obtain idx adj where "index_names 0 ps Map.empty = Ok idx"
    "all_edges ps idx [0..<length ps] (replicate (length ps) []) = Ok adj" by blast
  then show ?thesis
    by (rule topological_sort_cases [where ck = ck]) auto
next
  case False
  let ?ok = "\<lambda>e. e \<noteq> FuelExhausted \<and> e \<noteq> SubtractOverflow"
  have a: "index_names i qs m = Err e \<Longrightarrow> ?ok e" for i and qs :: "'a plugin_decl_scheme list" and m e
    by (induction i qs m rule: index_names.induct) (auto simp del: fun_upd_apply split: option.splits)
  have b: "before_edges idx i nm ts adj = Err e \<Longrightarrow> ?ok e" for idx i nm ts adj e
    by (induction idx i nm ts adj rule: before_edges.induct) (auto split: option.splits)
  have c: "after_edges idx i nm ts adj = Err e \<Longrightarrow> ?ok e" for idx i nm ts adj e
    by (induction idx i nm ts adj rule: after_edges.induct) (auto split: option.splits)
  have d: "plugin_edges ps idx i adj = Err e \<Longrightarrow> ?ok e" for idx i adj e
    unfolding plugin_edges_def Let_def by (auto split: sum.splits if_splits dest: b c)
  have e: "all_edges ps idx is adj = Err e \<Longrightarrow> ?ok e" for idx "is" adj e
    by (induction "is" arbitrary: adj) (auto split: sum.splits dest: d)
  have "\<exists>e. topological_sort ck ps = Err e \<and> ?ok e"
  proof (cases "index_names 0 ps Map.empty")
    case (Inl x)
    then show ?thesis using a [OF Inl] by (simp add: topological_sort_def)
  next
    case (Inr idx)
    with False obtain x where x: "all_edges ps idx [0..<length ps] (replicate (length ps) []) = Err x"
      by (cases "all_edges ps idx [0..<length ps] (replicate (length ps) [])") auto
    then show ?thesis using Inr e [OF x] by (simp add: topological_sort_def)
  qed
  then show ?thesis by auto
qed

text \<open>a plugin that names itself in \<open>before\<close> or \<open>after\<close> resolves, so it is not an unknown
  name; its edge to itself is left out of the in-degrees but not out of the loop, whose
  decrement underflows: a panic in the dev profile.  In the release profile it wraps
  around and the constraint has no effect.\<close>

theorem self_constraint_panics:
  "topological_sort True [p\<lparr>pl_ordering := with_before [pl_name p] ordering_new\<rparr>] = Err SubtractOverflow \<and>
   topological_sort True [p\<lparr>pl_ordering := with_after [pl_name p] ordering_new\<rparr>] = Err SubtractOverflow \<and>
   topological_sort False [p\<lparr>pl_ordering := with_before [pl_name p] ordering_new\<rparr>] = Ok [0] \<and>
   topological_sort False [p\<lparr>pl_ordering := with_after [pl_name p] ordering_new\<rparr>] = Ok [0]"
  by (simp add: topological_sort_def plugin_edges_def with_before_def with_after_def ordering_new_def
      add_edge_def btree_insert_def in_degrees_def dec_usize_def u64_max_def)

section \<open>Concrete instances\<close>

definition plugin_named :: "string \<Rightarrow> plugin_ordering \<Rightarrow> plugin_decl" where
  "plugin_named nm o' = \<lparr>pl_name = nm, pl_ordering = o'\<rparr>"

definition three_plugins :: "plugin_decl list" where
  "three_plugins =
     [plugin_named ''auth'' (with_after [''logging''] ordering_new),
      plugin_named ''metrics'' (with_last ordering_new),
      plugin_named ''logging'' (with_first ordering_new)]"

lemma topological_sort_three: "topological_sort ck three_plugins = Ok [2, 0, 1]"
  by (cases ck) (code_simp, code_simp)

lemma topological_sort_sound_witness: "valid_order three_plugins [2, 0, 1]"
  by (rule topological_sort_sound [OF topological_sort_three [of True]])

definition cyclic_plugins :: "plugin_decl list" where
  "cyclic_plugins =
     [plugin_named ''a'' (with_before [''b''] ordering_new),
      plugin_named ''b'' (with_before [''c''] ordering_new),
      plugin_named ''c'' (with_before [''b''] ordering_new)]"

lemma topological_sort_complete_witness:
  "topological_sort True cyclic_plugins = Err (CycleDetected [''b'', ''c'']) \<and>
   \<not> (\<exists>ord. valid_order cyclic_plugins ord)"
proof -
  have "well_declared cyclic_plugins" "no_self_constraint cyclic_plugins" by code_simp+
  from topological_sort_complete [OF this, of True]
  have a: "if \<exists>ord. valid_order cyclic_plugins ord then \<exists>srt. topological_sort True cyclic_plugins = Ok srt else True"
    by (auto split: if_splits)
  have b: "topological_sort True cyclic_plugins = Err (CycleDetected [''b'', ''c''])" by code_simp
  show ?thesis using a unfolding b by (auto split: if_splits)
qed

end
