(* ===== verification/Plugin_Reference.thy ===== *)
theory Plugin_Reference
  imports Plugin_Ordering
begin

text \<open>
  A reference for \<open>topological_sort\<close> that has no graph, no adjacency sets and no in-degree counters:
  it is stated on the declarations alone.  The plugins nobody has to precede come first, in the order
  of their registration; whenever a plugin is placed, the plugins that only waited for it queue up, in
  the order of their registration.
\<close>

section \<open>The reference\<close>

definition unblocked :: "'a plugin_decl_scheme list \<Rightarrow> nat set \<Rightarrow> nat \<Rightarrow> bool" where
  "unblocked ps placed v \<longleftrightarrow> list_all (\<lambda>u. must_precede ps u v \<longrightarrow> u = v \<or> u \<in> placed) [0..<length ps]"

definition released :: "'a plugin_decl_scheme list \<Rightarrow> nat list \<Rightarrow> nat \<Rightarrow> nat list" where
  "released ps placed x =
     filter (\<lambda>v. v \<noteq> x \<and> must_precede ps x v \<and> unblocked ps (set (placed @ [x])) v) [0..<length ps]"

fun place :: "nat \<Rightarrow> 'a plugin_decl_scheme list \<Rightarrow> nat list \<Rightarrow> nat list \<Rightarrow> nat list" where
  "place (Suc n) ps (x # waiting) placed = place n ps (waiting @ released ps placed x) (placed @ [x])"
| "place n ps waiting placed = placed"

definition reference_order :: "'a plugin_decl_scheme list \<Rightarrow> nat list" where
  "reference_order ps = place (length ps) ps (filter (unblocked ps {}) [0..<length ps]) []"

section \<open>The adjacency rows are ascending\<close>

definition rows_sorted :: "nat list list \<Rightarrow> bool" where
  "rows_sorted adj \<longleftrightarrow> list_all sorted adj"

lemma rows_sorted_add_edge:
  assumes "rows_sorted adj"
  shows "rows_sorted (add_edge i j adj)"
proof (cases "i < length adj")
  case True
  then have "sorted (btree_insert j (adj ! i))"
    using assms by (simp add: rows_sorted_def btree_insert_def sorted_insort list_all_length)
  with assms show ?thesis
    by (auto simp: rows_sorted_def add_edge_def list_all_iff dest!: set_update_subset_insert [THEN subsetD])
next
  case False
  then show ?thesis using assms by (simp add: add_edge_def list_update_beyond)
qed

lemma rows_sorted_fold:
  assumes "rows_sorted adj" and "\<And>j a. rows_sorted a \<Longrightarrow> rows_sorted (f j a)"
  shows "rows_sorted (fold f js adj)"
  using assms by (induction js arbitrary: adj) simp_all

lemma rows_sorted_targets:
  "before_edges idx i nm ts adj = Ok adj' \<Longrightarrow> rows_sorted adj \<Longrightarrow> rows_sorted adj'"
  "after_edges idx i nm ts adj = Ok adj' \<Longrightarrow> rows_sorted adj \<Longrightarrow> rows_sorted adj'"
  by (induction ts arbitrary: adj) (auto split: option.splits intro: rows_sorted_add_edge)

lemma rows_sorted_plugin:
  assumes "plugin_edges ps idx i adj = Ok adj'" and "rows_sorted adj"
  shows "rows_sorted adj'"
proof -
  have "rows_sorted (first_edges ps i a)" "rows_sorted (last_edges ps i a)" if "rows_sorted a" for a
    unfolding first_edges_def last_edges_def
    by (rule rows_sorted_fold [OF that]; simp add: rows_sorted_add_edge)+
  with assms show ?thesis
    by (auto simp: plugin_edges_def Let_def split: if_splits sum.splits dest: rows_sorted_targets)
qed

lemma rows_sorted_all:
  "all_edges ps idx is adj = Ok adj' \<Longrightarrow> rows_sorted adj \<Longrightarrow> rows_sorted adj'"
  by (induction "is" arbitrary: adj) (auto split: sum.splits dest: rows_sorted_plugin)

lemma row_of_edges:
  assumes "adj_ok n adj" "rows_sorted adj" "x < n"
  shows "adj ! x = filter (\<lambda>v. (x, v) \<in> edges adj) [0..<n]"
proof (rule sorted_distinct_set_unique)
  show "sorted (adj ! x)" "distinct (adj ! x)"
    using assms by (auto simp: rows_sorted_def adj_ok_def list_all_length)
  show "set (adj ! x) = set (filter (\<lambda>v. (x, v) \<in> edges adj) [0..<n])"
    using assms by (auto simp: adj_ok_def edges_def)
qed (simp_all add: sorted_filter [of id, simplified])

section \<open>The loop follows the reference\<close>

lemma unblocked_pred_count:
  assumes "edges adj = {(u, v). must_precede ps u v}"
  shows "unblocked ps S v \<longleftrightarrow> pred_count adj S v = 0"
  unfolding pred_count_0 unblocked_def assms
  by (auto simp: list_all_iff must_precede_def)

lemma released_row:
  assumes ok: "adj_ok (length ps) adj" and rows: "rows_sorted adj"
    and ed: "edges adj = {(u, v). must_precede ps u v}" and inv: "kahn_inv (length ps) adj (x # q) deg srt"
  shows "filter (\<lambda>v. v \<noteq> x \<and> deg ! v = 1) (adj ! x) = released ps srt x"
proof -
  note h = kahn_inv_head [OF ok inv]
  have "deg ! v = 1 \<longleftrightarrow> unblocked ps (set (srt @ [x])) v"
    if v: "v < length ps" "v \<noteq> x" "must_precede ps x v" for v
  proof -
    have e: "(x, v) \<in> edges adj" using v by (simp add: ed)
    then have "v \<notin> set srt" using h(9,10) v by blast
    then have d: "deg ! v = pred_count adj (set srt) v" using inv v by (simp add: kahn_inv_def)
    have "pred_count adj (insert x (set srt)) v = pred_count adj (set srt) v - 1"
      using pred_count_insert [OF h(4) v(2)] e by simp
    then show ?thesis
      using pred_count_pos [OF h(4) v(2) e] by (auto simp: d unblocked_pred_count [OF ed])
  qed
  then show ?thesis
    unfolding row_of_edges [OF ok rows h(3)] filter_filter released_def ed
    by (intro filter_cong) auto
qed

lemma kahn_places:
  assumes ok: "adj_ok (length ps) adj" and rows: "rows_sorted adj"
    and ed: "edges adj = {(u, v). must_precede ps u v}" and ns: "no_self_constraint ps"
    and "kahn_inv (length ps) adj q deg srt" and "length ps - length srt < fuel"
    and "kahn fuel ck adj q deg srt = KDone srt' deg'"
  shows "srt' = place (length ps - length srt) ps q srt"
  using assms(5-)
proof (induction fuel arbitrary: q deg srt)
  case (Suc fuel)
  have srt: "distinct (srt @ q)" "set (srt @ q) \<subseteq> {..<length ps}" using Suc.prems(1) by (auto simp: kahn_inv_def)
  show ?case
  proof (cases q)
    case Nil
    then show ?thesis using Suc.prems by simp
  next
    case (Cons x q')
    then have "distinct (x # srt)" "set (x # srt) \<subseteq> {..<length ps}" using srt by auto
    then have "length (x # srt) \<le> length ps"
      by (metis card_lessThan card_mono distinct_card finite_lessThan)
    then have left: "length ps - length srt = Suc (length ps - length (srt @ [x]))" by simp
    note inv = Suc.prems(1) [unfolded Cons]
    have "\<not> (ck \<and> (x, x) \<in> edges adj)" using no_self_constraintD [OF ns] by (simp add: ed)
    from kahn_inv_step [OF ok inv this] obtain d where
      run: "dec_neighbors ck (adj ! x) deg q' = Some (d, q' @ released ps srt x)"
      and inv': "kahn_inv (length ps) adj (q' @ released ps srt x) d (srt @ [x])"
      unfolding released_row [OF ok rows ed inv] by blast
    have "kahn fuel ck adj (q' @ released ps srt x) d (srt @ [x]) = KDone srt' deg'"
      using Suc.prems(3) run by (simp add: Cons)
    from Suc.IH [OF inv' _ this] Suc.prems(2) left show ?thesis by (simp add: Cons left)
  qed
qed simp

text \<open>C2: on well-formed declarations that do not name themselves the sort computes exactly the order of
  the reference, in both build profiles; so the order does not depend on the order of the constraints
  of a plugin, ties are broken by registration, and when the reference cannot place every plugin the
  error lists exactly those it could not place.\<close>

theorem topological_sort_is_reference:
  assumes wd: "well_declared ps" and ns: "no_self_constraint ps"
  shows "topological_sort ck ps =
    (let placed = reference_order ps in
     if length placed = length ps then Ok placed
     else Err (CycleDetected (map (\<lambda>i. pl_name (ps ! i)) (filter (\<lambda>i. i \<notin> set placed) [0..<length ps]))))"
proof -
  let ?n = "length ps"
  obtain idx adj where g: "index_names 0 ps Map.empty = Ok idx" "all_edges ps idx [0..<?n] (replicate ?n []) = Ok adj"
    using graph_total [OF wd] by blast
  note spec = graph_spec [OF g]
  have rows: "rows_sorted adj"
    by (rule rows_sorted_all [OF g(2)]) (simp add: rows_sorted_def list_all_iff)
  let ?q = "filter (\<lambda>i. in_degrees adj ! i = 0) [0..<?n]"
  have q: "?q = filter (unblocked ps {}) [0..<?n]"
    using in_degrees_spec [OF spec(1)] by (intro filter_cong) (auto simp: unblocked_pred_count [OF spec(2)])
  have init: "kahn_inv ?n adj ?q (in_degrees adj) []" by (rule kahn_inv_init [OF spec(1)])
  have "(kahn (Suc ?n) ck adj ?q (in_degrees adj) [] = KPanic \<and> ck \<and> (\<exists>x. (x, x) \<in> edges adj)) \<or>
      (\<exists>deg' srt'. kahn (Suc ?n) ck adj ?q (in_degrees adj) [] = KDone srt' deg' \<and> kahn_inv ?n adj [] deg' srt')"
    by (rule kahn_run [OF spec(1) init]) simp
  with no_self_constraintD [OF ns] obtain deg srt where
    run: "kahn (Suc ?n) ck adj ?q (in_degrees adj) [] = KDone srt deg" and inv: "kahn_inv ?n adj [] deg srt"
    by (auto simp: spec(2))
  have srt: "srt = reference_order ps"
    using kahn_places [OF spec(1) rows spec(2) ns init _ run] by (simp add: reference_order_def q)
  have "filter (\<lambda>i. 0 < deg ! i) [0..<?n] = filter (\<lambda>i. i \<notin> set srt) [0..<?n]"
    using inv no_self_constraintD [OF ns] by (intro filter_cong) (auto simp: kahn_inv_def spec(2))
  with run show ?thesis
    by (simp add: topological_sort_def g srt Let_def del: kahn.simps)
qed

lemma topological_sort_is_reference_witness:
  "topological_sort True three_plugins = Ok (reference_order three_plugins) \<and> reference_order three_plugins = [2, 0, 1]"
proof -
  have "well_declared three_plugins" "no_self_constraint three_plugins" by code_simp+
  moreover have r: "reference_order three_plugins = [2, 0, 1]" by code_simp
  moreover have "length three_plugins = 3" by (simp add: three_plugins_def)
  ultimately show ?thesis using topological_sort_is_reference [of three_plugins True] by simp
qed

end
