(* ===== verification/Http.thy ===== *)
theory Http
  imports Prelude
begin

text \<open>
  The HTTP vocabulary the components share: header maps, requests and responses as the
  \<open>http\<close> crate presents them to the framework.

  A header value carries its bytes and what \<open>HeaderValue::to_str\<close> returns for them; header
  names are lower case.  A header map is the list of its entries; \<open>insert\<close> replaces all
  values of the name, \<open>append\<close> adds one.  A response body that fails while it is read is
  \<open>None\<close>.
\<close>

record header_value =
  hv_bytes :: string
  hv_str :: "string option"

type_synonym headers = "(string \<times> header_value) list"

definition hv_static :: "string \<Rightarrow> header_value" where
  "hv_static s = \<lparr>hv_bytes = s, hv_str = Some s\<rparr>"

definition hget :: "string \<Rightarrow> headers \<Rightarrow> header_value option" where
  "hget n h = map_of h n"

definition hget_all :: "string \<Rightarrow> headers \<Rightarrow> header_value list" where
  "hget_all n h = map snd (filter (\<lambda>p. fst p = n) h)"

definition hget_str :: "string \<Rightarrow> headers \<Rightarrow> string option" where
  "hget_str n h = (case hget n h of Some v \<Rightarrow> hv_str v | None \<Rightarrow> None)"

definition hinsert :: "string \<Rightarrow> header_value \<Rightarrow> headers \<Rightarrow> headers" where
  "hinsert n v h = filter (\<lambda>p. fst p \<noteq> n) h @ [(n, v)]"

definition happend :: "string \<Rightarrow> header_value \<Rightarrow> headers \<Rightarrow> headers" where
  "happend n v h = h @ [(n, v)]"

definition hcontains :: "string \<Rightarrow> headers \<Rightarrow> bool" where
  "hcontains n h \<longleftrightarrow> n \<in> fst ` set h"

record request =
  rq_method :: string
  rq_path :: string
  rq_path_and_query :: "string option"
  rq_headers :: headers

record response =
  rs_status :: nat
  rs_headers :: headers
  rs_body :: "string option"

definition is_success :: "nat \<Rightarrow> bool" where "is_success s \<longleftrightarrow> 200 \<le> s \<and> s < 300"
definition is_client_error :: "nat \<Rightarrow> bool" where "is_client_error s \<longleftrightarrow> 400 \<le> s \<and> s < 500"

lemma hget_Nil [simp]: "hget n [] = None"
  by (simp add: hget_def)

lemma hget_append: "hget n (a @ b) = (case hget n a of Some v \<Rightarrow> Some v | None \<Rightarrow> hget n b)"
  by (simp add: hget_def map_add_def split: option.splits)

lemma hget_hinsert [simp]: "hget m (hinsert n v h) = (if m = n then Some v else hget m h)"
proof -
  have "map_of (filter (\<lambda>p. fst p \<noteq> n) h) m = (if m = n then None else map_of h m)"
    by (induction h) auto
  then show ?thesis by (auto simp: hget_def hinsert_def map_add_def split: option.splits)
qed

lemma hget_all_hinsert [simp]: "hget_all m (hinsert n v h) = (if m = n then [v] else hget_all m h)"
  by (induction h) (auto simp: hget_all_def hinsert_def)

lemma hcontains_hinsert [simp]: "hcontains m (hinsert n v h) \<longleftrightarrow> m = n \<or> hcontains m h"
  by (force simp: hcontains_def hinsert_def)

lemma hcontains_hget: "hcontains n h \<longleftrightarrow> hget n h \<noteq> None"
  by (auto simp: hcontains_def hget_def map_of_eq_None_iff)

end
