(* ===== verification/Builtin_Plugins.thy ===== *)
theory Builtin_Plugins
  imports Plugin_Ordering Http
begin

text \<open>
  The plugins the framework ships (\<open>health.rs\<close>, \<open>server.rs\<close>, \<open>middleware.rs\<close>, \<open>jobs.rs\<close>,
  \<open>openapi.rs\<close>, \<open>db/plugin.rs\<close>, \<open>dynamodb/plugin.rs\<close>, \<open>presets.rs\<close>): their names and ordering
  declarations, the secure-headers middleware and the scheduler.
\<close>

section \<open>Declarations\<close>

definition before_server :: plugin_ordering where
  "before_server = with_before [''gasket:server''] ordering_new"

definition health_decl :: plugin_decl where
  "health_decl = \<lparr>pl_name = ''gasket:health'', pl_ordering = with_first ordering_new\<rparr>"

definition server_decl :: plugin_decl where
  "server_decl = \<lparr>pl_name = ''gasket:server'', pl_ordering = with_last ordering_new\<rparr>"

definition cors_decl :: plugin_decl where
  "cors_decl = \<lparr>pl_name = ''gasket:cors'', pl_ordering = before_server\<rparr>"

definition compression_decl :: plugin_decl where
  "compression_decl = \<lparr>pl_name = ''gasket:compression'', pl_ordering = before_server\<rparr>"

definition secure_headers_decl :: plugin_decl where
  "secure_headers_decl = \<lparr>pl_name = ''gasket:secure-headers'', pl_ordering = before_server\<rparr>"

definition timeout_decl :: plugin_decl where
  "timeout_decl = \<lparr>pl_name = ''gasket:timeout'', pl_ordering = before_server\<rparr>"

definition scheduler_decl :: plugin_decl where
  "scheduler_decl = \<lparr>pl_name = ''gasket:scheduler'', pl_ordering = before_server\<rparr>"

definition database_decl :: plugin_decl where
  "database_decl = \<lparr>pl_name = ''gasket:database'', pl_ordering = before_server\<rparr>"

definition dynamo_decl :: plugin_decl where
  "dynamo_decl = \<lparr>pl_name = ''gasket:dynamodb'', pl_ordering = before_server\<rparr>"

definition openapi_decl :: plugin_decl where
  "openapi_decl = \<lparr>pl_name = ''gasket:openapi'', pl_ordering = ordering_new\<rparr>"

definition api_preset :: "plugin_decl list" where
  "api_preset = [health_decl, server_decl]"

definition builtin_plugins :: "plugin_decl list" where
  "builtin_plugins = [health_decl, server_decl, cors_decl, compression_decl, secure_headers_decl, timeout_decl,
     scheduler_decl, database_decl, dynamo_decl, openapi_decl]"

section \<open>Secure headers\<close>

definition insert_if_missing :: "string \<Rightarrow> string \<Rightarrow> headers \<Rightarrow> headers" where
  "insert_if_missing n v h = (if \<not> hcontains n h then hinsert n (hv_static v) h else h)"

definition secure_headers_middleware ::
  "('q \<Rightarrow> 'w \<Rightarrow> 'x response_scheme \<times> 'w) \<Rightarrow> 'q \<Rightarrow> 'w \<Rightarrow> 'x response_scheme \<times> 'w" where
  "secure_headers_middleware next_run rq w =
     (let (rs, w) = next_run rq w;
          h = insert_if_missing ''x-content-type-options'' ''nosniff'' (rs_headers rs);
          h = insert_if_missing ''x-frame-options'' ''DENY'' h;
          h = insert_if_missing ''referrer-policy'' ''strict-origin-when-cross-origin'' h
      in (rs\<lparr>rs_headers := h\<rparr>, w))"

section \<open>The scheduler\<close>

text \<open>A job's run may fail; the log is the list of failed runs.  A handle is the number of a
  spawned loop; \<open>sc_running\<close> are the loops that are neither aborted nor finished.\<close>

record 's job =
  jb_name :: string
  jb_interval :: nat
  jb_task :: "'s \<Rightarrow> string option \<times> 's"

record 's scheduler =
  sch_jobs :: "'s job list"
  sch_handles :: "nat list"
  sch_poisoned :: bool

record 's runtime =
  rt_next :: nat
  rt_running :: "(nat \<times> 's job) list"

definition scheduler_new :: "'s scheduler" where
  "scheduler_new = \<lparr>sch_jobs = [], sch_handles = [], sch_poisoned = False\<rparr>"

definition every :: "string \<Rightarrow> nat \<Rightarrow> ('s \<Rightarrow> string option \<times> 's) \<Rightarrow> 's scheduler \<Rightarrow> 's scheduler" where
  "every n interval task sch =
     sch\<lparr>sch_jobs := sch_jobs sch @ [\<lparr>jb_name = n, jb_interval = interval, jb_task = task\<rparr>]\<rparr>"

fun spawn_all :: "'s job list \<Rightarrow> 's runtime \<Rightarrow> nat list \<times> 's runtime" where
  "spawn_all [] rt = ([], rt)"
| "spawn_all (j # js) rt =
     (let h = rt_next rt;
          rt = \<lparr>rt_next = Suc h, rt_running = rt_running rt @ [(h, j)]\<rparr>;
          (hs, rt) = spawn_all js rt
      in (h # hs, rt))"

definition abort :: "nat \<Rightarrow> 's runtime \<Rightarrow> 's runtime" where
  "abort h rt = rt\<lparr>rt_running := filter (\<lambda>(k, _). k \<noteq> h) (rt_running rt)\<rparr>"

definition scheduler_prepare :: "'s scheduler \<Rightarrow> 's runtime \<Rightarrow> (string, unit) result \<times> 's scheduler \<times> 's runtime" where
  "scheduler_prepare sch rt =
     (let (hs, rt) = spawn_all (sch_jobs sch) rt in
      if \<not> sch_poisoned sch then (Ok (), sch\<lparr>sch_handles := sch_handles sch @ hs\<rparr>, rt)
      else (Err ''scheduler handle store is unavailable'', sch, fold abort hs rt))"

definition scheduler_shutdown :: "'s scheduler \<Rightarrow> 's runtime \<Rightarrow> 's scheduler \<times> 's runtime" where
  "scheduler_shutdown sch rt =
     (if \<not> sch_poisoned sch then (sch\<lparr>sch_handles := []\<rparr>, fold abort (sch_handles sch) rt)
      else (sch, rt))"

text \<open>The loop of a job after \<open>n\<close> ticks: the first completes at once and runs nothing, every
  later one runs the task, whatever the run before it returned.\<close>

fun run_job_loop :: "'s job \<Rightarrow> nat \<Rightarrow> 's \<Rightarrow> string list \<times> 's" where
  "run_job_loop j 0 s = ([], s)"
| "run_job_loop j (Suc 0) s = ([], s)"
| "run_job_loop j (Suc (Suc n)) s =
     (let (warned, s) = run_job_loop j (Suc n) s;
          (r, s) = jb_task j s
      in (case r of Some e \<Rightarrow> warned @ [jb_name j @ '': '' @ e] | None \<Rightarrow> warned, s))"

section \<open>Properties\<close>

definition rank :: "plugin_decl \<Rightarrow> nat" where
  "rank p = (if po_first (pl_ordering p) then 0 else if po_last (pl_ordering p) then 2 else 1)"

lemmas decl_defs = health_decl_def server_decl_def cors_decl_def compression_decl_def secure_headers_decl_def
  timeout_decl_def scheduler_decl_def database_decl_def dynamo_decl_def openapi_decl_def before_server_def
  with_before_def with_first_def with_last_def ordering_new_def

definition shape_ok :: "plugin_decl \<Rightarrow> bool" where
  "shape_ok p \<longleftrightarrow> list_all (\<lambda>n. n = ''gasket:server'') (po_before (pl_ordering p)) \<and> po_after (pl_ordering p) = [] \<and>
     \<not> (po_first (pl_ordering p) \<and> po_last (pl_ordering p)) \<and>
     (po_before (pl_ordering p) = [] \<or> \<not> po_first (pl_ordering p) \<and> \<not> po_last (pl_ordering p)) \<and>
     (po_last (pl_ordering p) \<longleftrightarrow> p = server_decl) \<and> (po_first (pl_ordering p) \<longleftrightarrow> p = health_decl) \<and>
     (pl_name p = ''gasket:server'' \<longleftrightarrow> p = server_decl)"

lemma builtin_shape: "list_all shape_ok builtin_plugins"
  by code_simp

lemma builtin_names: "distinct (map pl_name builtin_plugins)"
  by code_simp

lemma sorted_key_order:
  assumes "\<And>a b. must_precede ps a b \<Longrightarrow> rank (ps ! a) < rank (ps ! b)"
  shows "valid_order ps (sort_key (\<lambda>i. rank (ps ! i)) [0..<length ps])"
proof -
  let ?ord = "sort_key (\<lambda>i. rank (ps ! i)) [0..<length ps]"
  have "sorted_wrt (\<lambda>a b. rank (ps ! a) \<le> rank (ps ! b)) ?ord"
    using sorted_sort_key [of "\<lambda>i. rank (ps ! i)" "[0..<length ps]"] by (simp add: sorted_map)
  then have "sorted_wrt (\<lambda>a b. \<not> must_precede ps b a) ?ord"
    by (rule sorted_wrt_mono_rel [rotated]) (use assms leD in blast)
  then show ?thesis by (auto simp: valid_order_def)
qed

lemma builtin_precede:
  assumes "list_all shape_ok ps" and "must_precede ps a b"
  shows "rank (ps ! a) < rank (ps ! b)"
proof -
  define p q where "p = ps ! a" and "q = ps ! b"
  have "a < length ps" "b < length ps" using assms(2) by (simp_all add: must_precede_def)
  then have ok: "shape_ok p" "shape_ok q" using assms(1) by (auto simp: list_all_iff p_def q_def)
  have "po_first (pl_ordering p) \<and> \<not> po_first (pl_ordering q) \<or> po_last (pl_ordering q) \<and> \<not> po_last (pl_ordering p) \<or>
      pl_name q \<in> set (po_before (pl_ordering p)) \<or> pl_name p \<in> set (po_after (pl_ordering q))"
    using assms(2) unfolding must_precede_def Let_def p_def q_def by blast
  moreover have "rank p < rank q" if "pl_name q \<in> set (po_before (pl_ordering p))"
  proof -
    have "pl_name q = ''gasket:server''" using ok(1) that unfolding shape_ok_def list_all_iff by blast
    moreover have "po_before (pl_ordering p) \<noteq> []" using that by auto
    ultimately show ?thesis using ok unfolding shape_ok_def rank_def by auto
  qed
  moreover have "pl_name p \<notin> set (po_after (pl_ordering q))" using ok(2) unfolding shape_ok_def by simp
  moreover have "rank p < rank q" if "po_first (pl_ordering p) \<and> \<not> po_first (pl_ordering q)"
    using that by (simp add: rank_def)
  moreover have "rank p < rank q" if "po_last (pl_ordering q) \<and> \<not> po_last (pl_ordering p)"
    using that ok unfolding shape_ok_def rank_def by auto
  ultimately show ?thesis unfolding p_def q_def by blast
qed

text \<open>In an admissible order a plugin that has to precede all others comes first, and one that all others
  have to precede comes last.\<close>

lemma valid_order_hd:
  assumes v: "valid_order ps srt" and k: "k < length ps" "\<And>i. i < length ps \<Longrightarrow> i \<noteq> k \<Longrightarrow> must_precede ps k i"
  shows "hd srt = k"
proof (rule ccontr)
  assume no: "hd srt \<noteq> k"
  have set: "set srt = {..<length ps}" and sorted: "sorted_wrt (\<lambda>a b. \<not> must_precede ps b a) srt"
    using v by (simp_all only: valid_order_def)
  have bound: "i \<in> set srt \<longleftrightarrow> i < length ps" for i by (simp only: set lessThan_iff)
  then have k_in: "k \<in> set srt" by (simp only: k(1))
  then have ne: "srt \<noteq> []" by (cases srt) simp_all
  have "must_precede ps k (hd srt)" by (rule k(2) [OF hd_in_set [OF ne, unfolded bound] no])
  moreover have "k \<in> set (tl srt)" using k_in ne no by (cases srt) auto
  then have "\<not> must_precede ps k (hd srt)" using sorted ne by (cases srt) auto
  ultimately show False by blast
qed

lemma valid_order_last:
  assumes v: "valid_order ps srt" and k: "k < length ps" "\<And>i. i < length ps \<Longrightarrow> i \<noteq> k \<Longrightarrow> must_precede ps i k"
  shows "last srt = k"
proof (rule ccontr)
  assume no: "last srt \<noteq> k"
  have set: "set srt = {..<length ps}" and sorted: "sorted_wrt (\<lambda>a b. \<not> must_precede ps b a) srt"
    using v by (simp_all only: valid_order_def)
  have bound: "i \<in> set srt \<longleftrightarrow> i < length ps" for i by (simp only: set lessThan_iff)
  then have k_in: "k \<in> set srt" by (simp only: k(1))
  then have ne: "srt \<noteq> []" by (cases srt) simp_all
  have "must_precede ps (last srt) k" by (rule k(2) [OF last_in_set [OF ne, unfolded bound] no])
  moreover have "k \<in> set (butlast srt)" using k_in ne no by (cases srt rule: rev_cases) auto
  then have "\<not> must_precede ps (last srt) k"
    using sorted ne by (cases srt rule: rev_cases) (auto simp: sorted_wrt_append)
  ultimately show False by blast
qed

lemma shape_declared:
  assumes "distinct (map pl_name ps)" and ok: "list_all shape_ok ps" and server: "server_decl \<in> set ps"
  shows "well_declared ps" "no_self_constraint ps"
proof -
  have shape: "shape_ok p" if "p \<in> set ps" for p using that ok by (simp add: list_all_iff)
  have sn: "pl_name server_decl = ''gasket:server''" "po_before (pl_ordering server_decl) = []"
    by code_simp+
  have "''gasket:server'' \<in> set (map pl_name ps)" using server sn(1) by (metis image_eqI list.set_map)
  moreover have "t = ''gasket:server''" if "p \<in> set ps" "t \<in> set (po_before (pl_ordering p) @ po_after (pl_ordering p))" for p t
    using shape [OF that(1)] that(2) unfolding shape_ok_def list_all_iff by auto
  ultimately have "names_resolve ps" unfolding names_resolve_def list_all_iff by blast
  then show "well_declared ps"
    using assms(1) shape unfolding well_declared_def shape_ok_def list_all_iff by blast
  have "pl_name p \<notin> set (po_before (pl_ordering p) @ po_after (pl_ordering p))" if "p \<in> set ps" for p
    using shape [OF that] sn(2) unfolding shape_ok_def list_all_iff by (cases "p = server_decl") auto
  then show "no_self_constraint ps" by (simp add: no_self_constraint_def list_all_iff)
qed

text \<open>any selection of the shipped plugins that contains the server, registered in any order,
  sorts without error, with the health plugin first when it is there and the server last.\<close>

theorem builtin_startup_order:
  assumes "distinct ps" and "set ps \<subseteq> set builtin_plugins" and "server_decl \<in> set ps"
  shows "\<exists>srt. topological_sort ck ps = Ok srt \<and> srt \<noteq> [] \<and> ps ! last srt = server_decl \<and>
    (if health_decl \<in> set ps then ps ! hd srt = health_decl else True)"
proof -
  have names: "distinct (map pl_name ps)"
    using assms(1,2) builtin_names by (auto simp: distinct_map intro: inj_on_subset)
  have ok: "list_all shape_ok ps" using builtin_shape assms(2) by (auto simp: list_all_iff)
  then have flags: "(po_last (pl_ordering p) \<longleftrightarrow> p = server_decl) \<and> (po_first (pl_ordering p) \<longleftrightarrow> p = health_decl)"
    if "p \<in> set ps" for p using that by (auto simp: list_all_iff shape_ok_def)
  have "valid_order ps (sort_key (\<lambda>i. rank (ps ! i)) [0..<length ps])"
    by (rule sorted_key_order) (rule builtin_precede [OF ok])
  with topological_sort_decides [OF shape_declared [OF names ok assms(3)], of ck]
  obtain srt where srt: "topological_sort ck ps = Ok srt" by (auto split: if_splits)
  note v = topological_sort_valid [OF srt]
  obtain k where k: "k < length ps" "ps ! k = server_decl" using assms(3) by (auto simp: in_set_conv_nth)
  have "last srt = k"
  proof (rule valid_order_last [OF v k(1)])
    fix i assume i: "i < length ps" "i \<noteq> k"
    with assms(1) k have "ps ! i \<noteq> server_decl" by (metis nth_eq_iff_index_eq)
    then show "must_precede ps i k" using i k flags [OF nth_mem [OF i(1)]] flags [OF nth_mem [OF k(1)]] by (simp add: must_precede_def Let_def)
  qed
  moreover have "hd srt = h" if h: "h < length ps" "ps ! h = health_decl" for h
  proof (rule valid_order_hd [OF v h(1)])
    fix i assume i: "i < length ps" "i \<noteq> h"
    with assms(1) h have "ps ! i \<noteq> health_decl" by (metis nth_eq_iff_index_eq)
    then show "must_precede ps h i" using i h flags [OF nth_mem [OF i(1)]] flags [OF nth_mem [OF h(1)]] by (simp add: must_precede_def Let_def)
  qed
  moreover have "srt \<noteq> []" using v k(1) unfolding valid_order_def by force
  ultimately show ?thesis using srt k(2) by (auto simp: in_set_conv_nth)
qed

text \<open>the secure-headers middleware runs the handler once, adds each of its three headers exactly when
  the handler did not set it, and changes no other header, nor status or body.\<close>

theorem secure_headers_defaults:
  "(case (next_run rq w, secure_headers_middleware next_run rq w) of
     ((rs, w1), (rs', w2)) \<Rightarrow> w2 = w1 \<and> rs_status rs' = rs_status rs \<and> rs_body rs' = rs_body rs \<and>
       hget_all n (rs_headers rs') =
         (if hcontains n (rs_headers rs) then hget_all n (rs_headers rs)
          else if n = ''x-content-type-options'' then [hv_static ''nosniff'']
          else if n = ''x-frame-options'' then [hv_static ''DENY'']
          else if n = ''referrer-policy'' then [hv_static ''strict-origin-when-cross-origin'']
          else hget_all n (rs_headers rs)))"
proof -
  have ins: "hget_all m (insert_if_missing n v h) = (if m = n \<and> \<not> hcontains n h then [hv_static v] else hget_all m h)"
    "hcontains m (insert_if_missing n v h) \<longleftrightarrow> m = n \<or> hcontains m h" for m n v h
    by (auto simp: insert_if_missing_def)
  show ?thesis
    by (auto simp: secure_headers_middleware_def Let_def ins split: prod.splits)
qed

lemma spawn_all_spec:
  "spawn_all js rt = (hs, rt') \<Longrightarrow> length hs = length js \<and>
     rt_running rt' = rt_running rt @ zip hs js \<and> hs = [rt_next rt..<rt_next rt + length js]"
proof (induction js arbitrary: rt hs rt')
  case (Cons j js)
  let ?rt = "\<lparr>rt_next = Suc (rt_next rt), rt_running = rt_running rt @ [(rt_next rt, j)]\<rparr>"
  obtain hs1 rt1 where s: "spawn_all js ?rt = (hs1, rt1)" by fastforce
  from Cons.IH [OF s] Cons.prems s show ?case
    by (auto simp: Let_def upt_rec [of "rt_next rt"])
qed auto

lemma fold_abort: "rt_running (fold abort hs rt) = filter (\<lambda>(k, _). k \<notin> set hs) (rt_running rt)"
  by (induction hs arbitrary: rt) (auto simp: abort_def filter_filter intro!: filter_cong)

text \<open>the scheduler stops what it started: after \<open>prepare\<close> one loop per registered job runs, and
  after \<open>shutdown\<close> none of them does, while every other task of the runtime goes on; a \<open>prepare\<close> that
  fails leaves no loop behind.\<close>

theorem scheduler_stops_jobs:
  assumes "list_all (\<lambda>(k, _). k < rt_next rt) (rt_running rt)" and "sch_handles sch = []"
  shows "case scheduler_prepare sch rt of
      (Ok _, sch1, rt1) \<Rightarrow> map snd (rt_running rt1) = map snd (rt_running rt) @ sch_jobs sch \<and>
        rt_running (snd (scheduler_shutdown sch1 rt1)) = rt_running rt
    | (Err _, sch1, rt1) \<Rightarrow> rt_running rt1 = rt_running rt"
proof -
  obtain hs rt1 where s: "spawn_all (sch_jobs sch) rt = (hs, rt1)" by fastforce
  note spec = spawn_all_spec [OF s]
  have old: "filter (\<lambda>(k, _). k \<notin> set hs) (rt_running rt) = rt_running rt"
    using assms(1) spec by (auto simp: filter_id_conv list_all_iff)
  have new: "filter (\<lambda>(k, _). k \<notin> set hs) (zip hs (sch_jobs sch)) = []"
    by (auto simp: filter_empty_conv dest: set_zip_leftD)
  have "rt_running (fold abort hs rt1) = rt_running rt"
    using spec old new by (simp add: fold_abort)
  then show ?thesis
    using s spec assms(2) by (simp add: scheduler_prepare_def scheduler_shutdown_def)
qed

section \<open>Concrete instances\<close>

lemma builtin_startup_order_witness:
  "\<exists>srt. topological_sort True [database_decl, server_decl, openapi_decl, health_decl] = Ok srt \<and>
     [database_decl, server_decl, openapi_decl, health_decl] ! last srt = server_decl"
proof -
  have "distinct [database_decl, server_decl, openapi_decl, health_decl]" by (simp add: decl_defs)
  moreover have "set [database_decl, server_decl, openapi_decl, health_decl] \<subseteq> set builtin_plugins"
    by (simp add: builtin_plugins_def)
  ultimately show ?thesis
    using builtin_startup_order [of "[database_decl, server_decl, openapi_decl, health_decl]" True] by auto
qed

lemma scheduler_stops_jobs_witness:
  "rt_running (snd (scheduler_shutdown
      (fst (snd (scheduler_prepare (every ''tick'' 10 (\<lambda>s. (None, Suc s)) scheduler_new) \<lparr>rt_next = 5, rt_running = []\<rparr>)))
      (snd (snd (scheduler_prepare (every ''tick'' 10 (\<lambda>s. (None, Suc s)) scheduler_new) \<lparr>rt_next = 5, rt_running = []\<rparr>))))) =
   ([] :: (nat \<times> nat job) list)"
proof -
  let ?sch = "every ''tick'' 10 (\<lambda>s. (None, Suc s)) scheduler_new :: nat scheduler"
  let ?rt = "\<lparr>rt_next = 5, rt_running = []\<rparr> :: nat runtime"
  have "list_all (\<lambda>(k, _). k < rt_next ?rt) (rt_running ?rt)" "sch_handles ?sch = []"
    by (simp_all add: every_def scheduler_new_def)
  from scheduler_stops_jobs [OF this] show ?thesis
    by (simp add: scheduler_prepare_def every_def scheduler_new_def Let_def split: prod.splits sum.splits)
qed

end
