(* ===== verification/Cache_Keys.thy ===== *)
theory Cache_Keys
  imports Prelude
begin

text \<open>
  Cache keys and their textual settings (\<open>cache.rs\<close>): the percent-encoded \<open>CacheKey\<close>, the
  namespaced backend key and its validation, the FNV-1a hash \<open>stable_hash\<close> that picks a
  Memcached server, and the parsers of durations and memory budgets.

  A \<open>Duration\<close> is its number of nanoseconds.
\<close>

section \<open>Keys\<close>

definition hex_digit :: "nat \<Rightarrow> char" where
  "hex_digit v =
     (if v \<le> 9 then char_of (48 + v)
      else if v \<le> 15 then char_of (65 + (v - 10))
      else CHR ''0'')"

definition is_unreserved :: "char \<Rightarrow> bool" where
  "is_unreserved b \<longleftrightarrow> is_ascii_alphanumeric b \<or> b \<in> {CHR ''-'', CHR ''_'', CHR ''.'', CHR ''~''}"

fun encode_key_part :: "string \<Rightarrow> string" where
  "encode_key_part [] = []"
| "encode_key_part (b # bs) =
     (if is_unreserved b then b # encode_key_part bs
      else CHR ''%'' # hex_digit (byte b div 16) # hex_digit (byte b mod 16) # encode_key_part bs)"

type_synonym cache_key = string

definition cache_key_new :: "string \<Rightarrow> cache_key" where
  "cache_key_new area = encode_key_part area"

definition cache_key_part :: "cache_key \<Rightarrow> string \<Rightarrow> cache_key" where
  "cache_key_part key v = key @ CHR '':'' # encode_key_part v"

datatype key_error = EmptyKey | KeyTooLong nat | KeyCharacter | MissingAuthorization

definition MAX_MEMCACHED_KEY_BYTES :: nat where
  "MAX_MEMCACHED_KEY_BYTES = 250"

definition validate_memcached_key :: "string \<Rightarrow> key_error option" where
  "validate_memcached_key key =
     (if key = [] then Some EmptyKey
      else if MAX_MEMCACHED_KEY_BYTES < length key then Some (KeyTooLong (length key))
      else if list_ex (\<lambda>b. is_ascii_whitespace b \<or> is_ascii_control b) key then Some KeyCharacter
      else None)"

definition validate_backend_key :: "string \<Rightarrow> key_error option" where
  "validate_backend_key key = validate_memcached_key key"

definition namespaced_key :: "string \<Rightarrow> cache_key \<Rightarrow> (key_error, string) result" where
  "namespaced_key namespace key =
     (let key = encode_key_part namespace @ CHR '':'' # key in
      case validate_backend_key key of Some e \<Rightarrow> Err e | None \<Rightarrow> Ok key)"

section \<open>The stable hash\<close>

definition FNV_OFFSET :: "64 word" where "FNV_OFFSET = 14695981039346656037"
definition FNV_PRIME :: "64 word" where "FNV_PRIME = 1099511628211"

unbundle bit_operations_syntax

definition stable_hash :: "string \<Rightarrow> 64 word" where
  "stable_hash v = fold (\<lambda>b hash. (hash XOR word_of_nat (byte b)) * FNV_PRIME) v FNV_OFFSET"

definition server_index :: "nat \<Rightarrow> string \<Rightarrow> nat" where
  "server_index server_count key = unat (stable_hash key) mod server_count"

definition server_for_key :: "'s list \<Rightarrow> string \<Rightarrow> 's" where
  "server_for_key servers key = servers ! server_index (length servers) key"

section \<open>Durations and memory budgets\<close>

type_synonym duration = nat

definition from_secs :: "nat \<Rightarrow> duration" where "from_secs s = s * 10 ^ 9"
definition as_secs :: "duration \<Rightarrow> nat" where "as_secs d = d div 10 ^ 9"

definition ttl_seconds :: "nat \<Rightarrow> duration" where "ttl_seconds s = from_secs s"
definition ttl_minutes :: "nat \<Rightarrow> duration" where "ttl_minutes m = from_secs (sat_mul64 m 60)"
definition DEFAULT_CACHE_TTL :: duration where "DEFAULT_CACHE_TTL = from_secs 60"
definition mebibytes :: "nat \<Rightarrow> nat" where "mebibytes m = sat_mul64 m (1024 * 1024)"

definition serialize_ttl :: "duration \<Rightarrow> string" where
  "serialize_ttl d = show_nat (as_secs d) @ ''s''"

datatype text_error = MissingNumber string | InvalidAmount string | UnsupportedUnit string

definition split_number_and_unit :: "string \<Rightarrow> (text_error, string \<times> string) result" where
  "split_number_and_unit v =
     (let number = takeWhile is_ascii_digit v; unit = dropWhile is_ascii_digit v in
      if number = [] then Err (MissingNumber v) else Ok (number, trim unit))"

definition second_units :: "string list" where
  "second_units = [[], ''s'', ''sec'', ''secs'', ''second'', ''seconds'']"
definition minute_units :: "string list" where
  "minute_units = [''m'', ''min'', ''mins'', ''minute'', ''minutes'']"
definition hour_units :: "string list" where
  "hour_units = [''h'', ''hr'', ''hrs'', ''hour'', ''hours'']"

definition parse_duration_text :: "string \<Rightarrow> (text_error, duration) result" where
  "parse_duration_text v =
     (case split_number_and_unit (trim v) of
        Err e \<Rightarrow> Err e
      | Ok (number, unit) \<Rightarrow>
          (case parse_uint u64_max number of
             None \<Rightarrow> Err (InvalidAmount number)
           | Some amount \<Rightarrow>
               (let u = to_ascii_lowercase unit in
                if u \<in> set second_units then Ok (from_secs amount)
                else if u \<in> set minute_units then Ok (from_secs (sat_mul64 amount 60))
                else if u \<in> set hour_units then Ok (from_secs (sat_mul64 amount (60 * 60)))
                else Err (UnsupportedUnit u))))"

definition memory_units :: "(string \<times> nat) list" where
  "memory_units =
     [([], 1), (''b'', 1), (''byte'', 1), (''bytes'', 1),
      (''k'', 1000), (''kb'', 1000), (''m'', 1000000), (''mb'', 1000000),
      (''g'', 1000000000), (''gb'', 1000000000),
      (''kib'', 1024), (''mib'', 1024 * 1024), (''gib'', 1024 * 1024 * 1024)]"

definition parse_memory_budget :: "string \<Rightarrow> (text_error, nat) result" where
  "parse_memory_budget v =
     (case split_number_and_unit (trim v) of
        Err e \<Rightarrow> Err e
      | Ok (number, unit) \<Rightarrow>
          (case parse_uint u64_max number of
             None \<Rightarrow> Err (InvalidAmount number)
           | Some amount \<Rightarrow>
               (let u = filter (\<lambda>c. c \<noteq> CHR '' '') (to_ascii_lowercase unit) in
                case map_of memory_units u of
                  Some multiplier \<Rightarrow> Ok (sat_mul64 amount multiplier)
                | None \<Rightarrow> Err (UnsupportedUnit u))))"

text \<open>The two serde visitors accept an unsigned number or a text.\<close>

datatype config_scalar = ScalarU64 nat | ScalarStr string | ScalarOther

definition deserialize_ttl :: "config_scalar \<Rightarrow> (text_error option, duration) result" where
  "deserialize_ttl v =
     (case v of
        ScalarU64 n \<Rightarrow> Ok (from_secs n)
      | ScalarStr s \<Rightarrow> (case parse_duration_text s of Err e \<Rightarrow> Err (Some e) | Ok d \<Rightarrow> Ok d)
      | ScalarOther \<Rightarrow> Err None)"

definition deserialize_memory_budget :: "config_scalar \<Rightarrow> (text_error option, nat) result" where
  "deserialize_memory_budget v =
     (case v of
        ScalarU64 n \<Rightarrow> Ok n
      | ScalarStr s \<Rightarrow> (case parse_memory_budget s of Err e \<Rightarrow> Err (Some e) | Ok n \<Rightarrow> Ok n)
      | ScalarOther \<Rightarrow> Err None)"

section \<open>Keys are unambiguous\<close>

lemma hex_digit_byte: "v < 16 \<Longrightarrow> byte (hex_digit v) = (if v \<le> 9 then 48 + v else 55 + v)"
  by (simp add: hex_digit_def)

lemma hex_digit_unreserved:
  assumes "v < 16"
  shows "is_unreserved (hex_digit v)"
proof -
  have "is_ascii_digit (hex_digit v) \<or> is_ascii_upper (hex_digit v)"
    using assms by (cases "v \<le> 9") (simp_all add: is_ascii_digit_def is_ascii_upper_def hex_digit_byte)
  then show ?thesis by (auto simp: is_unreserved_def is_ascii_alphanumeric_def)
qed

lemma nibble_lt: "byte c div 16 < 16" "byte c mod 16 < 16"
  using byte_lt [of c] by (auto simp: less_mult_imp_div_less)

lemma hex_digit_inj:
  assumes "v < 16" "w < 16"
  shows "hex_digit v = hex_digit w \<longleftrightarrow> v = w"
proof
  assume "hex_digit v = hex_digit w"
  then have "(if v \<le> 9 then 48 + v else 55 + v) = (if w \<le> 9 then 48 + w else 55 + w)"
    using assms by (metis hex_digit_byte)
  then show "v = w" by (simp split: if_splits)
qed simp

lemma byte_nibbles: "byte a div 16 = byte b div 16 \<Longrightarrow> byte a mod 16 = byte b mod 16 \<Longrightarrow> a = b"
  by (metis byte_inj div_mult_mod_eq)

lemma percent_reserved: "\<not> is_unreserved (CHR ''%'')"
  by (simp add: is_unreserved_def byte_class byte_def)

lemma encode_key_part_inj: "encode_key_part v = encode_key_part w \<longleftrightarrow> v = w"
proof (induction v arbitrary: w)
  case Nil
  show ?case by (cases w) auto
next
  case (Cons b v)
  show ?case
  proof (cases w)
    case (Cons c u)
    then show ?thesis
      using Cons.IH [of u] percent_reserved nibble_lt byte_nibbles [of b c]
      by (auto simp: hex_digit_inj)
  qed simp
qed

text \<open>Every byte of an encoded part is a visible ASCII character other than the delimiter.\<close>

lemma encode_key_part_chars:
  "c \<in> set (encode_key_part v) \<Longrightarrow> c \<noteq> CHR '':'' \<and> \<not> is_ascii_whitespace c \<and> \<not> is_ascii_control c"
proof (induction v)
  case (Cons b v)
  have u: "is_unreserved d \<Longrightarrow> d \<noteq> CHR '':'' \<and> \<not> is_ascii_whitespace d \<and> \<not> is_ascii_control d" for d
    by (auto simp: is_unreserved_def byte_class byte_def)
  have h: "is_unreserved (hex_digit (byte b div 16))" "is_unreserved (hex_digit (byte b mod 16))"
    by (simp_all add: hex_digit_unreserved nibble_lt)
  have p: "\<not> is_ascii_whitespace (CHR ''%'') \<and> \<not> is_ascii_control (CHR ''%'')"
    by (simp add: byte_class byte_def)
  show ?case using Cons u h p by (auto split: if_splits)
qed simp

definition cache_key_of :: "string \<Rightarrow> string list \<Rightarrow> cache_key" where
  "cache_key_of area parts = foldl cache_key_part (cache_key_new area) parts"

lemma cache_key_of_join: "cache_key_of area parts = join '':'' (map encode_key_part (area # parts))"
proof (induction parts rule: rev_induct)
  case Nil
  show ?case by (simp add: cache_key_of_def cache_key_new_def join_def)
next
  case (snoc p parts)
  then show ?case by (simp add: cache_key_of_def cache_key_part_def join_def)
qed

lemma split_join:
  "ps \<noteq> [] \<Longrightarrow> \<forall>p \<in> set ps. d \<notin> set p \<Longrightarrow> split_char d (join [d] ps) = ps"
proof (induction ps)
  case (Cons p ps)
  then show ?case
    by (cases ps) (simp_all add: join_def split_char_single split_char_append_sep)
qed simp

lemma split_cache_key: "split_char (CHR '':'') (cache_key_of area parts) = map encode_key_part (area # parts)"
  unfolding cache_key_of_join by (rule split_join) (auto dest: encode_key_part_chars)

lemma cache_key_of_inj:
  "cache_key_of area parts = cache_key_of area' parts' \<longleftrightarrow> area = area' \<and> parts = parts'"
proof
  assume "cache_key_of area parts = cache_key_of area' parts'"
  then have "map encode_key_part (area # parts) = map encode_key_part (area' # parts')"
    by (metis split_cache_key)
  then have "area # parts = area' # parts'"
    by (rule map_injective) (simp add: inj_def encode_key_part_inj)
  then show "area = area' \<and> parts = parts'" by simp
qed simp

text \<open>C19: a cache key determines the area and the list of parts it was built from: no part,
  whatever bytes it holds, can imitate a delimiter or a neighbouring part.\<close>

theorem cache_key_injective:
  "cache_key_of area parts = cache_key_of area' parts' \<longleftrightarrow> area = area' \<and> parts = parts'"
  by (rule cache_key_of_inj)

text \<open>the key given to a backend is valid whenever it is at most 250 bytes long (the
  length is the only check an encoded key can fail), and it determines both the namespace
  and the cache key, so services that share a backend do not collide.\<close>

theorem namespaced_key_safe:
  "(case namespaced_key ns (cache_key_of area parts) of
      Err e \<Rightarrow> e = KeyTooLong (length (encode_key_part ns @ CHR '':'' # cache_key_of area parts)) \<and>
        250 < length (encode_key_part ns @ CHR '':'' # cache_key_of area parts)
    | Ok k \<Rightarrow> validate_memcached_key k = None \<and> length k \<le> 250 \<and>
        {(ns', area', parts'). namespaced_key ns' (cache_key_of area' parts') = Ok k} = {(ns, area, parts)})"
proof -
  let ?k = "encode_key_part ns @ CHR '':'' # cache_key_of area parts"
  have colon: "\<not> is_ascii_whitespace (CHR '':'') \<and> \<not> is_ascii_control (CHR '':'')"
    by (simp add: byte_class byte_def)
  have as_key: "encode_key_part n @ CHR '':'' # cache_key_of a ps = cache_key_of n (a # ps)" for n a ps
    by (simp add: cache_key_of_join join_def)
  have "c \<in> set (cache_key_of n ps) \<Longrightarrow> c = CHR '':'' \<or> (\<exists>p. c \<in> set (encode_key_part p))" for c n ps
    by (auto simp: cache_key_of_join join_def split: if_splits list.splits)
  then have chars: "\<not> list_ex (\<lambda>b. is_ascii_whitespace b \<or> is_ascii_control b) ?k"
    unfolding as_key list_ex_iff using colon encode_key_part_chars by blast
  have v: "validate_memcached_key ?k = (if 250 < length ?k then Some (KeyTooLong (length ?k)) else None)"
    using chars by (simp add: validate_memcached_key_def MAX_MEMCACHED_KEY_BYTES_def del: list_ex_append)
  have inj: "namespaced_key n (cache_key_of a ps) = Ok ?k \<Longrightarrow> n = ns \<and> a = area \<and> ps = parts" for n a ps
    by (auto simp: namespaced_key_def Let_def as_key cache_key_of_inj split: option.splits)
  show ?thesis
  proof (cases "250 < length ?k")
    case True
    then have "namespaced_key ns (cache_key_of area parts) = Err (KeyTooLong (length ?k))"
      using v by (simp add: namespaced_key_def validate_backend_key_def Let_def)
    then show ?thesis using True by simp
  next
    case False
    then have "namespaced_key ns (cache_key_of area parts) = Ok ?k"
      using v by (simp add: namespaced_key_def validate_backend_key_def Let_def)
    moreover from this have "{(ns', area', parts'). namespaced_key ns' (cache_key_of area' parts') = Ok ?k} = {(ns, area, parts)}"
      using inj by auto
    ultimately show ?thesis using False v by simp
  qed
qed

section \<open>Texts\<close>

lemma takeWhile_digits:
  "list_all is_ascii_digit ds \<Longrightarrow> u = [] \<or> \<not> is_ascii_digit (hd u) \<Longrightarrow>
   takeWhile is_ascii_digit (ds @ u) = ds \<and> dropWhile is_ascii_digit (ds @ u) = u"
  by (induction ds) (auto, (cases u; auto)+)

text \<open>A digit string followed by a unit of ASCII letters, with blanks before the unit.\<close>

lemma split_number_and_unit_spaced:
  assumes "list_all is_ascii_digit ds" "ds \<noteq> []" "list_all (\<lambda>c. solid c \<and> \<not> is_ascii_digit c) u"
  shows "split_number_and_unit (trim (ds @ replicate k (CHR '' '') @ u)) = Ok (ds, u)"
proof -
  have ds: "list_all solid ds" using assms(1) by (auto simp: list_all_iff digit_solid)
  obtain d ds' where d: "ds = d # ds'" using assms(2) by (cases ds) auto
  then have st: "trim_start (ds @ w) = ds @ w" for w using ds by (simp add: trim_start_solid)
  have u: "list_all solid u" using assms(3) by (auto simp: list_all_iff)
  show ?thesis
  proof (cases u rule: rev_cases)
    case Nil
    then have "trim (ds @ replicate k (CHR '' '') @ u) = ds"
      using ds by (simp add: trim_def st trim_end_all_solid)
    moreover have "takeWhile is_ascii_digit ds = ds" "dropWhile is_ascii_digit ds = []"
      using assms(1) by (simp_all add: list_all_iff)
    ultimately show ?thesis using assms(2) Nil
      by (simp add: split_number_and_unit_def Let_def del: takeWhile_eq_all_conv dropWhile_eq_Nil_conv)
  next
    case (snoc u' c)
    then have "trim (ds @ replicate k (CHR '' '') @ u) = ds @ replicate k (CHR '' '') @ u"
      using u trim_end_solid [of c "ds @ replicate k (CHR '' '') @ u'"] by (simp add: trim_def st)
    moreover have "\<not> is_ascii_digit (hd (replicate k (CHR '' '') @ u))"
    proof (cases k)
      case 0
      have "hd u \<in> set u" using snoc by (intro hd_in_set) simp
      then show ?thesis using assms(3) 0 by (auto simp: list_all_iff)
    qed (simp add: is_ascii_digit_def byte_def)
    moreover have "trim (replicate k (CHR '' '') @ u) = u"
      using trim_all_solid [OF u] by (simp add: trim_def)
    ultimately show ?thesis using assms(2) takeWhile_digits [OF assms(1), of "replicate k (CHR '' '') @ u"]
      by (simp add: split_number_and_unit_def Let_def)
  qed
qed

lemma to_ascii_lowercase_lower: "list_all is_ascii_lower u \<Longrightarrow> to_ascii_lowercase u = u"
  by (induction u) (auto simp: to_ascii_lowercase_def lower_byte_def is_ascii_lower_def is_ascii_upper_def)

lemma lower_solid: "is_ascii_lower c \<Longrightarrow> solid c \<and> \<not> is_ascii_digit c \<and> c \<noteq> CHR '' ''"
  by (auto simp: is_ascii_lower_def solid_def is_ascii_def ws1_def is_ascii_digit_def byte_def)

text \<open>the text of a whole number of seconds, which is what a TTL serialises to, parses
  back to the same duration; sub-second parts of a TTL are cut off.\<close>

theorem ttl_text_roundtrip:
  assumes "as_secs d \<le> u64_max"
  shows "parse_duration_text (serialize_ttl d) = Ok (from_secs (as_secs d))"
proof -
  have "split_number_and_unit (trim (serialize_ttl d)) = Ok (show_nat (as_secs d), ''s'')"
    using split_number_and_unit_spaced [of "show_nat (as_secs d)" "''s''" 0] lower_solid [of "CHR ''s''"]
    by (simp add: serialize_ttl_def show_nat_digits is_ascii_lower_def byte_def)
  moreover have "to_ascii_lowercase ''s'' = ''s''" by code_simp
  moreover have "''s'' \<in> set second_units" by (simp add: second_units_def)
  ultimately show ?thesis
    using assms by (simp add: parse_duration_text_def parse_show_nat)
qed

text \<open>a memory budget written as a decimal number, any blanks and one of the documented
  units is that many bytes, saturating at the largest \<open>u64\<close>; a number that does not fit
  itself is refused.\<close>

theorem memory_budget_parses:
  assumes "(u, mult) \<in> set memory_units"
  shows "parse_memory_budget (show_nat n @ replicate k (CHR '' '') @ u) =
    (if n \<le> u64_max then Ok (min (n * mult) u64_max) else Err (InvalidAmount (show_nat n)))"
proof -
  have "list_all (\<lambda>p. list_all is_ascii_lower (fst p)) memory_units"
    by (simp add: memory_units_def is_ascii_lower_def byte_def)
  then have lower: "list_all is_ascii_lower u" using assms by (auto simp: list_all_iff)
  have "distinct (map fst memory_units)" by (simp add: memory_units_def)
  then have "map_of memory_units u = Some mult" using assms by simp
  moreover have "split_number_and_unit (trim (show_nat n @ replicate k (CHR '' '') @ u)) = Ok (show_nat n, u)"
    by (rule split_number_and_unit_spaced [OF show_nat_digits show_nat_nonempty])
      (use lower lower_solid in \<open>auto simp: list_all_iff\<close>)
  moreover have "filter (\<lambda>c. c \<noteq> CHR '' '') u = u"
    using lower lower_solid by (auto simp: list_all_iff filter_id_conv)
  ultimately show ?thesis
    using lower by (simp add: parse_memory_budget_def to_ascii_lowercase_lower sat_mul64_def
        parse_uint_digits show_nat_digits digits_val_show_nat)
qed

section \<open>Concrete instances\<close>

lemma ttl_text_roundtrip_witness: "parse_duration_text (serialize_ttl (ttl_minutes 5)) = Ok (from_secs 300)"
proof -
  have "as_secs (ttl_minutes 5) = 300"
    by (simp add: ttl_minutes_def sat_mul64_def u64_max_def from_secs_def as_secs_def)
  then show ?thesis using ttl_text_roundtrip [of "ttl_minutes 5"] by (simp add: u64_max_def)
qed

lemma memory_budget_parses_witness: "parse_memory_budget (show_nat 128 @ '' mib'') = Ok 134217728"
  using memory_budget_parses [of "''mib''" "1024 * 1024" 128 1]
  by (simp add: memory_units_def u64_max_def)

end
