(* ===== verification/Cache_Store.thy ===== *)
theory Cache_Store
  imports Cache_Keys
begin

text \<open>
  The object cache over its backends (\<open>cache.rs\<close>): the \<open>CacheBackend\<close> interface as a locale,
  the in-process backend, what the Redis and Memcached backends send, and the typed
  \<open>ObjectCache\<close> operations on one backend.

  Time is a number of nanoseconds.  \<open>moka\<close> may drop entries whenever an operation runs: the
  keys it drops are an argument of the operation.  The codec of the cached type (serde) is a
  pair of functions.
\<close>

type_synonym time = nat

datatype ('enc, 'dec, 'load) cache_error =
    InvalidConfig string
  | InvalidKey key_error
  | Encode 'enc
  | Decode 'dec
  | Loader 'load
  | Backend string

section \<open>The interface\<close>

text \<open>\<open>holds b t k\<close> is the value a backend in state \<open>b\<close> would answer for \<open>k\<close> at time \<open>t\<close>, and
  \<open>lifetime d\<close> bounds how long a value written with the TTL \<open>d\<close> can be served.  A backend may
  forget values at any time; it must not invent or revive them.\<close>

locale cache_backend =
  fixes get :: "time \<Rightarrow> string \<Rightarrow> 'b \<Rightarrow> ('err, string option) result \<times> 'b"
    and set :: "time \<Rightarrow> string \<Rightarrow> string \<Rightarrow> duration \<Rightarrow> 'b \<Rightarrow> ('err, unit) result \<times> 'b"
    and delete :: "time \<Rightarrow> string \<Rightarrow> 'b \<Rightarrow> ('err, unit) result \<times> 'b"
    and holds :: "'b \<Rightarrow> time \<Rightarrow> string \<Rightarrow> string option"
    and lifetime :: "duration \<Rightarrow> duration"
  assumes get_answer: "get t k b = (Ok answer, b') \<Longrightarrow> answer = None \<or> answer = holds b t k"
    and get_keeps: "get t k b = (r, b') \<Longrightarrow> t \<le> t' \<Longrightarrow> holds b' t' k' = None \<or> holds b' t' k' = holds b t' k'"
    and set_value: "set t k v d b = (u, b') \<Longrightarrow> t \<le> t' \<Longrightarrow>
      holds b' t' k = None \<or> (holds b' t' k = Some v \<and> t' < t + lifetime d) \<or>
      (u \<noteq> Ok () \<and> holds b' t' k = holds b t' k)"
    and set_keeps: "set t k v d b = (u, b') \<Longrightarrow> t \<le> t' \<Longrightarrow> k' \<noteq> k \<Longrightarrow>
      holds b' t' k' = None \<or> holds b' t' k' = holds b t' k'"
    and delete_drops: "delete t k b = (Ok (), b') \<Longrightarrow> t \<le> t' \<Longrightarrow> holds b' t' k = None"
    and delete_keeps: "delete t k b = (u, b') \<Longrightarrow> t \<le> t' \<Longrightarrow>
      holds b' t' k' = None \<or> holds b' t' k' = holds b t' k'"

text \<open>A history of backend calls, each with the time it ran at; the log adds whether the
  call succeeded.\<close>

datatype backend_call =
    CGet string
  | CSet string string duration
  | CDelete string

fun run_calls ::
  "(time \<Rightarrow> string \<Rightarrow> 'b \<Rightarrow> ('err, string option) result \<times> 'b) \<Rightarrow>
   (time \<Rightarrow> string \<Rightarrow> string \<Rightarrow> duration \<Rightarrow> 'b \<Rightarrow> ('err, unit) result \<times> 'b) \<Rightarrow>
   (time \<Rightarrow> string \<Rightarrow> 'b \<Rightarrow> ('err, unit) result \<times> 'b) \<Rightarrow>
   (time \<times> backend_call) list \<Rightarrow> 'b \<Rightarrow> (time \<times> backend_call \<times> bool) list \<times> 'b" where
  "run_calls bget bset bdel [] b = ([], b)"
| "run_calls bget bset bdel ((t, c) # h) b =
     (let (ok, b) = (case c of
            CGet k \<Rightarrow> (let (r, b) = bget t k b in (case r of Ok _ \<Rightarrow> True | Err _ \<Rightarrow> False, b))
          | CSet k v d \<Rightarrow> (let (r, b) = bset t k v d b in (r = Ok (), b))
          | CDelete k \<Rightarrow> (let (r, b) = bdel t k b in (r = Ok (), b)));
          (lg, b) = run_calls bget bset bdel h b
      in ((t, c, ok) # lg, b))"

text \<open>The values a read of \<open>k\<close> at time \<open>t\<close> may serve after a log, newest call first: the
  value of the last successful write, if its lifetime is not over and no delete
  succeeded since, or that of a later write that reported an error.\<close>

fun served :: "(duration \<Rightarrow> duration) \<Rightarrow> time \<Rightarrow> string \<Rightarrow> (time \<times> backend_call \<times> bool) list \<Rightarrow> string \<Rightarrow> bool" where
  "served lt t k [] v \<longleftrightarrow> False"
| "served lt t k ((s, CSet k' v' d, ok) # h) v \<longleftrightarrow>
     (if k' = k then (v = v' \<and> t < s + lt d) \<or> (\<not> ok \<and> served lt t k h v) else served lt t k h v)"
| "served lt t k ((s, CDelete k', ok) # h) v \<longleftrightarrow> \<not> (k' = k \<and> ok) \<and> served lt t k h v"
| "served lt t k ((s, CGet k', ok) # h) v \<longleftrightarrow> served lt t k h v"

context cache_backend
begin

text \<open>Whatever a backend holds after a history was written for that very key and is not stale.\<close>

lemma holds_served:
  assumes "run_calls get set delete h b = (lg, b')" and "\<forall>c \<in> List.set h. fst c \<le> t"
    and "holds b' t k = Some v" and "\<And>v. holds b t k = Some v \<Longrightarrow> served lifetime t k pre v"
  shows "served lifetime t k (rev lg @ pre) v"
  using assms
proof (induction h arbitrary: b lg pre)
  case (Cons tc h)
  obtain s c where tc: "tc = (s, c)" by (cases tc)
  with Cons.prems(2) have "s \<le> t" by simp
  show ?case
  proof (cases c)
    case (CGet k')
    obtain r b1 where call: "get s k' b = (r, b1)" by fastforce
    obtain lg1 where lg: "run_calls get set delete h b1 = (lg1, b')"
        "lg = (s, c, case r of Ok _ \<Rightarrow> True | Err _ \<Rightarrow> False) # lg1"
      using Cons.prems(1) call by (auto simp: tc CGet split: prod.splits)
    have "holds b1 t k = Some v \<Longrightarrow> served lifetime t k ((s, c, ok) # pre) v" for v ok
      using get_keeps [OF call \<open>s \<le> t\<close>, of k] Cons.prems(4) by (auto simp: CGet)
    from Cons.IH [OF lg(1) _ Cons.prems(3) this] show ?thesis using Cons.prems(2) by (simp add: lg(2))
  next
    case (CSet k' v' d)
    obtain r b1 where call: "set s k' v' d b = (r, b1)" by fastforce
    obtain lg1 where lg: "run_calls get set delete h b1 = (lg1, b')" "lg = (s, c, r = Ok ()) # lg1"
      using Cons.prems(1) call by (auto simp: tc CSet split: prod.splits)
    have "holds b1 t k = Some v \<Longrightarrow> served lifetime t k ((s, c, r = Ok ()) # pre) v" for v
      using set_value [OF call \<open>s \<le> t\<close>] set_keeps [OF call \<open>s \<le> t\<close>, of k] Cons.prems(4)
      by (cases "k' = k") (auto simp: CSet)
    from Cons.IH [OF lg(1) _ Cons.prems(3) this] show ?thesis using Cons.prems(2) by (simp add: lg(2))
  next
    case (CDelete k')
    obtain r b1 where call: "delete s k' b = (r, b1)" by fastforce
    obtain lg1 where lg: "run_calls get set delete h b1 = (lg1, b')" "lg = (s, c, r = Ok ()) # lg1"
      using Cons.prems(1) call by (auto simp: tc CDelete split: prod.splits)
    have "holds b1 t k = Some v \<Longrightarrow> served lifetime t k ((s, c, r = Ok ()) # pre) v" for v
      using delete_drops [of s k' b b1 t] delete_keeps [OF call \<open>s \<le> t\<close>, of k] call \<open>s \<le> t\<close> Cons.prems(4)
      by (auto simp: CDelete)
    from Cons.IH [OF lg(1) _ Cons.prems(3) this] show ?thesis using Cons.prems(2) by (simp add: lg(2))
  qed
qed simp

end

section \<open>The in-process backend\<close>

record stored_value =
  st_bytes :: string
  st_expires_at :: time

text \<open>The state is the content of the \<open>moka\<close> cache and, as a stream, the keys it will drop on
  its own account before each of the operations to come.\<close>

record memory_backend =
  mb_entries :: "string \<rightharpoonup> stored_value"
  mb_evictions :: "nat \<Rightarrow> string set"

definition memory_new :: "(nat \<Rightarrow> string set) \<Rightarrow> memory_backend" where
  "memory_new evictions = \<lparr>mb_entries = Map.empty, mb_evictions = evictions\<rparr>"

definition entry_weight :: "string \<Rightarrow> string \<Rightarrow> nat" where
  "entry_weight key bytes = min (length key + length bytes) u32_max"

definition moka_evict :: "memory_backend \<Rightarrow> memory_backend" where
  "moka_evict m = \<lparr>mb_entries = mb_entries m |` (- mb_evictions m 0),
     mb_evictions = (\<lambda>i. mb_evictions m (Suc i))\<rparr>"

definition memory_get ::
  "time \<Rightarrow> string \<Rightarrow> memory_backend \<Rightarrow> (string, string option) result \<times> memory_backend" where
  "memory_get now key m =
     (let m = moka_evict m in
      case mb_entries m key of
        None \<Rightarrow> (Ok None, m)
      | Some v \<Rightarrow>
          if st_expires_at v \<le> now then (Ok None, m\<lparr>mb_entries := (mb_entries m)(key := None)\<rparr>)
          else (Ok (Some (st_bytes v)), m))"

text \<open>\<open>Instant + Duration\<close> panics when the sum is beyond the platform's range (\<open>None\<close>).  The
  new entry may be refused admission or dropped at once.\<close>

definition memory_set ::
  "time \<Rightarrow> time \<Rightarrow> string \<Rightarrow> string \<Rightarrow> duration \<Rightarrow> memory_backend \<Rightarrow> memory_backend option" where
  "memory_set instant_max now key v ttl m =
     (if instant_max < now + ttl then None
      else Some (moka_evict (m\<lparr>mb_entries := (mb_entries m)(key \<mapsto> \<lparr>st_bytes = v, st_expires_at = now + ttl\<rparr>)\<rparr>)))"

definition memory_delete :: "time \<Rightarrow> string \<Rightarrow> memory_backend \<Rightarrow> (string, unit) result \<times> memory_backend" where
  "memory_delete now key m =
     (let m = moka_evict m in (Ok (), m\<lparr>mb_entries := (mb_entries m)(key := None)\<rparr>))"

text \<open>For the interface a panic of the write is an error that leaves the content alone.\<close>

definition memory_set_result ::
  "time \<Rightarrow> time \<Rightarrow> string \<Rightarrow> string \<Rightarrow> duration \<Rightarrow> memory_backend \<Rightarrow> (string, unit) result \<times> memory_backend" where
  "memory_set_result instant_max now key v ttl m =
     (case memory_set instant_max now key v ttl m of
        None \<Rightarrow> (Err ''panicked'', m)
      | Some m \<Rightarrow> (Ok (), m))"

definition memory_holds :: "memory_backend \<Rightarrow> time \<Rightarrow> string \<Rightarrow> string option" where
  "memory_holds m t key =
     (case mb_entries m key of
        None \<Rightarrow> None
      | Some v \<Rightarrow> if st_expires_at v \<le> t then None else Some (st_bytes v))"

interpretation memory: cache_backend memory_get "memory_set_result instant_max" memory_delete memory_holds "\<lambda>d. d"
  for instant_max
proof
  note defs = memory_get_def memory_set_result_def memory_set_def memory_delete_def memory_holds_def
    moka_evict_def restrict_map_def Let_def
  fix t t' k k' v d b b' and answer :: "string option" and r and u :: "(string, unit) result"
  show "memory_get t k b = (Ok answer, b') \<Longrightarrow> answer = None \<or> answer = memory_holds b t k"
    by (auto simp: defs split: option.splits if_splits)
  show "memory_get t k b = (r, b') \<Longrightarrow> t \<le> t' \<Longrightarrow> memory_holds b' t' k' = None \<or> memory_holds b' t' k' = memory_holds b t' k'"
    by (auto simp: defs split: option.splits if_splits)
  show "memory_set_result instant_max t k v d b = (u, b') \<Longrightarrow> t \<le> t' \<Longrightarrow>
      memory_holds b' t' k = None \<or> (memory_holds b' t' k = Some v \<and> t' < t + d) \<or>
      (u \<noteq> Ok () \<and> memory_holds b' t' k = memory_holds b t' k)"
    by (auto simp: defs split: option.splits if_splits)
  show "memory_set_result instant_max t k v d b = (u, b') \<Longrightarrow> t \<le> t' \<Longrightarrow> k' \<noteq> k \<Longrightarrow>
      memory_holds b' t' k' = None \<or> memory_holds b' t' k' = memory_holds b t' k'"
    by (auto simp: defs split: option.splits if_splits)
  show "memory_delete t k b = (Ok (), b') \<Longrightarrow> t \<le> t' \<Longrightarrow> memory_holds b' t' k = None"
    by (auto simp: defs split: option.splits if_splits)
  show "memory_delete t k b = (u, b') \<Longrightarrow> t \<le> t' \<Longrightarrow>
      memory_holds b' t' k' = None \<or> memory_holds b' t' k' = memory_holds b t' k'"
    by (auto simp: defs split: option.splits if_splits)
qed

section \<open>What the remote backends send\<close>

definition redis_expiry_secs :: "duration \<Rightarrow> nat" where
  "redis_expiry_secs ttl = max (as_secs ttl) 1"

definition memcached_expiration :: "duration \<Rightarrow> nat" where
  "memcached_expiration ttl = (let s = max (as_secs ttl) 1 in if s \<le> u32_max then s else u32_max)"

definition memcached_connect :: "(string \<Rightarrow> (string, 's) result) \<Rightarrow> string list \<Rightarrow> (string, 's list) result" where
  "memcached_connect connect servers =
     (if servers = [] then Err ''memcached backend requires at least one server''
      else fold (\<lambda>a acc. case acc of
                   Err e \<Rightarrow> Err e
                 | Ok ss \<Rightarrow> (case connect a of Err e \<Rightarrow> Err e | Ok s \<Rightarrow> Ok (ss @ [s]))) servers (Ok []))"

section \<open>Configuration\<close>

datatype cache_backend_kind = MemoryKind | RedisKind | MemcachedKind

record cache_config =
  cc_backend :: cache_backend_kind
  cc_max_memory :: nat
  cc_default_ttl :: duration
  cc_namespace :: string
  cc_single_flight :: bool
  cc_redis_url :: "string option"
  cc_memcached_servers :: "string list option"

definition cache_config_default :: cache_config where
  "cache_config_default =
     \<lparr>cc_backend = MemoryKind, cc_max_memory = 128 * 1024 * 1024, cc_default_ttl = DEFAULT_CACHE_TTL,
      cc_namespace = ''rusty-gasket'', cc_single_flight = True, cc_redis_url = None,
      cc_memcached_servers = None\<rparr>"

definition config_max_memory :: "nat \<Rightarrow> cache_config \<Rightarrow> cache_config" where
  "config_max_memory x b = b\<lparr>cc_max_memory := x\<rparr>"

definition config_default_ttl :: "duration \<Rightarrow> cache_config \<Rightarrow> cache_config" where
  "config_default_ttl x b = b\<lparr>cc_default_ttl := x\<rparr>"

record object_cache =
  oc_namespace :: string
  oc_default_ttl :: duration
  oc_single_flight :: bool

definition from_backend :: "cache_config \<Rightarrow> object_cache" where
  "from_backend c =
     \<lparr>oc_namespace = cc_namespace c, oc_default_ttl = cc_default_ttl c,
      oc_single_flight = cc_single_flight c\<rparr>"

definition from_memory_config :: "(nat \<Rightarrow> string set) \<Rightarrow> cache_config \<Rightarrow> object_cache \<times> memory_backend" where
  "from_memory_config evictions c = (from_backend c, memory_new evictions)"

definition cache_config_memory :: cache_config where
  "cache_config_memory = cache_config_default"

definition object_cache_memory :: "(nat \<Rightarrow> string set) \<Rightarrow> object_cache \<times> memory_backend" where
  "object_cache_memory evictions = from_memory_config evictions cache_config_memory"

text \<open>\<open>from_config\<close> with the compiled-in features; \<open>redis\<close> and \<open>memcached\<close> connect.\<close>

datatype ('r, 's) any_backend = MemoryBackend memory_backend | RedisBackend 'r | MemcachedBackend "'s list"

definition from_redis_config ::
  "bool \<Rightarrow> (string \<Rightarrow> (string, 'r) result) \<Rightarrow> cache_config \<Rightarrow>
   (('enc, 'dec, 'load) cache_error, object_cache \<times> ('r, 's) any_backend) result" where
  "from_redis_config redis_feature redis_connect c =
     (if \<not> redis_feature then Err (InvalidConfig ''redis cache backend requires the cache-redis feature'')
      else (case cc_redis_url c of
         None \<Rightarrow> Err (InvalidConfig ''redis backend requires cache.redis.url'')
       | Some url \<Rightarrow> (case redis_connect url of
            Err e \<Rightarrow> Err (Backend e)
          | Ok r \<Rightarrow> Ok (from_backend c, RedisBackend r))))"

definition from_memcached_config ::
  "bool \<Rightarrow> (string \<Rightarrow> (string, 's) result) \<Rightarrow> cache_config \<Rightarrow>
   (('enc, 'dec, 'load) cache_error, object_cache \<times> ('r, 's) any_backend) result" where
  "from_memcached_config memcached_feature tcp_connect c =
     (if \<not> memcached_feature then Err (InvalidConfig ''memcached cache backend requires the cache-memcached feature'')
      else (case cc_memcached_servers c of
         None \<Rightarrow> Err (InvalidConfig ''memcached backend requires cache.memcached.servers'')
       | Some servers \<Rightarrow>
           if servers = [] then Err (InvalidConfig ''memcached backend requires at least one server'')
           else (case memcached_connect tcp_connect servers of
              Err e \<Rightarrow> Err (Backend e)
            | Ok ss \<Rightarrow> Ok (from_backend c, MemcachedBackend ss))))"

definition from_config ::
  "(nat \<Rightarrow> string set) \<Rightarrow> bool \<Rightarrow> bool \<Rightarrow> (string \<Rightarrow> (string, 'r) result) \<Rightarrow> (string \<Rightarrow> (string, 's) result) \<Rightarrow> cache_config \<Rightarrow>
   (('enc, 'dec, 'load) cache_error, object_cache \<times> ('r, 's) any_backend) result" where
  "from_config evictions redis_feature memcached_feature redis_connect tcp_connect c =
     (case cc_backend c of
        MemoryKind \<Rightarrow> (case from_memory_config evictions c of (oc, m) \<Rightarrow> Ok (oc, MemoryBackend m))
      | RedisKind \<Rightarrow> from_redis_config redis_feature redis_connect c
      | MemcachedKind \<Rightarrow> from_memcached_config memcached_feature tcp_connect c)"

section \<open>The object cache\<close>

definition cache_get ::
  "(time \<Rightarrow> string \<Rightarrow> 'b \<Rightarrow> (string, string option) result \<times> 'b) \<Rightarrow> (string \<Rightarrow> ('dec, 't) result) \<Rightarrow>
   object_cache \<Rightarrow> time \<Rightarrow> cache_key \<Rightarrow> 'b \<Rightarrow> (('enc, 'dec, 'load) cache_error, 't option) result \<times> 'b" where
  "cache_get bget dec oc now key b =
     (case namespaced_key (oc_namespace oc) key of
        Err e \<Rightarrow> (Err (InvalidKey e), b)
      | Ok k \<Rightarrow>
          (case bget now k b of
             (Err e, b) \<Rightarrow> (Err (Backend e), b)
           | (Ok None, b) \<Rightarrow> (Ok None, b)
           | (Ok (Some bytes), b) \<Rightarrow>
               (case dec bytes of Err e \<Rightarrow> (Err (Decode e), b) | Ok v \<Rightarrow> (Ok (Some v), b))))"

definition cache_set_for ::
  "(time \<Rightarrow> string \<Rightarrow> string \<Rightarrow> duration \<Rightarrow> 'b \<Rightarrow> (string, unit) result \<times> 'b) \<Rightarrow> ('t \<Rightarrow> ('enc, string) result) \<Rightarrow>
   object_cache \<Rightarrow> time \<Rightarrow> cache_key \<Rightarrow> duration \<Rightarrow> 't \<Rightarrow> 'b \<Rightarrow>
   (('enc, 'dec, 'load) cache_error, unit) result \<times> 'b" where
  "cache_set_for bset enc oc now key ttl v b =
     (case namespaced_key (oc_namespace oc) key of
        Err e \<Rightarrow> (Err (InvalidKey e), b)
      | Ok k \<Rightarrow>
          (case enc v of
             Err e \<Rightarrow> (Err (Encode e), b)
           | Ok bytes \<Rightarrow>
               (case bset now k bytes ttl b of
                  (Err e, b) \<Rightarrow> (Err (Backend e), b)
                | (Ok _, b) \<Rightarrow> (Ok (), b))))"

definition cache_set ::
  "(time \<Rightarrow> string \<Rightarrow> string \<Rightarrow> duration \<Rightarrow> 'b \<Rightarrow> (string, unit) result \<times> 'b) \<Rightarrow> ('t \<Rightarrow> ('enc, string) result) \<Rightarrow>
   object_cache \<Rightarrow> time \<Rightarrow> cache_key \<Rightarrow> 't \<Rightarrow> 'b \<Rightarrow> (('enc, 'dec, 'load) cache_error, unit) result \<times> 'b" where
  "cache_set bset enc oc now key v b = cache_set_for bset enc oc now key (oc_default_ttl oc) v b"

definition cache_delete ::
  "(time \<Rightarrow> string \<Rightarrow> 'b \<Rightarrow> (string, unit) result \<times> 'b) \<Rightarrow> object_cache \<Rightarrow> time \<Rightarrow> cache_key \<Rightarrow> 'b \<Rightarrow>
   (('enc, 'dec, 'load) cache_error, unit) result \<times> 'b" where
  "cache_delete bdel oc now key b =
     (case namespaced_key (oc_namespace oc) key of
        Err e \<Rightarrow> (Err (InvalidKey e), b)
      | Ok k \<Rightarrow>
          (case bdel now k b of
             (Err e, b) \<Rightarrow> (Err (Backend e), b)
           | (Ok _, b) \<Rightarrow> (Ok (), b)))"

text \<open>\<open>t1\<close>, \<open>t2\<close> are the times of the read and of the write; the loader acts on the world.\<close>

definition get_or_load_without_single_flight ::
  "(time \<Rightarrow> string \<Rightarrow> 'b \<Rightarrow> (string, string option) result \<times> 'b) \<Rightarrow>
   (time \<Rightarrow> string \<Rightarrow> string \<Rightarrow> duration \<Rightarrow> 'b \<Rightarrow> (string, unit) result \<times> 'b) \<Rightarrow>
   (string \<Rightarrow> ('dec, 't) result) \<Rightarrow> ('t \<Rightarrow> ('enc, string) result) \<Rightarrow> object_cache \<Rightarrow> time \<Rightarrow> time \<Rightarrow>
   cache_key \<Rightarrow> duration \<Rightarrow> ('w \<Rightarrow> ('load, 't) result \<times> 'w) \<Rightarrow> 'b \<times> 'w \<Rightarrow>
   (('enc, 'dec, 'load) cache_error, 't) result \<times> 'b \<times> 'w" where
  "get_or_load_without_single_flight bget bset dec enc oc t1 t2 key ttl load s =
     (let (b, w) = s in
      case cache_get bget dec oc t1 key b of
        (Err e, b) \<Rightarrow> (Err e, b, w)
      | (Ok (Some v), b) \<Rightarrow> (Ok v, b, w)
      | (Ok None, b) \<Rightarrow>
          (case load w of
             (Err e, w) \<Rightarrow> (Err (Loader e), b, w)
           | (Ok v, w) \<Rightarrow>
               (case cache_set_for bset enc oc t2 key ttl v b of
                  (Err e, b) \<Rightarrow> (Err e, b, w)
                | (Ok _, b) \<Rightarrow> (Ok v, b, w))))"

section \<open>Properties\<close>

text \<open>C17: whatever the in-process backend drops on its own account, a value it serves for a key
  after any history of calls was written for that very key, by the last write that a
  successful delete did not undo, and its TTL is not over.\<close>

theorem memory_backend_serves_live_values:
  assumes "run_calls memory_get (memory_set_result instant_max) memory_delete h (memory_new evictions) = (lg, m)"
    and "\<forall>c \<in> set h. fst c \<le> t" and "memory_get t k m = (Ok (Some v), m')"
  shows "served (\<lambda>d. d) t k (rev lg) v"
proof -
  have "memory_holds m t k = Some v"
    using memory.get_answer [OF assms(3)] by simp
  moreover have "memory_holds (memory_new evictions) t k = None" for k
    by (simp add: memory_holds_def memory_new_def)
  ultimately show ?thesis
    using memory.holds_served [OF assms(1,2), of k v "[]"] by simp
qed

lemma memory_set_no_eviction:
  assumes "mb_evictions m = (\<lambda>_. {})" and "now + ttl \<le> instant_max"
  shows "memory_set_result instant_max now k v ttl m =
    (Ok (), m\<lparr>mb_entries := (mb_entries m)(k \<mapsto> \<lparr>st_bytes = v, st_expires_at = now + ttl\<rparr>)\<rparr>)"
  using assms by (cases m) (auto simp: memory_set_result_def memory_set_def moka_evict_def restrict_map_def)

lemma memory_get_no_eviction:
  assumes "mb_evictions m = (\<lambda>_. {})"
  shows "fst (memory_get now k m) = Ok (memory_holds m now k)"
  using assms by (cases m) (auto simp: memory_get_def memory_holds_def moka_evict_def split: option.splits)

lemma memory_set_for_no_eviction:
  assumes "mb_evictions m = (\<lambda>_. {})" and "now + ttl \<le> instant_max" and "enc v = Ok bytes"
    and "namespaced_key (oc_namespace oc) key = Ok k"
  shows "snd (cache_set_for (memory_set_result instant_max) enc oc now key ttl v m) =
    m\<lparr>mb_entries := (mb_entries m)(k \<mapsto> \<lparr>st_bytes = bytes, st_expires_at = now + ttl\<rparr>)\<rparr>"
  using assms(3,4) by (simp add: cache_set_for_def memory_set_no_eviction [OF assms(1,2)])

text \<open>a value the cache stores under a key that fits is read back unchanged until its TTL is
  over and is a miss from then on, as long as the in-process cache drops nothing itself and
  decoding inverts encoding.\<close>

theorem cache_set_get_roundtrip:
  assumes "mb_evictions m = (\<lambda>_. {})" and "now + ttl \<le> instant_max"
    and "enc v = Ok bytes" and "dec bytes = Ok v" and "namespaced_key (oc_namespace oc) key = Ok k"
  shows "fst (cache_get memory_get dec oc now' key
      (snd (cache_set_for (memory_set_result instant_max) enc oc now key ttl v m))) =
    (Ok (if now' < now + ttl then Some v else None) :: (('enc, 'dec, 'load) cache_error, 't option) result)"
proof -
  let ?m = "m\<lparr>mb_entries := (mb_entries m)(k \<mapsto> \<lparr>st_bytes = bytes, st_expires_at = now + ttl\<rparr>)\<rparr>"
  have get: "fst (memory_get now' k ?m) = Ok (if now' < now + ttl then Some bytes else None)"
    using memory_get_no_eviction [of ?m now' k] assms(1) by (simp add: memory_holds_def not_less)
  show ?thesis
    unfolding memory_set_for_no_eviction [where enc = enc and v = v, OF assms(1,2,3,5)]
    using get assms(4,5) by (cases "memory_get now' k ?m") (auto simp: cache_get_def)
qed

text \<open>without single flight, \<open>get_or_load\<close> returns a decodable cached value without running
  the loader; on a miss it runs the loader once, returns the loader's value only if it could
  also be stored, and passes every error on; after an error of the read the loader does not
  run.\<close>

theorem get_or_load_outcomes:
  assumes "get_or_load_without_single_flight bget bset dec enc oc t1 t2 key ttl load (b, w) = (r, b', w')"
  shows "case cache_get bget dec oc t1 key b of
      (Ok (Some v), b1) \<Rightarrow> r = Ok v \<and> b' = b1 \<and> w' = w
    | (Err e, b1) \<Rightarrow> r = Err e \<and> b' = b1 \<and> w' = w
    | (Ok None, b1) \<Rightarrow> w' = snd (load w) \<and>
        (case fst (load w) of
           Err e \<Rightarrow> r = Err (Loader e) \<and> b' = b1
         | Ok v \<Rightarrow> (case cache_set_for bset enc oc t2 key ttl v b1 of
             (Ok _, b2) \<Rightarrow> r = Ok v \<and> b' = b2
           | (Err e, b2) \<Rightarrow> r = Err e \<and> b' = b2))"
  using assms
  by (auto simp: get_or_load_without_single_flight_def split: sum.splits option.splits prod.splits)

text \<open>the expiry the remote backends are given is a whole number of seconds, at least one,
  never more than the TTL when that is at least a second, and for Memcached within
  \<open>u32\<close>.\<close>

theorem remote_expiry_bounds:
  "1 \<le> redis_expiry_secs ttl \<and> 1 \<le> memcached_expiration ttl \<and> memcached_expiration ttl \<le> u32_max \<and>
   (10 ^ 9 \<le> ttl \<longrightarrow> from_secs (redis_expiry_secs ttl) \<le> ttl \<and> from_secs (memcached_expiration ttl) \<le> ttl)"
proof -
  define s where "s = as_secs ttl"
  have le: "s * 10 ^ 9 \<le> ttl" by (simp add: s_def as_secs_def)
  have pos: "1 \<le> s" if "10 ^ 9 \<le> ttl"
    using div_le_mono [OF that, of "10 ^ 9"] by (simp add: s_def as_secs_def)
  have m: "memcached_expiration ttl = min (max s 1) u32_max"
    by (simp add: memcached_expiration_def s_def Let_def min_def)
  have r: "redis_expiry_secs ttl = max s 1" by (simp add: redis_expiry_secs_def s_def)
  have u: "1 \<le> u32_max" by (simp add: u32_max_def)
  have "from_secs (min (max s 1) u32_max) \<le> from_secs (max s 1)" unfolding from_secs_def by (rule mult_le_mono1) simp
  moreover have "from_secs (max s 1) \<le> ttl" if "10 ^ 9 \<le> ttl"
    using le pos [OF that] by (simp add: from_secs_def max_def)
  ultimately show ?thesis using u unfolding m r by (auto intro: order_trans)
qed

section \<open>Concrete instances\<close>

definition demo_cache :: object_cache where
  "demo_cache = \<lparr>oc_namespace = ''api'', oc_default_ttl = 60, oc_single_flight = False\<rparr>"

lemma demo_key: "namespaced_key (oc_namespace demo_cache) (cache_key_new ''products'') = Ok ''api:products''"
  by code_simp

lemma memory_backend_serves_live_values_witness:
  "served (\<lambda>d. d) 5 ''k'' (rev [(1, CSet ''k'' ''v'' 10, True)]) ''v''"
proof (rule memory_backend_serves_live_values)
  show "run_calls memory_get (memory_set_result 100) memory_delete [(1, CSet ''k'' ''v'' 10)] (memory_new (\<lambda>_. {})) =
      ([(1, CSet ''k'' ''v'' 10, True)],
       \<lparr>mb_entries = [''k'' \<mapsto> \<lparr>st_bytes = ''v'', st_expires_at = 11\<rparr>], mb_evictions = \<lambda>_. {}\<rparr>)"
    by (simp add: memory_new_def memory_set_no_eviction)
  show "memory_get 5 ''k'' \<lparr>mb_entries = [''k'' \<mapsto> \<lparr>st_bytes = ''v'', st_expires_at = 11\<rparr>], mb_evictions = \<lambda>_. {}\<rparr> =
      (Ok (Some ''v''), \<lparr>mb_entries = [''k'' \<mapsto> \<lparr>st_bytes = ''v'', st_expires_at = 11\<rparr>], mb_evictions = \<lambda>_. {}\<rparr>)"
    by (simp add: memory_get_def moka_evict_def)
qed simp

lemma cache_set_get_roundtrip_witness:
  "fst (cache_get memory_get (\<lambda>s. Ok s) demo_cache 4 (cache_key_new ''products'')
     (snd (cache_set_for (memory_set_result 100) (\<lambda>s. Ok s) demo_cache 1 (cache_key_new ''products'') 10
       ''[1]'' (memory_new (\<lambda>_. {}))))) =
   (Ok (Some ''[1]'') :: ((unit, unit, unit) cache_error, string option) result)"
  by (subst cache_set_get_roundtrip [OF _ _ _ _ demo_key]) (simp_all add: memory_new_def)

lemma demo_miss:
  "cache_get memory_get (\<lambda>s. Ok s) demo_cache 1 (cache_key_new ''products'') (memory_new (\<lambda>_. {})) =
    (Ok None, memory_new (\<lambda>_. {}))"
  by (simp add: cache_get_def demo_key memory_get_def memory_new_def moka_evict_def)

lemma get_or_load_outcomes_witness:
  "snd (snd (get_or_load_without_single_flight memory_get (memory_set_result 100) (\<lambda>s. Ok s) (\<lambda>s. Ok s) demo_cache 1 2
     (cache_key_new ''products'') 10 (\<lambda>n. (Ok ''fresh'', n + 1)) (memory_new (\<lambda>_. {}), 0)
       :: ((unit, unit, unit) cache_error, string) result \<times> memory_backend \<times> nat)) = 1"
proof -
  obtain b' w' and r :: "((unit, unit, unit) cache_error, string) result" where run: "get_or_load_without_single_flight memory_get (memory_set_result 100) (\<lambda>s. Ok s)
      (\<lambda>s. Ok s) demo_cache 1 2 (cache_key_new ''products'') 10 (\<lambda>n. (Ok ''fresh'', n + 1))
      (memory_new (\<lambda>_. {}), 0) = (r, b', w' :: nat)" by (metis prod_cases3)
  from get_or_load_outcomes [OF this] have "w' = 1" unfolding demo_miss by simp
  then show ?thesis using run by simp
qed

end
