(* ===== verification/Response_Cache.thy ===== *)
theory Response_Cache
  imports Http Cache_Store
begin

text \<open>
  Whole-response caching (\<open>cache.rs\<close>): the policy, the key of a request, what is stored, how
  a stored response is replayed, and the middleware around a route.

  The backend operations, the codec of the stored record (serde), and the parsers of header
  names and values (\<open>http\<close>) are arguments; the route's handler acts on the world.
\<close>

section \<open>Policy and key\<close>

datatype response_cache_scope = PublicScope | PerAuthorization

record response_cache_policy =
  rp_ttl :: duration
  rp_scope :: response_cache_scope
  rp_max_body_bytes :: nat
  rp_vary_headers :: "string list"

definition DEFAULT_RESPONSE_CACHE_BODY_BYTES :: nat where
  "DEFAULT_RESPONSE_CACHE_BODY_BYTES = 2 * 1024 * 1024"

definition policy_public :: "duration \<Rightarrow> response_cache_policy" where
  "policy_public ttl = \<lparr>rp_ttl = ttl, rp_scope = PublicScope,
     rp_max_body_bytes = DEFAULT_RESPONSE_CACHE_BODY_BYTES, rp_vary_headers = []\<rparr>"

definition policy_per_authorization :: "duration \<Rightarrow> response_cache_policy" where
  "policy_per_authorization ttl = \<lparr>rp_ttl = ttl, rp_scope = PerAuthorization,
     rp_max_body_bytes = DEFAULT_RESPONSE_CACHE_BODY_BYTES, rp_vary_headers = []\<rparr>"

definition vary_by_header :: "string \<Rightarrow> response_cache_policy \<Rightarrow> response_cache_policy" where
  "vary_by_header n p = p\<lparr>rp_vary_headers := rp_vary_headers p @ [n]\<rparr>"

definition max_body_bytes :: "nat \<Rightarrow> response_cache_policy \<Rightarrow> response_cache_policy" where
  "max_body_bytes n p = p\<lparr>rp_max_body_bytes := n\<rparr>"

definition request_target :: "request \<Rightarrow> string" where
  "request_target rq = (case rq_path_and_query rq of Some pq \<Rightarrow> pq | None \<Rightarrow> rq_path rq)"

definition vary_value :: "request \<Rightarrow> string \<Rightarrow> string" where
  "vary_value rq n = (case hget_str n (rq_headers rq) of Some v \<Rightarrow> v | None \<Rightarrow> [])"

definition response_cache_key :: "response_cache_policy \<Rightarrow> request \<Rightarrow> (key_error, cache_key) result" where
  "response_cache_key policy rq =
     (let key = cache_key_part (cache_key_part (cache_key_new ''response'') (rq_method rq)) (request_target rq);
          scoped = (case rp_scope policy of
             PublicScope \<Rightarrow> Ok (cache_key_part key ''public'')
           | PerAuthorization \<Rightarrow>
               (case hget ''authorization'' (rq_headers rq) of
                  None \<Rightarrow> Err MissingAuthorization
                | Some v \<Rightarrow> Ok (cache_key_part key (show_nat (unat (stable_hash (hv_bytes v)))))))
      in case scoped of
           Err e \<Rightarrow> Err e
         | Ok key \<Rightarrow>
             Ok (fold (\<lambda>n key. cache_key_part (cache_key_part key n) (vary_value rq n)) (rp_vary_headers policy) key))"

section \<open>What is stored\<close>

record cached_http_response =
  ch_status :: nat
  ch_headers :: "(string \<times> string) list"
  ch_body :: string

definition is_cacheable_method :: "string \<Rightarrow> bool" where
  "is_cacheable_method m \<longleftrightarrow> m = ''GET'' \<or> m = ''HEAD''"

definition should_store_response :: "nat \<Rightarrow> headers \<Rightarrow> nat \<Rightarrow> response_cache_policy \<Rightarrow> bool" where
  "should_store_response status h body_size policy \<longleftrightarrow>
     is_success status \<and> body_size \<le> rp_max_body_bytes policy \<and>
     \<not> (case hget_str ''cache-control'' h of
          Some v \<Rightarrow> contains_sub ''no-store'' (to_ascii_lowercase v) | None \<Rightarrow> False) \<and>
     \<not> hcontains ''set-cookie'' h"

definition is_cacheable_response_header :: "string \<Rightarrow> bool" where
  "is_cacheable_response_header n \<longleftrightarrow>
     n \<notin> {''connection'', ''keep-alive'', ''proxy-authenticate'', ''proxy-authorization'', ''te'',
       ''trailer'', ''transfer-encoding'', ''upgrade'', ''set-cookie''}"

fun header_texts :: "headers \<Rightarrow> (string \<times> string) list" where
  "header_texts [] = []"
| "header_texts ((n, v) # h) =
     (case hv_str v of Some s \<Rightarrow> (n, s) # header_texts h | None \<Rightarrow> header_texts h)"

definition cacheable_response_headers :: "headers \<Rightarrow> (string \<times> string) list" where
  "cacheable_response_headers h = header_texts (filter (\<lambda>p. is_cacheable_response_header (fst p)) h)"

section \<open>Replay and middleware\<close>

definition mark_cache_status :: "string \<Rightarrow> response \<Rightarrow> response" where
  "mark_cache_status status rs = rs\<lparr>rs_headers := hinsert ''x-cache'' (hv_static status) (rs_headers rs)\<rparr>"

definition replay_header ::
  "(string \<Rightarrow> string option) \<Rightarrow> (string \<Rightarrow> header_value option) \<Rightarrow> string \<times> string \<Rightarrow> headers \<Rightarrow> headers" where
  "replay_header hname hvalue p h =
     (case (hname (fst p), hvalue (snd p)) of
        (Some n, Some v) \<Rightarrow> hinsert n v h
      | _ \<Rightarrow> h)"

definition cached_response ::
  "(string \<Rightarrow> string option) \<Rightarrow> (string \<Rightarrow> header_value option) \<Rightarrow> cached_http_response \<Rightarrow> string \<Rightarrow> response" where
  "cached_response hname hvalue cached cache_status =
     mark_cache_status cache_status
       \<lparr>rs_status = (if 100 \<le> ch_status cached \<and> ch_status cached \<le> 999 then ch_status cached else 200),
        rs_headers = fold (replay_header hname hvalue) (ch_headers cached) [],
        rs_body = Some (ch_body cached)\<rparr>"

definition stored_response :: "response \<Rightarrow> string \<Rightarrow> cached_http_response" where
  "stored_response rs body =
     \<lparr>ch_status = rs_status rs, ch_headers = cacheable_response_headers (rs_headers rs), ch_body = body\<rparr>"

text \<open>\<open>t1\<close> and \<open>t2\<close> are the times of the cache read and of the write.\<close>

definition response_cache_middleware ::
  "(time \<Rightarrow> string \<Rightarrow> 'b \<Rightarrow> (string, string option) result \<times> 'b) \<Rightarrow>
   (time \<Rightarrow> string \<Rightarrow> string \<Rightarrow> duration \<Rightarrow> 'b \<Rightarrow> (string, unit) result \<times> 'b) \<Rightarrow>
   (string \<Rightarrow> ('dec, cached_http_response) result) \<Rightarrow> (cached_http_response \<Rightarrow> ('enc, string) result) \<Rightarrow>
   (string \<Rightarrow> string option) \<Rightarrow> (string \<Rightarrow> header_value option) \<Rightarrow>
   object_cache \<Rightarrow> response_cache_policy \<Rightarrow> time \<Rightarrow> time \<Rightarrow>
   (request \<Rightarrow> 'w \<Rightarrow> response \<times> 'w) \<Rightarrow> request \<Rightarrow> 'b \<times> 'w \<Rightarrow> response \<times> 'b \<times> 'w" where
  "response_cache_middleware bget bset dec enc hname hvalue oc policy t1 t2 next_run rq s =
     (let (b, w) = s in
      if \<not> is_cacheable_method (rq_method rq) then
        (let (rs, w) = next_run rq w in (mark_cache_status ''BYPASS'' rs, b, w))
      else case response_cache_key policy rq of
        Err _ \<Rightarrow> (let (rs, w) = next_run rq w in (mark_cache_status ''BYPASS'' rs, b, w))
      | Ok key \<Rightarrow>
          (let (r, b) = cache_get bget dec oc t1 key b ::
             (('enc, 'dec, unit) cache_error, cached_http_response option) result \<times> 'b in
           case r of
             Ok (Some cached) \<Rightarrow> (cached_response hname hvalue cached ''HIT'', b, w)
           | _ \<Rightarrow>
             (let (rs, w) = next_run rq w in
              case rs_body rs of
                None \<Rightarrow> (mark_cache_status ''BYPASS'' (rs\<lparr>rs_body := Some []\<rparr>), b, w)
              | Some body \<Rightarrow>
                  if should_store_response (rs_status rs) (rs_headers rs) (length body) policy then
                    (let (_, b) = cache_set_for bset enc oc t2 key (rp_ttl policy) (stored_response rs body) b ::
                       (('enc, 'dec, unit) cache_error, unit) result \<times> 'b
                     in (mark_cache_status ''MISS'' rs, b, w))
                  else (mark_cache_status ''BYPASS'' rs, b, w))))"

text \<open>The two stretches of the middleware around the route: up to \<open>next.run\<close>, and after it.\<close>

datatype cache_turn = Serve response | RunRoute "cache_key option"

definition lookup_phase ::
  "(time \<Rightarrow> string \<Rightarrow> 'b \<Rightarrow> (string, string option) result \<times> 'b) \<Rightarrow> (string \<Rightarrow> ('dec, cached_http_response) result) \<Rightarrow>
   (string \<Rightarrow> string option) \<Rightarrow> (string \<Rightarrow> header_value option) \<Rightarrow>
   object_cache \<Rightarrow> response_cache_policy \<Rightarrow> time \<Rightarrow> request \<Rightarrow> 'b \<Rightarrow> cache_turn \<times> 'b" where
  "lookup_phase bget dec hname hvalue oc policy t rq b =
     (if \<not> is_cacheable_method (rq_method rq) then (RunRoute None, b)
      else case response_cache_key policy rq of
        Err _ \<Rightarrow> (RunRoute None, b)
      | Ok key \<Rightarrow>
          (case cache_get bget dec oc t key b :: ((unit, 'dec, unit) cache_error, cached_http_response option) result \<times> 'b of
             (Ok (Some cached), b) \<Rightarrow> (Serve (cached_response hname hvalue cached ''HIT''), b)
           | (_, b) \<Rightarrow> (RunRoute (Some key), b)))"

definition store_phase ::
  "(time \<Rightarrow> string \<Rightarrow> string \<Rightarrow> duration \<Rightarrow> 'b \<Rightarrow> (string, unit) result \<times> 'b) \<Rightarrow>
   (cached_http_response \<Rightarrow> ('enc, string) result) \<Rightarrow> object_cache \<Rightarrow> response_cache_policy \<Rightarrow> time \<Rightarrow>
   cache_key option \<Rightarrow> response \<Rightarrow> 'b \<Rightarrow> response \<times> 'b" where
  "store_phase bset enc oc policy t turn rs b =
     (case turn of
        None \<Rightarrow> (mark_cache_status ''BYPASS'' rs, b)
      | Some key \<Rightarrow>
          (case rs_body rs of
             None \<Rightarrow> (mark_cache_status ''BYPASS'' (rs\<lparr>rs_body := Some []\<rparr>), b)
           | Some body \<Rightarrow>
               if should_store_response (rs_status rs) (rs_headers rs) (length body) policy then
                 (mark_cache_status ''MISS'' rs,
                  snd (cache_set_for bset enc oc t key (rp_ttl policy) (stored_response rs body) b ::
                    (('enc, unit, unit) cache_error, unit) result \<times> 'b))
               else (mark_cache_status ''BYPASS'' rs, b)))"

section \<open>The key\<close>

lemma show_hash_inj: "show_nat (unat a) = show_nat (unat b) \<longleftrightarrow> a = b" for a b :: "64 word"
  by (metis digits_val_show_nat word_unat_eq_iff)

definition vary_parts :: "response_cache_policy \<Rightarrow> request \<Rightarrow> string list" where
  "vary_parts policy rq = concat (map (\<lambda>n. [n, vary_value rq n]) (rp_vary_headers policy))"

lemma fold_parts:
  "fold (\<lambda>n key. cache_key_part (cache_key_part key n) (f n)) ns key =
     foldl cache_key_part key (concat (map (\<lambda>n. [n, f n]) ns))"
  by (induction ns arbitrary: key) simp_all

lemma fold_vary:
  "fold (\<lambda>n key. cache_key_part (cache_key_part key n) (f n)) ns (cache_key_of area parts) =
     cache_key_of area (parts @ concat (map (\<lambda>n. [n, f n]) ns))"
  by (simp add: fold_parts cache_key_of_def)

lemma response_cache_key_parts:
  "response_cache_key policy rq =
     (case (rp_scope policy, hget ''authorization'' (rq_headers rq)) of
        (PublicScope, _) \<Rightarrow>
          Ok (cache_key_of ''response'' ([rq_method rq, request_target rq, ''public''] @ vary_parts policy rq))
      | (PerAuthorization, None) \<Rightarrow> Err MissingAuthorization
      | (PerAuthorization, Some v) \<Rightarrow>
          Ok (cache_key_of ''response'' ([rq_method rq, request_target rq,
            show_nat (unat (stable_hash (hv_bytes v)))] @ vary_parts policy rq)))"
proof -
  have a: "cache_key_part (cache_key_part (cache_key_part (cache_key_new x) y) z) u = cache_key_of x [y, z, u]"
    for x y z u by (simp add: cache_key_of_def)
  show ?thesis
    unfolding response_cache_key_def Let_def a vary_parts_def
    by (simp add: fold_vary split: response_cache_scope.splits option.splits)
qed

lemma vary_parts_eq:
  "vary_parts policy rq = vary_parts policy rq' \<longleftrightarrow>
     (\<forall>n \<in> set (rp_vary_headers policy). vary_value rq n = vary_value rq' n)"
proof -
  have "concat (map (\<lambda>n. [n, f n]) ns) = concat (map (\<lambda>n. [n, g n]) ns) \<longleftrightarrow> (\<forall>n \<in> set ns. f n = g n)"
    for f g :: "string \<Rightarrow> string" and ns by (induction ns) auto
  then show ?thesis by (simp add: vary_parts_def)
qed

text \<open>What two requests with one entry agree on.\<close>

definition same_entry :: "response_cache_policy \<Rightarrow> request \<Rightarrow> request \<Rightarrow> bool" where
  "same_entry policy rq rq' \<longleftrightarrow>
     rq_method rq = rq_method rq' \<and> request_target rq = request_target rq' \<and>
     (\<forall>n \<in> set (rp_vary_headers policy). vary_value rq n = vary_value rq' n) \<and>
     (rp_scope policy = PerAuthorization \<longrightarrow>
       (\<exists>v v'. hget ''authorization'' (rq_headers rq) = Some v \<and> hget ''authorization'' (rq_headers rq') = Some v' \<and>
         stable_hash (hv_bytes v) = stable_hash (hv_bytes v')))"

lemma response_cache_key_eq:
  assumes "response_cache_key policy rq = Ok key" and "response_cache_key policy rq' = Ok key'"
  shows "key = key' \<longleftrightarrow> same_entry policy rq rq'"
  using assms unfolding response_cache_key_parts same_entry_def
  by (auto simp: cache_key_of_inj show_hash_inj vary_parts_eq split: response_cache_scope.splits option.splits)

text \<open>C30: under one policy two requests share a cache entry exactly when they agree on the
  method, the path with its query, every header the policy varies by and, when the scope is
  per authorization, on the 64-bit hash of the \<open>Authorization\<close> value; a request without
  that header gets no key at all.\<close>

theorem response_cache_key_shared:
  assumes "response_cache_key policy rq = Ok key" and "response_cache_key policy rq' = Ok key'"
  shows "key = key' \<longleftrightarrow> rq_method rq = rq_method rq' \<and> request_target rq = request_target rq' \<and>
    (\<forall>n \<in> set (rp_vary_headers policy). vary_value rq n = vary_value rq' n) \<and>
    (rp_scope policy = PerAuthorization \<longrightarrow>
      (\<exists>v v'. hget ''authorization'' (rq_headers rq) = Some v \<and> hget ''authorization'' (rq_headers rq') = Some v' \<and>
        stable_hash (hv_bytes v) = stable_hash (hv_bytes v')))"
  using response_cache_key_eq [OF assms] by (simp add: same_entry_def)

text \<open>the hash is not collision free: two well-formed \<open>Authorization\<close> values can share it,
  and then one client is served the response cached for the other.\<close>

theorem per_authorization_collision:
  "stable_hash ''8yn0iYCKYHlIj4-BwPqk'' = stable_hash ''GReLUrM4wMqfg9yzV3KQ'' \<and>
   response_cache_key (policy_per_authorization ttl)
     \<lparr>rq_method = ''GET'', rq_path = p, rq_path_and_query = pq,
      rq_headers = [(''authorization'', hv_static ''8yn0iYCKYHlIj4-BwPqk'')]\<rparr> =
   response_cache_key (policy_per_authorization ttl)
     \<lparr>rq_method = ''GET'', rq_path = p, rq_path_and_query = pq,
      rq_headers = [(''authorization'', hv_static ''GReLUrM4wMqfg9yzV3KQ'')]\<rparr>"
proof -
  have "stable_hash ''8yn0iYCKYHlIj4-BwPqk'' = stable_hash ''GReLUrM4wMqfg9yzV3KQ''" by code_simp
  then show ?thesis
    by (simp add: response_cache_key_def policy_per_authorization_def Let_def hget_def hv_static_def
        request_target_def split: option.split)
qed

section \<open>Replay\<close>

text \<open>The values of a header that survive storing: those that are text.\<close>

definition texts_of :: "string \<Rightarrow> headers \<Rightarrow> string list" where
  "texts_of n h = map snd (filter (\<lambda>p. fst p = n) (header_texts h))"

lemma fold_replay:
  assumes "\<And>p. p \<in> set ps \<Longrightarrow> hname (fst p) = Some (fst p) \<and> hvalue (snd p) = Some (hv_static (snd p))"
  shows "hget_all n (fold (replay_header hname hvalue) ps h) =
    (case map snd (filter (\<lambda>p. fst p = n) ps) of [] \<Rightarrow> hget_all n h | vs \<Rightarrow> [hv_static (last vs)])"
  using assms
proof (induction ps arbitrary: h)
  case (Cons p ps)
  have "replay_header hname hvalue p h = hinsert (fst p) (hv_static (snd p)) h"
    using Cons.prems [of p] by (simp add: replay_header_def)
  then show ?case using Cons by (auto split: list.splits)
qed simp

lemma header_texts_filter:
  "filter (\<lambda>p. fst p = n) (header_texts (filter (\<lambda>p. P (fst p)) h)) =
     (if P n then filter (\<lambda>p. fst p = n) (header_texts h) else [])"
  by (induction h rule: header_texts.induct) (auto split: option.splits)

text \<open>C33: a response that is stored and replayed comes back with its status, its body and, for
  every header name, one value: the last textual one it had.  Hop-by-hop headers and
  \<open>Set-Cookie\<close> are gone, and of a header that was sent with several values all but the last
  are lost.\<close>

theorem replayed_response:
  assumes "100 \<le> rs_status rs \<and> rs_status rs \<le> 999"
    and "\<And>p. p \<in> set (header_texts (rs_headers rs)) \<Longrightarrow>
      hname (fst p) = Some (fst p) \<and> hvalue (snd p) = Some (hv_static (snd p))"
  shows "rs_status (cached_response hname hvalue (stored_response rs body) ''HIT'') = rs_status rs \<and>
    rs_body (cached_response hname hvalue (stored_response rs body) ''HIT'') = Some body \<and>
    (\<forall>n. hget_all n (rs_headers (cached_response hname hvalue (stored_response rs body) ''HIT'')) =
      (if n = ''x-cache'' then [hv_static ''HIT'']
       else if is_cacheable_response_header n then
         (case texts_of n (rs_headers rs) of [] \<Rightarrow> [] | vs \<Rightarrow> [hv_static (last vs)])
       else []))"
proof -
  have "p \<in> set (header_texts (filter P h)) \<Longrightarrow> p \<in> set (header_texts h)" for p P and h :: headers
    by (induction h rule: header_texts.induct) (auto split: option.splits if_splits)
  then have sub: "p \<in> set (cacheable_response_headers (rs_headers rs)) \<Longrightarrow> p \<in> set (header_texts (rs_headers rs))" for p
    unfolding cacheable_response_headers_def by blast
  have "hget_all n (fold (replay_header hname hvalue) (cacheable_response_headers (rs_headers rs)) []) =
      (if is_cacheable_response_header n then
         (case texts_of n (rs_headers rs) of [] \<Rightarrow> [] | vs \<Rightarrow> [hv_static (last vs)]) else [])" for n
    using fold_replay [of "cacheable_response_headers (rs_headers rs)" hname hvalue n "[]"] assms(2) sub
    unfolding cacheable_response_headers_def header_texts_filter texts_of_def
    by (auto simp: hget_all_def split: list.splits)
  then show ?thesis
    using assms(1) by (simp add: cached_response_def mark_cache_status_def stored_response_def)
qed

section \<open>The middleware\<close>

text \<open>The three ways a request goes: answered from the cache, past it, or through it into the cache.\<close>

lemma response_cache_cases:
  fixes enc :: "cached_http_response \<Rightarrow> ('enc, string) result" and dec :: "string \<Rightarrow> ('dec, cached_http_response) result"
    and b :: 'b
  assumes "response_cache_middleware bget bset dec enc hname hvalue oc policy t1 t2 next_run rq (b, w) = (rs, b', w')"
    and run: "next_run rq w = (rs0, w1)"
  obtains (hit) cached where "rs = cached_response hname hvalue cached ''HIT''" "w' = w"
  | (bypass) rs1 where "rs = mark_cache_status ''BYPASS'' rs1" "rs1 = rs0 \<or> rs_body rs0 = None \<and> rs1 = rs0\<lparr>rs_body := Some []\<rparr>"
      "w' = w1" "b' = b \<or> (\<exists>key. b' = snd (cache_get bget dec oc t1 key b ::
        (('enc, 'dec, unit) cache_error, cached_http_response option) result \<times> 'b))"
  | (miss) body where "rs = mark_cache_status ''MISS'' rs0" "w' = w1" "rs_body rs0 = Some body"
      "is_cacheable_method (rq_method rq)" "should_store_response (rs_status rs0) (rs_headers rs0) (length body) policy"
proof (cases "is_cacheable_method (rq_method rq) \<and> (\<exists>key. response_cache_key policy rq = Ok key)")
  case False
  then have "rs = mark_cache_status ''BYPASS'' rs0" "w' = w1" "b' = b"
    using assms by (auto simp: response_cache_middleware_def split: sum.splits if_splits)
  then show thesis by (intro bypass [of rs0]) simp_all
next
  case True
  then obtain key where cacheable: "is_cacheable_method (rq_method rq)" and key: "response_cache_key policy rq = Ok key"
    by blast
  obtain r b1 where get: "(cache_get bget dec oc t1 key b ::
      (('enc, 'dec, unit) cache_error, cached_http_response option) result \<times> 'b) = (r, b1)" by fastforce
  show thesis
  proof (cases "\<exists>cached. r = Ok (Some cached)")
    case True
    then show thesis using assms cacheable key get hit by (auto simp: response_cache_middleware_def)
  next
    case False
    then have "(case rs_body rs0 of
              None \<Rightarrow> (mark_cache_status ''BYPASS'' (rs0\<lparr>rs_body := Some []\<rparr>), b1, w1)
            | Some body \<Rightarrow>
                if should_store_response (rs_status rs0) (rs_headers rs0) (length body) policy then
                  (let (_, b) = cache_set_for bset enc oc t2 key (rp_ttl policy) (stored_response rs0 body) b1 ::
                     (('enc, 'dec, unit) cache_error, unit) result \<times> 'b
                   in (mark_cache_status ''MISS'' rs0, b, w1))
                else (mark_cache_status ''BYPASS'' rs0, b1, w1)) = (rs, b', w')"
      using assms cacheable key get
      by (cases r) (auto simp: response_cache_middleware_def split: option.splits)
    moreover have "b1 = snd (cache_get bget dec oc t1 key b ::
      (('enc, 'dec, unit) cache_error, cached_http_response option) result \<times> 'b)" using get by simp
    ultimately show thesis
      using cacheable bypass [of rs0] bypass [of "rs0\<lparr>rs_body := Some []\<rparr>"] miss
      by (auto split: option.splits if_splits prod.splits)
  qed
qed

text \<open>a hit is answered from the cache without running the handler; any other request runs
  the handler exactly once and is answered with its status and headers (its body too, unless
  reading it fails), whatever the cache does; and the cache is written only for a response
  with a success status, a body within the limit, no \<open>no-store\<close> and no cookie.\<close>

theorem response_cache_middleware_safe:
  fixes enc :: "cached_http_response \<Rightarrow> ('enc, string) result" and dec :: "string \<Rightarrow> ('dec, cached_http_response) result"
    and b :: 'b
  assumes "response_cache_middleware bget bset dec enc hname hvalue oc policy t1 t2 next_run rq (b, w) = (rs, b', w')"
  shows "(\<exists>cached. rs = cached_response hname hvalue cached ''HIT'' \<and> w' = w) \<or>
    (\<exists>rs0 status. next_run rq w = (rs0, w') \<and> rs_status rs = rs_status rs0 \<and>
      rs_headers rs = hinsert ''x-cache'' (hv_static status) (rs_headers rs0) \<and>
      (\<forall>body. rs_body rs0 = Some body \<longrightarrow> rs_body rs = Some body) \<and>
      (if status = ''MISS''
       then \<exists>body. rs_body rs0 = Some body \<and> is_cacheable_method (rq_method rq) \<and>
         should_store_response (rs_status rs0) (rs_headers rs0) (length body) policy
       else status = ''BYPASS'' \<and>
         (b' = b \<or> (\<exists>key. b' = snd (cache_get bget dec oc t1 key b ::
            (('enc, 'dec, unit) cache_error, cached_http_response option) result \<times> 'b)))))"
proof -
  obtain rs0 w1 where run: "next_run rq w = (rs0, w1)" by fastforce
  from assms run show ?thesis
  proof (cases rule: response_cache_cases)
    case hit
    then show ?thesis by blast
  next
    case (bypass rs1)
    then show ?thesis
      by (intro disjI2 exI [of _ rs0] exI [of _ "''BYPASS''"]) (use run in \<open>auto simp: mark_cache_status_def\<close>)
  next
    case (miss body)
    then show ?thesis
      by (intro disjI2 exI [of _ rs0] exI [of _ "''MISS''"]) (use run in \<open>auto simp: mark_cache_status_def\<close>)
  qed
qed

section \<open>Concrete instances\<close>

definition demo_request :: "string \<Rightarrow> request" where
  "demo_request target = \<lparr>rq_method = ''GET'', rq_path = ''/products'', rq_path_and_query = Some target,
     rq_headers = [(''accept-language'', hv_static ''de'')]\<rparr>"

lemma response_cache_key_shared_witness:
  "response_cache_key (policy_public 5) (demo_request ''/products?page=1'') \<noteq>
   response_cache_key (policy_public 5) (demo_request ''/products?page=2'')"
proof -
  obtain k1 k2 where k: "response_cache_key (policy_public 5) (demo_request ''/products?page=1'') = Ok k1"
    "response_cache_key (policy_public 5) (demo_request ''/products?page=2'') = Ok k2"
    by (simp add: response_cache_key_def policy_public_def)
  from response_cache_key_shared [OF k] have "k1 \<noteq> k2" by (simp add: demo_request_def request_target_def)
  then show ?thesis by (simp add: k)
qed

definition two_links :: response where
  "two_links = \<lparr>rs_status = 200, rs_headers = [(''link'', hv_static ''a''), (''link'', hv_static ''b'')],
     rs_body = Some ''[]''\<rparr>"

lemma replayed_response_witness:
  "hget_all ''link'' (rs_headers (cached_response Some (\<lambda>s. Some (hv_static s)) (stored_response two_links ''[]'') ''HIT'')) =
     [hv_static ''b''] \<and> length (hget_all ''link'' (rs_headers two_links)) = 2"
proof -
  have t: "header_texts (rs_headers two_links) = [(''link'', ''a''), (''link'', ''b'')]"
    by (simp add: two_links_def hv_static_def)
  have "is_cacheable_response_header ''link''" by (simp add: is_cacheable_response_header_def)
  then have "hget_all ''link'' (rs_headers (cached_response Some (\<lambda>s. Some (hv_static s)) (stored_response two_links ''[]'') ''HIT'')) =
     [hv_static ''b'']"
    by (subst replayed_response [THEN conjunct2, THEN conjunct2, rule_format])
      (simp_all add: texts_of_def t, simp add: two_links_def)
  then show ?thesis by (simp add: two_links_def hget_all_def)
qed

lemma response_cache_middleware_safe_witness:
  "snd (snd (response_cache_middleware memory_get (memory_set_result 100) (\<lambda>_. Err ()) (\<lambda>_. Err ()) Some
      (\<lambda>s. Some (hv_static s)) demo_cache (policy_public 5) 1 2 (\<lambda>rq n. (two_links, n + 1))
      (demo_request ''/products'') (memory_new (\<lambda>_. {}), 0 :: nat))) \<le> 1"
proof -
  obtain rs b' w' where run: "response_cache_middleware memory_get (memory_set_result 100) (\<lambda>_. Err ()) (\<lambda>_. Err ()) Some
      (\<lambda>s. Some (hv_static s)) demo_cache (policy_public 5) 1 2 (\<lambda>rq n. (two_links, n + 1))
      (demo_request ''/products'') (memory_new (\<lambda>_. {}), 0 :: nat) = (rs, b', w')" by (metis prod_cases3)
  from response_cache_middleware_safe [OF this] have "w' \<le> 1" by auto
  then show ?thesis unfolding run by simp
qed

end
