(* ===== verification/Response_History.thy ===== *)
theory Response_History
  imports Response_Cache
begin

text \<open>
  A route behind \<open>response_cache_middleware\<close> (\<open>cache.rs\<close>) under concurrent requests, as a step relation:
  a request looks up its key in one step and, after the route has answered, stores in another.  In between
  other requests, and other users of the same object cache, act on the backend.

  The route may answer anything.  Other users may read and delete any key and write every key that is not
  the key of some request under this policy.
\<close>

section \<open>The middleware in two phases\<close>

lemma cache_get_errors:
  fixes b b1 b2 :: 'b
  assumes "cache_get bget dec oc t key b = (r1 :: (('enc, 'dec, 'load) cache_error, 'v option) result, b1)"
    and "cache_get bget dec oc t key b = (r2 :: (('enc2, 'dec, 'load2) cache_error, 'v option) result, b2)"
  shows "b1 = b2" "r1 = Ok x \<longleftrightarrow> r2 = Ok x"
  using assms by (auto simp: cache_get_def split: sum.splits prod.splits option.splits)

lemma cache_set_for_errors:
  "snd (cache_set_for bset enc oc t key ttl v b :: (('enc, 'dec, 'load) cache_error, unit) result \<times> 'b) =
     snd (cache_set_for bset enc oc t key ttl v b :: (('enc, 'dec2, 'load2) cache_error, unit) result \<times> 'b)"
  by (auto simp: cache_set_for_def split: sum.splits prod.splits)

text \<open>The whole middleware is the two phases with the route in between.\<close>

lemma middleware_phases:
  fixes enc :: "cached_http_response \<Rightarrow> ('enc, string) result" and dec :: "string \<Rightarrow> ('dec, cached_http_response) result"
    and b :: 'b
  shows "response_cache_middleware bget bset dec enc hname hvalue oc policy t1 t2 next_run rq (b, w) =
     (case lookup_phase bget dec hname hvalue oc policy t1 rq b of
        (Serve rs, b) \<Rightarrow> (rs, b, w)
      | (RunRoute turn, b) \<Rightarrow>
          (let (rs, w) = next_run rq w; (rs, b) = store_phase bset enc oc policy t2 turn rs b in (rs, b, w)))"
proof (cases "is_cacheable_method (rq_method rq) \<and> (\<exists>key. response_cache_key policy rq = Ok key)")
  case False
  then show ?thesis
    by (auto simp: response_cache_middleware_def lookup_phase_def store_phase_def split: sum.splits)
next
  case True
  then obtain key where key: "is_cacheable_method (rq_method rq)" "response_cache_key policy rq = Ok key" by blast
  obtain r1 b1 where get1: "(cache_get bget dec oc t1 key b ::
      (('enc, 'dec, unit) cache_error, cached_http_response option) result \<times> 'b) = (r1, b1)" by fastforce
  obtain r2 b2 where get2: "(cache_get bget dec oc t1 key b ::
      ((unit, 'dec, unit) cache_error, cached_http_response option) result \<times> 'b) = (r2, b2)" by fastforce
  note same = cache_get_errors [OF get1 get2]
  have set: "snd (cache_set_for bset enc oc t2 k d v b :: (('enc, 'dec, unit) cache_error, unit) result \<times> 'b) =
      snd (cache_set_for bset enc oc t2 k d v b :: (('enc, unit, unit) cache_error, unit) result \<times> 'b)" for k d v b
    by (rule cache_set_for_errors)
  obtain rs0 w1 where run: "next_run rq w = (rs0, w1)" by fastforce
  show ?thesis
  proof (cases "\<exists>cached. r1 = Ok (Some cached)")
    case True
    then obtain cached where c: "r1 = Ok (Some cached)" by blast
    then have "r2 = Ok (Some cached)" using same(2) by blast
    then have "lookup_phase bget dec hname hvalue oc policy t1 rq b = (Serve (cached_response hname hvalue cached ''HIT''), b2)"
      by (simp add: lookup_phase_def key get2)
    moreover have "response_cache_middleware bget bset dec enc hname hvalue oc policy t1 t2 next_run rq (b, w) =
        (cached_response hname hvalue cached ''HIT'', b1, w)"
      by (simp add: response_cache_middleware_def key get1 c)
    ultimately show ?thesis using same(1) by simp
  next
    case False
    then have "r2 \<noteq> Ok (Some cached)" for cached using same(2) by blast
    then have "lookup_phase bget dec hname hvalue oc policy t1 rq b = (RunRoute (Some key), b1)"
      using same(1) by (cases r2) (auto simp: lookup_phase_def key get2 split: option.splits)
    moreover have "response_cache_middleware bget bset dec enc hname hvalue oc policy t1 t2 next_run rq (b, w) =
        (let (rs, b) = store_phase bset enc oc policy t2 (Some key) rs0 b1 in (rs, b, w1))"
      using False by (cases r1)
        (auto simp: response_cache_middleware_def key get1 run store_phase_def set split_beta split: option.splits)
    ultimately show ?thesis by (simp add: run)
  qed
qed

section \<open>The step relation\<close>

datatype answer_source = FromCache | FromRoute response

datatype cached_task =
    Arrived request
  | Running request "cache_key option"
  | Answered request time answer_source response

text \<open>A write of the middleware, with the request and the answer of the route it comes from.\<close>

record stored_entry =
  se_time :: time
  se_request :: request
  se_response :: response
  se_body :: string

record 'b cached_route =
  cr_now :: time
  cr_backend :: 'b
  cr_tasks :: "cached_task list"
  cr_stores :: "stored_entry list"

definition entry_key :: "object_cache \<Rightarrow> response_cache_policy \<Rightarrow> request \<Rightarrow> string option" where
  "entry_key oc policy rq =
     (case response_cache_key policy rq of
        Err e \<Rightarrow> None
      | Ok key \<Rightarrow> (case namespaced_key (oc_namespace oc) key of Err e \<Rightarrow> None | Ok k \<Rightarrow> Some k))"

text \<open>What the store phase leaves in the history.\<close>

definition stores_of :: "response_cache_policy \<Rightarrow> time \<Rightarrow> request \<Rightarrow> cache_key option \<Rightarrow> response \<Rightarrow> stored_entry list" where
  "stores_of policy t rq turn rs =
     (case (turn, rs_body rs) of
        (Some key, Some body) \<Rightarrow>
          if should_store_response (rs_status rs) (rs_headers rs) (length body) policy
          then [\<lparr>se_time = t, se_request = rq, se_response = rs, se_body = body\<rparr>] else []
      | _ \<Rightarrow> [])"

definition task_at :: "'b cached_route \<Rightarrow> nat \<Rightarrow> cached_task \<Rightarrow> bool" where
  "task_at st i a \<longleftrightarrow> i < length (cr_tasks st) \<and> cr_tasks st ! i = a"

inductive cached_step for bget bset bdel dec enc hname hvalue oc policy where
  arrive: "cached_step bget bset bdel dec enc hname hvalue oc policy st (st\<lparr>cr_tasks := cr_tasks st @ [Arrived rq]\<rparr>)"
| tick: "cached_step bget bset bdel dec enc hname hvalue oc policy st (st\<lparr>cr_now := cr_now st + d\<rparr>)"
| hit: "task_at st i (Arrived rq) \<Longrightarrow>
    lookup_phase bget dec hname hvalue oc policy (cr_now st) rq (cr_backend st) = (Serve rs, b) \<Longrightarrow>
    cached_step bget bset bdel dec enc hname hvalue oc policy st
      (st\<lparr>cr_backend := b, cr_tasks := (cr_tasks st)[i := Answered rq (cr_now st) FromCache rs]\<rparr>)"
| through: "task_at st i (Arrived rq) \<Longrightarrow>
    lookup_phase bget dec hname hvalue oc policy (cr_now st) rq (cr_backend st) = (RunRoute turn, b) \<Longrightarrow>
    cached_step bget bset bdel dec enc hname hvalue oc policy st
      (st\<lparr>cr_backend := b, cr_tasks := (cr_tasks st)[i := Running rq turn]\<rparr>)"
| finish: "task_at st i (Running rq turn) \<Longrightarrow>
    store_phase bset enc oc policy (cr_now st) turn rs0 (cr_backend st) = (rs, b) \<Longrightarrow>
    cached_step bget bset bdel dec enc hname hvalue oc policy st
      (st\<lparr>cr_backend := b, cr_tasks := (cr_tasks st)[i := Answered rq (cr_now st) (FromRoute rs0) rs],
          cr_stores := stores_of policy (cr_now st) rq turn rs0 @ cr_stores st\<rparr>)"
| other_get: "bget (cr_now st) k (cr_backend st) = (r, b) \<Longrightarrow>
    cached_step bget bset bdel dec enc hname hvalue oc policy st (st\<lparr>cr_backend := b\<rparr>)"
| other_set: "bset (cr_now st) k v d (cr_backend st) = (u, b) \<Longrightarrow> (\<And>rq. entry_key oc policy rq \<noteq> Some k) \<Longrightarrow>
    cached_step bget bset bdel dec enc hname hvalue oc policy st (st\<lparr>cr_backend := b\<rparr>)"
| other_delete: "bdel (cr_now st) k (cr_backend st) = (u, b) \<Longrightarrow>
    cached_step bget bset bdel dec enc hname hvalue oc policy st (st\<lparr>cr_backend := b\<rparr>)"

inductive cached_reachable for bget bset bdel dec enc hname hvalue oc policy b0 where
  start: "cached_reachable bget bset bdel dec enc hname hvalue oc policy b0
    \<lparr>cr_now = now, cr_backend = b0, cr_tasks = [], cr_stores = []\<rparr>"
| run: "cached_reachable bget bset bdel dec enc hname hvalue oc policy b0 st \<Longrightarrow>
    cached_step bget bset bdel dec enc hname hvalue oc policy st st' \<Longrightarrow>
    cached_reachable bget bset bdel dec enc hname hvalue oc policy b0 st'"

section \<open>What the phases do to the backend\<close>

lemma lookup_phase_keeps:
  assumes backend: "cache_backend bget bset bdel holds lifetime"
    and look: "lookup_phase bget dec hname hvalue oc policy t rq b = (turn, b')" and "t \<le> t'"
  shows "holds b' t' k = None \<or> holds b' t' k = holds b t' k"
proof -
  have "b' = b \<or> (\<exists>k r. bget t k b = (r, b'))"
    using look by (auto simp: lookup_phase_def cache_get_def split: sum.splits if_splits option.splits prod.splits)
  then show ?thesis using cache_backend.get_keeps [OF backend _ \<open>t \<le> t'\<close>] by blast
qed

lemma lookup_phase_serves:
  assumes backend: "cache_backend bget bset bdel holds lifetime"
    and look: "lookup_phase bget dec hname hvalue oc policy t rq b = (Serve rs, b')"
  obtains k v cached where "entry_key oc policy rq = Some k" "holds b t k = Some v" "dec v = Ok cached"
    "rs = cached_response hname hvalue cached ''HIT''"
proof -
  from look obtain key k v cached where "response_cache_key policy rq = Ok key"
    "namespaced_key (oc_namespace oc) key = Ok k" "bget t k b = (Ok (Some v), b')" "dec v = Ok cached"
    "rs = cached_response hname hvalue cached ''HIT''"
    by (auto simp: lookup_phase_def cache_get_def split: sum.splits if_splits option.splits prod.splits)
  moreover from this have "holds b t k = Some v" using cache_backend.get_answer [OF backend, of t k b] by fastforce
  ultimately show thesis by (intro that [of k v cached]) (simp_all add: entry_key_def)
qed

lemma lookup_phase_through:
  assumes "lookup_phase bget dec hname hvalue oc policy t rq b = (RunRoute (Some key), b')"
  shows "is_cacheable_method (rq_method rq) \<and> response_cache_key policy rq = Ok key"
  using assms by (auto simp: lookup_phase_def cache_get_def split: sum.splits if_splits option.splits prod.splits)

lemma store_phase_cases:
  fixes enc :: "cached_http_response \<Rightarrow> ('enc, string) result" and b :: 'b
  assumes "store_phase bset enc oc policy t turn rs0 b = (rs, b')"
  obtains (bypass) rs1 where "rs = mark_cache_status ''BYPASS'' rs1" "b' = b" "stores_of policy t rq turn rs0 = []"
      "rs1 = rs0 \<or> rs_body rs0 = None \<and> rs1 = rs0\<lparr>rs_body := Some []\<rparr>"
  | (miss) key body where "turn = Some key" "rs_body rs0 = Some body" "rs = mark_cache_status ''MISS'' rs0"
      "should_store_response (rs_status rs0) (rs_headers rs0) (length body) policy"
      "stores_of policy t rq turn rs0 = [\<lparr>se_time = t, se_request = rq, se_response = rs0, se_body = body\<rparr>]"
      "b' = b \<or> (\<exists>k v u. namespaced_key (oc_namespace oc) key = Ok k \<and> enc (stored_response rs0 body) = Ok v \<and>
         bset t k v (rp_ttl policy) b = (u, b'))"
proof (cases "turn = None \<or> rs_body rs0 = None \<or>
    \<not> should_store_response (rs_status rs0) (rs_headers rs0) (length (the (rs_body rs0))) policy")
  case True
  then show thesis
    using assms bypass [of rs0] bypass [of "rs0\<lparr>rs_body := Some []\<rparr>"]
    by (auto simp: store_phase_def stores_of_def split: option.splits if_splits)
next
  case False
  then obtain key body where kb: "turn = Some key" "rs_body rs0 = Some body"
    "should_store_response (rs_status rs0) (rs_headers rs0) (length body) policy" by auto
  with assms have b': "rs = mark_cache_status ''MISS'' rs0" "b' = snd (cache_set_for bset enc oc t key (rp_ttl policy) (stored_response rs0 body) b ::
      (('enc, unit, unit) cache_error, unit) result \<times> 'b)"
    by (simp_all add: store_phase_def)
  have "b' = b \<or> (\<exists>k v u. namespaced_key (oc_namespace oc) key = Ok k \<and> enc (stored_response rs0 body) = Ok v \<and>
         bset t k v (rp_ttl policy) b = (u, b'))"
    unfolding b'(2) by (auto simp: cache_set_for_def split: sum.splits prod.splits)
  with kb b' show thesis by (intro miss [of key body]) (simp_all add: stores_of_def)
qed

section \<open>The invariant\<close>

text \<open>An entry of the history accounts for a value under a key at a time.\<close>

definition accounts ::
  "(cached_http_response \<Rightarrow> ('enc, string) result) \<Rightarrow> (duration \<Rightarrow> duration) \<Rightarrow> object_cache \<Rightarrow> response_cache_policy \<Rightarrow>
   time \<Rightarrow> string \<Rightarrow> string \<Rightarrow> stored_entry \<Rightarrow> bool" where
  "accounts enc lifetime oc policy t k v e \<longleftrightarrow>
     entry_key oc policy (se_request e) = Some k \<and> enc (stored_response (se_response e) (se_body e)) = Ok v \<and>
     t < se_time e + lifetime (rp_ttl policy)"

definition storable :: "response_cache_policy \<Rightarrow> stored_entry \<Rightarrow> bool" where
  "storable policy e \<longleftrightarrow>
     is_cacheable_method (rq_method (se_request e)) \<and> rs_body (se_response e) = Some (se_body e) \<and>
     should_store_response (rs_status (se_response e)) (rs_headers (se_response e)) (length (se_body e)) policy"

text \<open>What an answer owes its client.\<close>

definition answer_ok ::
  "(string \<Rightarrow> string option) \<Rightarrow> (string \<Rightarrow> header_value option) \<Rightarrow> (duration \<Rightarrow> duration) \<Rightarrow> response_cache_policy \<Rightarrow>
   stored_entry list \<Rightarrow> cached_task \<Rightarrow> bool" where
  "answer_ok hname hvalue lifetime policy stores a \<longleftrightarrow>
     (case a of
        Answered rq t FromCache rs \<Rightarrow>
          (\<exists>e \<in> set stores. same_entry policy rq (se_request e) \<and> storable policy e \<and>
             se_time e \<le> t \<and> t < se_time e + lifetime (rp_ttl policy) \<and>
             rs = cached_response hname hvalue (stored_response (se_response e) (se_body e)) ''HIT'')
      | Answered rq t (FromRoute rs0) rs \<Rightarrow>
          rs = mark_cache_status ''MISS'' rs0 \<and> (\<exists>e \<in> set stores. se_request e = rq \<and> se_response e = rs0 \<and> se_time e = t) \<or>
          rs = mark_cache_status ''BYPASS'' rs0 \<or>
          rs_body rs0 = None \<and> rs = mark_cache_status ''BYPASS'' (rs0\<lparr>rs_body := Some []\<rparr>)
      | Running rq (Some key) \<Rightarrow> is_cacheable_method (rq_method rq) \<and> response_cache_key policy rq = Ok key
      | _ \<Rightarrow> True)"

definition held_inv where
  "held_inv enc holds lifetime oc policy now b stores \<longleftrightarrow>
     (\<forall>t k v rq. now \<le> t \<and> entry_key oc policy rq = Some k \<and> holds b t k = Some v \<longrightarrow>
        (\<exists>e \<in> set stores. accounts enc lifetime oc policy t k v e))"

definition stores_inv :: "response_cache_policy \<Rightarrow> time \<Rightarrow> stored_entry list \<Rightarrow> bool" where
  "stores_inv policy now stores \<longleftrightarrow> (\<forall>e \<in> set stores. storable policy e \<and> se_time e \<le> now)"

lemma held_inv_keep:
  assumes "held_inv enc holds lifetime oc policy now b stores"
    and "\<And>t k rq. now \<le> t \<Longrightarrow> entry_key oc policy rq = Some k \<Longrightarrow> holds b' t k = None \<or> holds b' t k = holds b t k"
    and "set stores \<subseteq> set stores'"
  shows "held_inv enc holds lifetime oc policy now b' stores'"
  unfolding held_inv_def
proof (intro allI impI)
  fix t k v rq assume "now \<le> t \<and> entry_key oc policy rq = Some k \<and> holds b' t k = Some v"
  then have "holds b t k = Some v" "now \<le> t" "entry_key oc policy rq = Some k" using assms(2) [of t rq k] by auto
  then obtain e where "e \<in> set stores" "accounts enc lifetime oc policy t k v e"
    using assms(1) unfolding held_inv_def by blast
  then show "\<exists>e \<in> set stores'. accounts enc lifetime oc policy t k v e" using assms(3) by blast
qed

lemma held_inv_store:
  assumes backend: "cache_backend bget bset bdel holds lifetime"
    and inv: "held_inv enc holds lifetime oc policy now b stores"
    and set: "bset now k v (rp_ttl policy) b = (u, b')"
    and e: "entry_key oc policy (se_request e) = Some k" "enc (stored_response (se_response e) (se_body e)) = Ok v" "se_time e = now"
  shows "held_inv enc holds lifetime oc policy now b' (e # stores)"
  unfolding held_inv_def
proof (intro allI impI)
  fix t k' v' rq assume *: "now \<le> t \<and> entry_key oc policy rq = Some k' \<and> holds b' t k' = Some v'"
  show "\<exists>x \<in> set (e # stores). accounts enc lifetime oc policy t k' v' x"
  proof (cases "k' = k \<and> v' = v \<and> t < now + lifetime (rp_ttl policy)")
    case True
    then show ?thesis using e by (simp add: accounts_def)
  next
    case False
    have "holds b t k' = Some v'"
      using * False cache_backend.set_value [OF backend set, of t] cache_backend.set_keeps [OF backend set, of t k']
      by (cases "k' = k") auto
    then have "\<exists>x \<in> set stores. accounts enc lifetime oc policy t k' v' x"
      using * inv unfolding held_inv_def by blast
    then show ?thesis by auto
  qed
qed

lemma entry_key_same:
  assumes "entry_key oc policy rq = Some k" and "entry_key oc policy rq' = Some k"
  shows "same_entry policy rq rq'"
proof -
  from assms obtain key key' where k: "response_cache_key policy rq = Ok key" "response_cache_key policy rq' = Ok key'"
    "namespaced_key (oc_namespace oc) key = Ok k" "namespaced_key (oc_namespace oc) key' = Ok k"
    by (auto simp: entry_key_def split: sum.splits)
  then have "key = key'" by (auto simp: namespaced_key_def Let_def split: option.splits)
  with response_cache_key_eq [OF k(1,2)] show ?thesis by simp
qed

lemma answer_ok_mono:
  assumes "answer_ok hname hvalue lifetime policy stores a" and "set stores \<subseteq> set stores'"
  shows "answer_ok hname hvalue lifetime policy stores' a"
  using assms by (auto simp: answer_ok_def split: cached_task.splits answer_source.splits option.splits)

definition route_inv where
  "route_inv enc holds hname hvalue lifetime oc policy st \<longleftrightarrow>
     held_inv enc holds lifetime oc policy (cr_now st) (cr_backend st) (cr_stores st) \<and>
     stores_inv policy (cr_now st) (cr_stores st) \<and>
     (\<forall>a \<in> set (cr_tasks st). answer_ok hname hvalue lifetime policy (cr_stores st) a)"

lemma hit_answer_ok:
  assumes backend: "cache_backend bget bset bdel holds lifetime" and codec: "\<And>r s. enc r = Ok s \<Longrightarrow> dec s = Ok r"
    and inv: "route_inv enc holds hname hvalue lifetime oc policy st"
    and look: "lookup_phase bget dec hname hvalue oc policy (cr_now st) rq (cr_backend st) = (Serve rs, b)"
  shows "answer_ok hname hvalue lifetime policy (cr_stores st) (Answered rq (cr_now st) FromCache rs)"
proof -
  obtain k v cached where kv: "entry_key oc policy rq = Some k" "holds (cr_backend st) (cr_now st) k = Some v"
      "dec v = Ok cached" "rs = cached_response hname hvalue cached ''HIT''"
    using lookup_phase_serves [OF backend look] by metis
  then obtain e where e: "e \<in> set (cr_stores st)" "accounts enc lifetime oc policy (cr_now st) k v e"
    using inv unfolding route_inv_def held_inv_def by blast
  then have "cached = stored_response (se_response e) (se_body e)" using codec kv(3) by (auto simp: accounts_def)
  moreover have "storable policy e \<and> se_time e \<le> cr_now st" using e inv by (auto simp: route_inv_def stores_inv_def)
  moreover have "same_entry policy rq (se_request e)" using e kv(1) entry_key_same by (auto simp: accounts_def)
  ultimately show ?thesis using e kv(4) by (auto simp: answer_ok_def accounts_def)
qed

lemma set_update_all: "\<forall>a \<in> set xs. P a \<Longrightarrow> P x \<Longrightarrow> \<forall>a \<in> set (xs[i := x]). P a"
  using set_update_subset_insert by fastforce

lemma route_inv_finish:
  assumes backend: "cache_backend bget bset bdel holds lifetime"
    and inv: "route_inv enc holds hname hvalue lifetime oc policy st"
    and at: "task_at st i (Running rq turn)"
    and store: "store_phase bset enc oc policy (cr_now st) turn rs0 (cr_backend st) = (rs, b)"
  shows "route_inv enc holds hname hvalue lifetime oc policy
    (st\<lparr>cr_backend := b, cr_tasks := (cr_tasks st)[i := Answered rq (cr_now st) (FromRoute rs0) rs],
        cr_stores := stores_of policy (cr_now st) rq turn rs0 @ cr_stores st\<rparr>)"
proof -
  let ?stores = "stores_of policy (cr_now st) rq turn rs0 @ cr_stores st"
  have run: "answer_ok hname hvalue lifetime policy (cr_stores st) (Running rq turn)"
    using inv at by (auto simp: route_inv_def task_at_def in_set_conv_nth)
  have held: "held_inv enc holds lifetime oc policy (cr_now st) (cr_backend st) (cr_stores st)"
    using inv by (simp add: route_inv_def)
  have new: "held_inv enc holds lifetime oc policy (cr_now st) b ?stores \<and> stores_inv policy (cr_now st) ?stores \<and>
      answer_ok hname hvalue lifetime policy ?stores (Answered rq (cr_now st) (FromRoute rs0) rs)"
    using store
  proof (cases rule: store_phase_cases [where rq = rq])
    case (bypass rs1)
    then show ?thesis using inv by (auto simp: route_inv_def answer_ok_def)
  next
    case (miss key body)
    let ?e = "\<lparr>se_time = cr_now st, se_request = rq, se_response = rs0, se_body = body\<rparr>"
    have key: "is_cacheable_method (rq_method rq)" "response_cache_key policy rq = Ok key"
      using run by (simp_all add: answer_ok_def miss(1))
    have "held_inv enc holds lifetime oc policy (cr_now st) b (?e # cr_stores st)"
    proof (cases "b = cr_backend st")
      case True
      then show ?thesis using held_inv_keep [OF held, of b "?e # cr_stores st"] by auto
    next
      case False
      then obtain k v u where *: "namespaced_key (oc_namespace oc) key = Ok k" "enc (stored_response rs0 body) = Ok v"
          "bset (cr_now st) k v (rp_ttl policy) (cr_backend st) = (u, b)" using miss(6) by blast
      show ?thesis by (rule held_inv_store [OF backend held *(3)]) (simp_all add: entry_key_def key * )
    qed
    moreover have "stores_inv policy (cr_now st) (?e # cr_stores st)"
      using inv key miss by (simp add: route_inv_def stores_inv_def storable_def)
    moreover have "answer_ok hname hvalue lifetime policy (?e # cr_stores st) (Answered rq (cr_now st) (FromRoute rs0) rs)"
      by (simp add: answer_ok_def miss(3))
    ultimately show ?thesis by (simp add: miss(5))
  qed
  have "\<forall>a \<in> set (cr_tasks st). answer_ok hname hvalue lifetime policy ?stores a"
    using inv answer_ok_mono [where stores' = ?stores] by (auto simp: route_inv_def)
  then have "\<forall>a \<in> set ((cr_tasks st)[i := Answered rq (cr_now st) (FromRoute rs0) rs]).
      answer_ok hname hvalue lifetime policy ?stores a"
    using new by (intro set_update_all) auto
  with new show ?thesis by (simp add: route_inv_def)
qed

lemma route_inv_other:
  assumes "route_inv enc holds hname hvalue lifetime oc policy st"
    and "\<And>t k rq. cr_now st \<le> t \<Longrightarrow> entry_key oc policy rq = Some k \<Longrightarrow> holds b t k = None \<or> holds b t k = holds (cr_backend st) t k"
    and "\<forall>a \<in> set tasks. answer_ok hname hvalue lifetime policy (cr_stores st) a"
  shows "route_inv enc holds hname hvalue lifetime oc policy (st\<lparr>cr_backend := b, cr_tasks := tasks\<rparr>)"
  using assms held_inv_keep [of enc holds lifetime oc policy "cr_now st" "cr_backend st" "cr_stores st" b "cr_stores st"]
  by (simp add: route_inv_def)

lemma route_inv_step:
  assumes backend: "cache_backend bget bset bdel holds lifetime" and codec: "\<And>r s. enc r = Ok s \<Longrightarrow> dec s = Ok r"
    and step: "cached_step bget bset bdel dec enc hname hvalue oc policy st st'"
    and inv: "route_inv enc holds hname hvalue lifetime oc policy st"
  shows "route_inv enc holds hname hvalue lifetime oc policy st'"
proof -
  have tasks: "\<forall>a \<in> set (cr_tasks st). answer_ok hname hvalue lifetime policy (cr_stores st) a"
    using inv by (simp add: route_inv_def)
  note other = route_inv_other [OF inv _ tasks, simplified]
  show ?thesis using step
  proof cases
    case (arrive rq)
    then show ?thesis using inv by (simp add: route_inv_def answer_ok_def)
  next
    case (tick d)
    then show ?thesis using inv unfolding route_inv_def held_inv_def stores_inv_def
      by (auto intro: trans_le_add1)
  next
    case (hit i rq rs b)
    show ?thesis unfolding hit(1)
      by (rule route_inv_other [OF inv]) (use lookup_phase_keeps [OF backend hit(3)] in blast,
        rule set_update_all [OF tasks hit_answer_ok [OF backend codec inv hit(3)]])
  next
    case (through i rq turn b)
    have "answer_ok hname hvalue lifetime policy (cr_stores st) (Running rq turn)"
      using lookup_phase_through [of bget dec hname hvalue oc policy "cr_now st" rq "cr_backend st" _ b] through(3)
      by (cases turn) (auto simp: answer_ok_def)
    then show ?thesis unfolding through(1)
      by (intro route_inv_other [OF inv]) (use lookup_phase_keeps [OF backend through(3)] in blast, rule set_update_all [OF tasks])
  next
    case (finish i rq turn rs0 rs b)
    then show ?thesis using route_inv_finish [OF backend inv finish(2,3)] by simp
  next
    case (other_get k r b)
    show ?thesis unfolding other_get(1)
      by (rule other) (use cache_backend.get_keeps [OF backend other_get(2)] in blast)
  next
    case (other_set k v d u b)
    show ?thesis unfolding other_set(1)
      by (rule other) (metis cache_backend.set_keeps [OF backend other_set(2)] other_set(3))
  next
    case (other_delete k u b)
    show ?thesis unfolding other_delete(1)
      by (rule other) (use cache_backend.delete_keeps [OF backend other_delete(2)] in blast)
  qed
qed

lemma route_inv_reachable:
  assumes backend: "cache_backend bget bset bdel holds lifetime" and codec: "\<And>r s. enc r = Ok s \<Longrightarrow> dec s = Ok r"
    and empty: "\<And>t k. holds b0 t k = None"
    and reach: "cached_reachable bget bset bdel dec enc hname hvalue oc policy b0 st"
  shows "route_inv enc holds hname hvalue lifetime oc policy st"
  using reach
proof induction
  case (start now)
  show ?case by (simp add: route_inv_def held_inv_def stores_inv_def empty)
next
  case (run st st')
  show ?case by (rule route_inv_step [OF backend _ run(2) run(3)]) (erule codec)
qed

section \<open>Property\<close>

text \<open>C31: Over any backend that keeps the contract of a cache, with a codec whose encodings decode, however
  requests and the other users of the cache interleave: an answer marked as a hit is the replay of a storable
  response that the route gave to an earlier request with the same entry (method, target, varied headers, and
  hash of the \<open>Authorization\<close> value where the scope asks for it), written no longer ago than its
  lifetime; every other answer is the route's own answer to that very request.\<close>

theorem cached_route_answers:
  assumes "cache_backend bget bset bdel holds lifetime" and "\<And>r s. enc r = Ok s \<Longrightarrow> dec s = Ok r"
    and "\<And>t k. holds b0 t k = None"
    and "cached_reachable bget bset bdel dec enc hname hvalue oc policy b0 st"
  shows "list_all (answer_ok hname hvalue lifetime policy (cr_stores st)) (cr_tasks st)"
proof -
  have "route_inv enc holds hname hvalue lifetime oc policy st"
    by (rule route_inv_reachable [OF assms(1) _ assms(3,4)]) (erule assms(2))
  then show ?thesis by (simp add: route_inv_def list_all_iff)
qed

section \<open>Witness\<close>

text \<open>Two requests for one page of a route over the in-process backend: a miss, then a hit.\<close>

definition demo_stored :: cached_http_response where
  "demo_stored = stored_response two_links ''[]''"

definition demo_enc :: "cached_http_response \<Rightarrow> (unit, string) result" where
  "demo_enc r = (if r = demo_stored then Ok ''x'' else Err ())"

definition demo_dec :: "string \<Rightarrow> (unit, cached_http_response) result" where
  "demo_dec s = (if s = ''x'' then Ok demo_stored else Err ())"

abbreviation demo_route_reachable :: "memory_backend cached_route \<Rightarrow> bool" where
  "demo_route_reachable \<equiv> cached_reachable memory_get (memory_set_result 100) memory_delete demo_dec demo_enc Some
     (\<lambda>s. Some (hv_static s)) demo_cache (policy_public 5) (memory_new (\<lambda>_. {}))"

lemma demo_entry: "response_cache_key (policy_public 5) (demo_request ''/products'') = Ok ''response:GET:%2Fproducts:public''"
proof -
  have "cache_key_part (cache_key_part (cache_key_part (cache_key_new ''response'') ''GET'') ''/products'') ''public'' =
      ''response:GET:%2Fproducts:public''" by code_simp
  then show ?thesis by (simp add: response_cache_key_def policy_public_def demo_request_def request_target_def)
qed

lemma demo_entry_key: "namespaced_key (oc_namespace demo_cache) ''response:GET:%2Fproducts:public'' = Ok ''api:response:GET:%2Fproducts:public''"
  by code_simp

lemma demo_storable: "should_store_response (rs_status two_links) (rs_headers two_links) (length ''[]'') (policy_public 5)"
  by (simp add: should_store_response_def two_links_def policy_public_def DEFAULT_RESPONSE_CACHE_BODY_BYTES_def
      is_success_def hget_str_def hget_def hcontains_def)

lemma demo_route_run:
  "\<exists>st rs. demo_route_reachable st \<and>
     cr_tasks st = [Answered (demo_request ''/products'') 1 (FromRoute two_links) (mark_cache_status ''MISS'' two_links),
       Answered (demo_request ''/products'') 3 FromCache rs]"
proof -
  define mk where "mk t b ts ss = \<lparr>cr_now = t, cr_backend = b, cr_tasks = ts, cr_stores = ss\<rparr>"
    for t and b :: memory_backend and ts ss
  let ?rq = "demo_request ''/products''" and ?k = "''api:response:GET:%2Fproducts:public''"
  let ?b0 = "memory_new (\<lambda>_. {})"
  let ?b1 = "\<lparr>mb_entries = [?k \<mapsto> \<lparr>st_bytes = ''x'', st_expires_at = 6\<rparr>], mb_evictions = \<lambda>_. {}\<rparr>"
  have cacheable: "is_cacheable_method (rq_method ?rq)" by (simp add: is_cacheable_method_def demo_request_def)
  note phases = lookup_phase_def store_phase_def cacheable demo_entry cache_get_def cache_set_for_def demo_entry_key
    memory_get_def memory_set_result_def memory_set_def moka_evict_def memory_new_def Let_def
  have miss: "lookup_phase memory_get demo_dec Some (\<lambda>s. Some (hv_static s)) demo_cache (policy_public 5) 1 ?rq ?b0 =
      (RunRoute (Some ''response:GET:%2Fproducts:public''), ?b0)"
    by (simp add: phases)
  have hit: "lookup_phase memory_get demo_dec Some (\<lambda>s. Some (hv_static s)) demo_cache (policy_public 5) 3 ?rq ?b1 =
      (Serve (cached_response Some (\<lambda>s. Some (hv_static s)) demo_stored ''HIT''), ?b1)"
    by (simp add: phases demo_dec_def)
  have store: "store_phase (memory_set_result 100) demo_enc demo_cache (policy_public 5) 1
      (Some ''response:GET:%2Fproducts:public'') two_links ?b0 = (mark_cache_status ''MISS'' two_links, ?b1)"
  proof -
    have body: "rs_body two_links = Some ''[]''" by (simp add: two_links_def)
    have ttl: "rp_ttl (policy_public 5) = 5" by (simp add: policy_public_def)
    show ?thesis
      unfolding store_phase_def option.case body if_P [OF demo_storable] ttl
      by (simp add: phases demo_enc_def demo_stored_def)
  qed
  have r0: "demo_route_reachable (mk 1 ?b0 [] [])" unfolding mk_def by (rule cached_reachable.start)
  from cached_reachable.run [OF r0 cached_step.arrive [where rq = ?rq]]
  have r1: "demo_route_reachable (mk 1 ?b0 [Arrived ?rq] [])" by (simp add: mk_def)
  have r2: "demo_route_reachable (mk 1 ?b0 [Running ?rq (Some ''response:GET:%2Fproducts:public'')] [])"
    using cached_reachable.run [OF r1 cached_step.through [of _ 0 ?rq]] miss by (simp add: mk_def task_at_def)
  let ?st = "mk 1 ?b0 [Running ?rq (Some ''response:GET:%2Fproducts:public'')] []"
  have at: "task_at ?st 0 (Running ?rq (Some ''response:GET:%2Fproducts:public''))" by (simp add: mk_def task_at_def)
  have stored: "store_phase (memory_set_result 100) demo_enc demo_cache (policy_public 5) (cr_now ?st)
      (Some ''response:GET:%2Fproducts:public'') two_links (cr_backend ?st) = (mark_cache_status ''MISS'' two_links, ?b1)"
    using store by (simp add: mk_def)
  have "demo_route_reachable (mk 1 ?b1 [Answered ?rq 1 (FromRoute two_links) (mark_cache_status ''MISS'' two_links)]
      (stores_of (policy_public 5) 1 ?rq (Some ''response:GET:%2Fproducts:public'') two_links))"
    using cached_reachable.run [OF r2 cached_step.finish [OF at stored]] by (simp add: mk_def)
  then obtain ss where "demo_route_reachable (mk 1 ?b1 [Answered ?rq 1 (FromRoute two_links) (mark_cache_status ''MISS'' two_links)] ss)"
    by blast
  from cached_reachable.run [OF cached_reachable.run [OF this cached_step.arrive [where rq = ?rq]] cached_step.tick [where d = 2]]
  have r4: "demo_route_reachable (mk 3 ?b1 [Answered ?rq 1 (FromRoute two_links) (mark_cache_status ''MISS'' two_links), Arrived ?rq] ss)"
    by (simp add: mk_def eval_nat_numeral)
  from cached_reachable.run [OF r4 cached_step.hit [of _ 1 ?rq]] hit show ?thesis
    by (auto simp: mk_def task_at_def)
qed

lemma cached_route_answers_witness:
  "\<exists>st rs. list_all (answer_ok Some (\<lambda>s. Some (hv_static s)) (\<lambda>d. d) (policy_public 5) (cr_stores (st :: memory_backend cached_route))) (cr_tasks st) \<and>
     cr_tasks st = [Answered (demo_request ''/products'') 1 (FromRoute two_links) (mark_cache_status ''MISS'' two_links),
       Answered (demo_request ''/products'') 3 FromCache rs]"
proof -
  obtain st rs where st: "demo_route_reachable st" and tasks: "cr_tasks st =
      [Answered (demo_request ''/products'') 1 (FromRoute two_links) (mark_cache_status ''MISS'' two_links),
       Answered (demo_request ''/products'') 3 FromCache rs]" using demo_route_run by blast
  have "list_all (answer_ok Some (\<lambda>s. Some (hv_static s)) (\<lambda>d. d) (policy_public 5) (cr_stores st)) (cr_tasks st)"
    by (rule cached_route_answers [OF memory.cache_backend_axioms _ _ st])
      (simp_all add: demo_enc_def demo_dec_def memory_holds_def memory_new_def split: if_splits)
  with tasks show ?thesis by blast
qed

end
