(* ===== verification/Cache_Flight.thy ===== *)
theory Cache_Flight
  imports Prelude
begin

text \<open>
  Single flight (\<open>ObjectCache::get_or_load\<close>, \<open>finish_in_flight\<close> in \<open>cache.rs\<close>) as a step
  relation: any number of tasks ask for one namespaced key at the same time.

  A state holds the value the backend has for the key, the entry of the key in the
  \<open>in_flight\<close> table (the identity of its \<open>Notify\<close>), the next fresh \<open>Notify\<close> and where every
  task stands.  A step of a task is what it does between two points where another task can
  run: awaits, and the release of the table's lock.  The loader and the backend write may fail
  or succeed with any value; the backend may drop the value at any time.
\<close>

section \<open>Steps\<close>

datatype 'v pc =
    Idle                    \<comment> \<open>has not called \<open>get_or_load\<close> yet\<close>
  | Reading                 \<comment> \<open>at the head of the loop\<close>
  | Missed                  \<comment> \<open>has seen a miss, not yet taken the lock\<close>
  | Handed nat              \<comment> \<open>has cloned the leader's \<open>Notify\<close> and released the lock\<close>
  | Waiting nat             \<comment> \<open>its \<open>notified()\<close> future is registered\<close>
  | Loading                 \<comment> \<open>leader, awaiting the loader\<close>
  | Storing 'v              \<comment> \<open>leader, awaiting the write of the loaded value\<close>
  | Finishing "'v option"   \<comment> \<open>leader, about to remove the table entry\<close>
  | Notifying nat "'v option" \<comment> \<open>leader, has removed the entry and not yet notified\<close>
  | Returned "'v option"    \<comment> \<open>\<open>Some v\<close> is \<open>Ok(v)\<close>, \<open>None\<close> an error\<close>
  | Cancelled               \<comment> \<open>its future was dropped\<close>

record 'v flight =
  fl_value :: "'v option"
  fl_in_flight :: "nat option"
  fl_next :: nat
  fl_pc :: "nat \<Rightarrow> 'v pc"

definition move :: "nat \<Rightarrow> 'v pc \<Rightarrow> 'v flight \<Rightarrow> 'v flight" where
  "move i p s = s\<lparr>fl_pc := (fl_pc s)(i := p)\<rparr>"

text \<open>\<open>notify_waiters\<close> wakes the registered futures; it leaves no permit behind.\<close>

definition notify_waiters :: "nat \<Rightarrow> (nat \<Rightarrow> 'v pc) \<Rightarrow> nat \<Rightarrow> 'v pc" where
  "notify_waiters n pcs = (\<lambda>j. if pcs j = Waiting n then Reading else pcs j)"

definition initial :: "'v flight \<Rightarrow> bool" where
  "initial s \<longleftrightarrow> fl_in_flight s = None \<and> fl_pc s = (\<lambda>_. Idle)"

inductive step :: "'v flight \<Rightarrow> 'v flight \<Rightarrow> bool" where
  call: "fl_pc s i = Idle \<Longrightarrow> step s (move i Reading s)"
| read_hit: "fl_pc s i = Reading \<Longrightarrow> fl_value s = Some v \<Longrightarrow> step s (move i (Returned (Some v)) s)"
| read_miss: "fl_pc s i = Reading \<Longrightarrow> fl_value s = None \<Longrightarrow> step s (move i Missed s)"
| read_error: "fl_pc s i = Reading \<Longrightarrow> step s (move i (Returned None) s)"
| follow: "fl_pc s i = Missed \<Longrightarrow> fl_in_flight s = Some n \<Longrightarrow> step s (move i (Handed n) s)"
| lead: "fl_pc s i = Missed \<Longrightarrow> fl_in_flight s = None \<Longrightarrow>
    step s (move i Loading (s\<lparr>fl_in_flight := Some (fl_next s), fl_next := Suc (fl_next s)\<rparr>))"
| register: "fl_pc s i = Handed n \<Longrightarrow> step s (move i (Waiting n) s)"
| load_ok: "fl_pc s i = Loading \<Longrightarrow> step s (move i (Storing v) s)"
| load_error: "fl_pc s i = Loading \<Longrightarrow> step s (move i (Finishing None) s)"
| store_ok: "fl_pc s i = Storing v \<Longrightarrow> step s (move i (Finishing (Some v)) (s\<lparr>fl_value := Some v\<rparr>))"
| store_error: "fl_pc s i = Storing v \<Longrightarrow> step s (move i (Finishing None) s)"
| remove: "fl_pc s i = Finishing r \<Longrightarrow> fl_in_flight s = Some n \<Longrightarrow>
    step s (move i (Notifying n r) (s\<lparr>fl_in_flight := None\<rparr>))"
| remove_none: "fl_pc s i = Finishing r \<Longrightarrow> fl_in_flight s = None \<Longrightarrow> step s (move i (Returned r) s)"
| notify: "fl_pc s i = Notifying n r \<Longrightarrow>
    step s (move i (Returned r) (s\<lparr>fl_pc := notify_waiters n (fl_pc s)\<rparr>))"
| expire: "step s (s\<lparr>fl_value := None\<rparr>)"

text \<open>Dropping a task's future ends it at the await where it stands.\<close>

fun awaiting :: "'v pc \<Rightarrow> bool" where
  "awaiting Reading \<longleftrightarrow> True"
| "awaiting Missed \<longleftrightarrow> True"
| "awaiting (Waiting n) \<longleftrightarrow> True"
| "awaiting Loading \<longleftrightarrow> True"
| "awaiting (Storing v) \<longleftrightarrow> True"
| "awaiting (Finishing r) \<longleftrightarrow> True"
| "awaiting _ \<longleftrightarrow> False"

inductive cancel :: "'v flight \<Rightarrow> 'v flight \<Rightarrow> bool" where
  cancel: "awaiting (fl_pc s i) \<Longrightarrow> cancel s (move i Cancelled s)"

inductive_cases stepE: "step s s'"
inductive_cases cancelE: "cancel s s'"

inductive reachable :: "bool \<Rightarrow> 'v flight \<Rightarrow> bool" for cancellation where
  start: "initial s \<Longrightarrow> reachable cancellation s"
| run: "reachable cancellation s \<Longrightarrow> step s s' \<Longrightarrow> reachable cancellation s'"
| drop: "reachable cancellation s \<Longrightarrow> cancellation \<Longrightarrow> cancel s s' \<Longrightarrow> reachable cancellation s'"

lemma fl_simps [simp]:
  "fl_value (move i p s) = fl_value s" "fl_in_flight (move i p s) = fl_in_flight s"
  "fl_next (move i p s) = fl_next s" "fl_pc (move i p s) = (fl_pc s)(i := p)"
  by (simp_all add: move_def)

section \<open>One loader at a time\<close>

fun leading :: "'v pc \<Rightarrow> bool" where
  "leading Loading \<longleftrightarrow> True"
| "leading (Storing v) \<longleftrightarrow> True"
| "leading (Finishing r) \<longleftrightarrow> True"
| "leading _ \<longleftrightarrow> False"

fun notify_of :: "'v pc \<Rightarrow> nat option" where
  "notify_of (Handed n) = Some n"
| "notify_of (Waiting n) = Some n"
| "notify_of (Notifying n r) = Some n"
| "notify_of _ = None"

definition flight_inv :: "bool \<Rightarrow> 'v flight \<Rightarrow> bool" where
  "flight_inv cancellation s \<longleftrightarrow>
     (\<forall>i j. leading (fl_pc s i) \<longrightarrow> leading (fl_pc s j) \<longrightarrow> i = j) \<and>
     (\<forall>i. leading (fl_pc s i) \<longrightarrow> fl_in_flight s \<noteq> None) \<and>
     (\<not> cancellation \<longrightarrow> fl_in_flight s \<noteq> None \<longrightarrow> (\<exists>i. leading (fl_pc s i))) \<and>
     (\<forall>n. fl_in_flight s = Some n \<longrightarrow> n < fl_next s) \<and>
     (\<forall>i n. notify_of (fl_pc s i) = Some n \<longrightarrow> n < fl_next s)"

lemma flight_inv_initial: "initial s \<Longrightarrow> flight_inv c s"
  by (simp add: initial_def flight_inv_def)

lemma flight_inv_move:
  assumes "flight_inv c s" and "leading p \<longleftrightarrow> leading (fl_pc s i)"
    and "\<And>n. notify_of p = Some n \<Longrightarrow> n < fl_next s"
  shows "flight_inv c (move i p s)"
  using assms unfolding flight_inv_def by auto metis+

lemma flight_inv_value [simp]: "flight_inv c (s\<lparr>fl_value := x\<rparr>) = flight_inv c s"
  by (simp add: flight_inv_def)

lemma leading_notify_waiters [simp]: "leading (notify_waiters n pcs j) \<longleftrightarrow> leading (pcs j)"
  by (cases "pcs j") (simp_all add: notify_waiters_def)

lemma notify_of_notify_waiters: "notify_of (notify_waiters n pcs j) = Some m \<Longrightarrow> notify_of (pcs j) = Some m"
  by (cases "pcs j") (auto simp: notify_waiters_def split: if_splits)

lemma flight_inv_step: "step s s' \<Longrightarrow> flight_inv c s \<Longrightarrow> flight_inv c s'"
proof (induction rule: step.induct)
  case (lead s i)
  then have "\<not> leading (fl_pc s j)" for j by (auto simp: flight_inv_def)
  then show ?case using lead by (auto simp: flight_inv_def less_Suc_eq)
next
  case (remove s i r n)
  have "leading (fl_pc s i)" using remove by simp
  then have "leading (fl_pc s j) \<Longrightarrow> j = i" for j using remove.prems unfolding flight_inv_def by blast
  then show ?case using remove by (auto simp: flight_inv_def)
next
  case (remove_none s i r)
  have "leading (fl_pc s i)" using remove_none by simp
  then show ?case using remove_none unfolding flight_inv_def by blast
next
  case (notify s i n r)
  have "flight_inv c (s\<lparr>fl_pc := notify_waiters n (fl_pc s)\<rparr>)"
    using notify.prems by (auto simp: flight_inv_def dest: notify_of_notify_waiters)
  then show ?case using notify.hyps by (intro flight_inv_move) auto
next
  case (follow s i n)
  then have "n < fl_next s" by (simp add: flight_inv_def)
  then show ?case using follow by (intro flight_inv_move) auto
next
  case (register s i n)
  then have "n < fl_next s" unfolding flight_inv_def by (metis notify_of.simps(1))
  then show ?case using register by (intro flight_inv_move) auto
qed (auto intro!: flight_inv_move)

lemma flight_inv_cancel: "flight_inv True s \<Longrightarrow> cancel s s' \<Longrightarrow> flight_inv True s'"
  by (auto elim!: cancelE simp: flight_inv_def split: if_splits)

lemma flight_inv_reachable: "reachable c s \<Longrightarrow> flight_inv c s"
  by (induction rule: reachable.induct)
    (auto intro: flight_inv_initial flight_inv_step flight_inv_cancel)

text \<open>C15: at every moment at most one task is between winning the table entry and removing it,
  so at most one loader of the key runs at a time, also when tasks are cancelled; and a task
  that loads holds the entry, so every task that misses meanwhile follows it.\<close>

theorem single_loader:
  assumes "reachable c s" and "leading (fl_pc s i)"
  shows "fl_in_flight s \<noteq> None \<and> (\<forall>j. leading (fl_pc s j) \<longrightarrow> j = i)"
  using flight_inv_reachable [OF assms(1)] assms(2) by (auto simp: flight_inv_def)

section \<open>A wakeup can be lost\<close>

text \<open>A \<open>Notify\<close> that is no longer in the table and that nobody is about to signal.\<close>

definition orphan :: "nat \<Rightarrow> 'v flight \<Rightarrow> bool" where
  "orphan n s \<longleftrightarrow> n < fl_next s \<and> fl_in_flight s \<noteq> Some n \<and> (\<forall>i r. fl_pc s i \<noteq> Notifying n r)"

lemma orphan_step: "orphan n s \<Longrightarrow> step s s' \<Longrightarrow> orphan n s'"
  by (erule stepE) (auto simp: orphan_def notify_waiters_def split: if_splits)

lemma orphan_waits:
  assumes "step\<^sup>*\<^sup>* s s'" and "orphan n s" and "fl_pc s i = Waiting n"
  shows "orphan n s' \<and> fl_pc s' i = Waiting n"
  using assms
proof (induction rule: rtranclp_induct)
  case (step s' s'')
  then have o: "orphan n s'" and w: "fl_pc s' i = Waiting n" by auto
  have "fl_pc s'' i = Waiting n"
    using step(2) w o by (cases rule: stepE) (auto simp: orphan_def notify_waiters_def split: if_splits)
  with orphan_step [OF o step(2)] show ?case by blast
qed simp

definition two_tasks :: "nat flight" where
  "two_tasks = \<lparr>fl_value = None, fl_in_flight = None, fl_next = 0, fl_pc = \<lambda>_. Idle\<rparr>"

definition lost_wakeup :: "nat flight" where
  "lost_wakeup = \<lparr>fl_value = Some 7, fl_in_flight = None, fl_next = 1,
     fl_pc = (\<lambda>_. Idle)(0 := Returned (Some 7), 1 := Waiting 0)\<rparr>"

lemma lost_wakeup_reachable: "reachable c lost_wakeup"
proof -
  let ?s = "\<lambda>v f n p0 p1. \<lparr>fl_value = v, fl_in_flight = f, fl_next = n, fl_pc = (\<lambda>_. Idle)(0 := p0, 1 := p1)\<rparr> :: nat flight"
  note upd = move_def fun_upd_twist fun_upd_idem
  have "reachable c (?s None None 0 Idle Idle)"
    by (rule start) (simp add: initial_def fun_eq_iff)
  then have "reachable c (?s None None 0 Reading Idle)"
    by (rule run) (use call [of "?s None None 0 Idle Idle" 0] in \<open>simp add: move_def fun_upd_twist\<close>)
  then have "reachable c (?s None None 0 Missed Idle)"
    by (rule run) (use read_miss [of "?s None None 0 Reading Idle" 0] in \<open>simp add: move_def fun_upd_twist\<close>)
  then have "reachable c (?s None None 0 Missed Reading)"
    by (rule run) (use call [of "?s None None 0 Missed Idle" 1] in \<open>simp add: move_def fun_upd_twist\<close>)
  then have "reachable c (?s None None 0 Missed Missed)"
    by (rule run) (use read_miss [of "?s None None 0 Missed Reading" 1] in \<open>simp add: move_def fun_upd_twist\<close>)
  then have "reachable c (?s None (Some 0) 1 Loading Missed)"
    by (rule run) (use lead [of "?s None None 0 Missed Missed" 0] in \<open>simp add: move_def fun_upd_twist\<close>)
  then have "reachable c (?s None (Some 0) 1 Loading (Handed 0))"
    by (rule run) (use follow [of "?s None (Some 0) 1 Loading Missed" 1 0] in \<open>simp add: move_def fun_upd_twist\<close>)
  then have "reachable c (?s None (Some 0) 1 (Storing 7) (Handed 0))"
    by (rule run) (use load_ok [of "?s None (Some 0) 1 Loading (Handed 0)" 0 7] in \<open>simp add: move_def fun_upd_twist\<close>)
  then have "reachable c (?s (Some 7) (Some 0) 1 (Finishing (Some 7)) (Handed 0))"
    by (rule run) (use store_ok [of "?s None (Some 0) 1 (Storing 7) (Handed 0)" 0 7] in \<open>simp add: move_def fun_upd_twist\<close>)
  then have "reachable c (?s (Some 7) None 1 (Notifying 0 (Some 7)) (Handed 0))"
    by (rule run) (use remove [of "?s (Some 7) (Some 0) 1 (Finishing (Some 7)) (Handed 0)" 0 "Some 7" 0] in \<open>simp add: move_def fun_upd_twist\<close>)
  then have "reachable c (?s (Some 7) None 1 (Returned (Some 7)) (Handed 0))"
  proof (rule run)
    have "notify_waiters 0 ((\<lambda>_. Idle)(0 := Notifying 0 (Some 7), 1 := Handed 0)) = (\<lambda>_. Idle)(0 := Notifying 0 (Some (7::nat)), 1 := Handed 0)"
      by (auto simp: notify_waiters_def fun_eq_iff)
    then show "step (?s (Some 7) None 1 (Notifying 0 (Some 7)) (Handed 0)) (?s (Some 7) None 1 (Returned (Some 7)) (Handed 0))"
      using notify [of "?s (Some 7) None 1 (Notifying 0 (Some 7)) (Handed 0)" 0 0 "Some 7"]
      by (simp add: move_def fun_upd_twist)
  qed
  then show ?thesis
    unfolding lost_wakeup_def
    by (rule run) (use register [of "?s (Some 7) None 1 (Returned (Some 7)) (Handed 0)" 1 0] in \<open>simp add: move_def fun_upd_twist\<close>)
qed

text \<open>C38: a follower that has cloned the leader's \<open>Notify\<close> but not yet created the \<open>notified()\<close>
  future when the leader finishes is never woken: without any cancellation a state is
  reachable where the value is cached, nobody loads, and one caller of \<open>get_or_load\<close> waits
  and goes on waiting in every continuation.\<close>

theorem get_or_load_can_hang:
  "\<exists>s i. reachable False s \<and> fl_value s = Some (7 :: nat) \<and> fl_in_flight s = None \<and>
     {s'. step\<^sup>*\<^sup>* s s'} \<subseteq> {s'. \<exists>n. fl_pc s' i = Waiting n}"
proof -
  have "orphan 0 lost_wakeup" "fl_pc lost_wakeup 1 = Waiting 0"
    by (auto simp: orphan_def lost_wakeup_def)
  then have "{s'. step\<^sup>*\<^sup>* lost_wakeup s'} \<subseteq> {s'. \<exists>n. fl_pc s' 1 = Waiting n}"
    using orphan_waits by blast
  moreover have "fl_value lost_wakeup = Some 7" "fl_in_flight lost_wakeup = None"
    by (simp_all add: lost_wakeup_def)
  ultimately show ?thesis using lost_wakeup_reachable by blast
qed

section \<open>An abandoned entry\<close>

definition abandoned :: "'v flight \<Rightarrow> bool" where
  "abandoned s \<longleftrightarrow> fl_value s = None \<and> fl_in_flight s \<noteq> None \<and> (\<forall>i. \<not> leading (fl_pc s i))"

lemma abandoned_step:
  assumes ab: "abandoned s" and "step s s'"
  shows "abandoned s'"
proof -
  have no: "fl_pc s i \<noteq> Loading" "fl_pc s i \<noteq> Storing v" "fl_pc s i \<noteq> Finishing r" for i v r
    using ab unfolding abandoned_def by (metis leading.simps)+
  show ?thesis using assms(2) by (cases rule: stepE) (use ab no in \<open>auto simp: abandoned_def split: if_splits\<close>)
qed

text \<open>A task that already has its value in hand.\<close>

definition settled :: "'v pc \<Rightarrow> 'v \<Rightarrow> bool" where
  "settled p v \<longleftrightarrow> p = Returned (Some v) \<or> (\<exists>n. p = Notifying n (Some v))"

lemma abandoned_steps:
  "step\<^sup>*\<^sup>* s s' \<Longrightarrow> abandoned s \<Longrightarrow>
   abandoned s' \<and> (\<forall>j v. settled (fl_pc s' j) v \<longrightarrow> settled (fl_pc s j) v)"
proof (induction rule: rtranclp_induct)
  case (step s' s'')
  then have ab: "abandoned s'" by blast
  then have no: "fl_pc s' i \<noteq> Finishing r" for i r unfolding abandoned_def by (metis leading.simps(3))
  have "settled (fl_pc s'' j) v \<Longrightarrow> settled (fl_pc s' j) v" for j v
    using step(2) ab no
    by (cases rule: stepE) (auto simp: abandoned_def notify_waiters_def settled_def split: if_splits)
  then show ?case using step abandoned_step [OF ab step(2)] by blast
qed simp

text \<open>C39: a leader whose future is dropped while it loads leaves its entry in the table, and the
  key is lost for the life of the process: from then on nobody loads the key and no value is
  stored, and no call returns a value but those that had it in hand already.\<close>

theorem cancelled_leader_blocks_key:
  assumes "fl_pc s i = Loading" and "reachable True s" and "fl_value s = None"
    and "step\<^sup>*\<^sup>* (move i Cancelled s) s'"
  shows "fl_value s' = None \<and> fl_in_flight s' \<noteq> None \<and> (\<forall>j. fl_pc s' j \<noteq> Loading) \<and>
    (\<forall>j v. fl_pc s' j = Returned (Some v) \<longrightarrow> settled (fl_pc s j) v)"
proof -
  have "leading (fl_pc s i)" using assms(1) by simp
  then have ab: "abandoned (move i Cancelled s)"
    using flight_inv_reachable [OF assms(2)] assms(3) by (auto simp: abandoned_def flight_inv_def)
  note st = abandoned_steps [OF assms(4) ab]
  then have "fl_pc s' j \<noteq> Loading" for j unfolding abandoned_def by (metis leading.simps(1))
  moreover have "settled (fl_pc s j) v" if "fl_pc s' j = Returned (Some v)" for j v
  proof -
    have "settled (fl_pc s' j) v" using that by (simp add: settled_def)
    then have "settled (fl_pc (move i Cancelled s) j) v" using st by blast
    then show ?thesis by (cases "j = i") (simp_all add: settled_def)
  qed
  ultimately show ?thesis using st by (simp add: abandoned_def)
qed

section \<open>Concrete instances\<close>

definition first_leader :: "nat flight" where
  "first_leader = \<lparr>fl_value = None, fl_in_flight = Some 0, fl_next = 1, fl_pc = (\<lambda>_. Idle)(0 := Loading)\<rparr>"

lemma first_leader_reachable: "reachable c first_leader"
proof -
  let ?s = "\<lambda>f n p. \<lparr>fl_value = None, fl_in_flight = f, fl_next = n, fl_pc = (\<lambda>_. Idle)(0 := p)\<rparr> :: nat flight"
  have "reachable c (?s None 0 Idle)" by (rule start) (simp add: initial_def fun_eq_iff)
  then have "reachable c (?s None 0 Reading)"
    by (rule run) (use call [of "?s None 0 Idle" 0] in \<open>simp add: move_def\<close>)
  then have "reachable c (?s None 0 Missed)"
    by (rule run) (use read_miss [of "?s None 0 Reading" 0] in \<open>simp add: move_def\<close>)
  then show ?thesis
    unfolding first_leader_def
    by (rule run) (use lead [of "?s None 0 Missed" 0] in \<open>simp add: move_def\<close>)
qed

lemma single_loader_witness:
  "{j. leading (fl_pc first_leader j)} = {0}"
proof -
  have l: "leading (fl_pc first_leader 0)" by (simp add: first_leader_def)
  show ?thesis using l conjunct2 [OF single_loader [OF first_leader_reachable [of True] l]] by blast
qed

lemma cancelled_leader_blocks_key_witness: "fl_in_flight (move 0 Cancelled first_leader) \<noteq> None"
  using cancelled_leader_blocks_key [OF _ first_leader_reachable, of 0 "move 0 Cancelled first_leader"]
  by (simp add: first_leader_def)

end
