(* ===== verification/Cache_Refinement.thy ===== *)
theory Cache_Refinement
  imports Cache_Store
begin

text \<open>
  What the object cache over the in-process backend (\<open>cache.rs\<close>) promises its callers, as an abstract
  machine: a map from structured keys (area and parts) to stored bytes that changes with time, because
  entries expire, and from which \<open>moka\<close> may take keys away before it reads or deletes and after it
  writes.  The cache refines it through the view below, one operation at a time; namespaces, percent
  encoding and the key limit are invisible but for the refusal of keys that are too long.
\<close>

section \<open>The abstract machine\<close>

type_synonym structured_key = "string \<times> string list"

datatype 't cache_op = Read structured_key | Write structured_key duration 't | Remove structured_key

type_synonym timed_map = "time \<Rightarrow> structured_key \<rightharpoonup> string"

text \<open>\<open>refuse\<close> says which keys are refused and \<open>kept\<close> which ones \<open>moka\<close> does not drop.\<close>

fun spec_step ::
  "(structured_key \<Rightarrow> key_error option) \<Rightarrow> structured_key set \<Rightarrow> ('t \<Rightarrow> ('enc, string) result) \<Rightarrow> (string \<Rightarrow> ('dec, 't) result) \<Rightarrow>
   time \<Rightarrow> 't cache_op \<Rightarrow> timed_map \<Rightarrow> (('enc, 'dec, 'load) cache_error, 't option) result \<times> timed_map" where
  "spec_step refuse kept enc dec t (Read key) m =
     (case refuse key of
        Some e \<Rightarrow> (Err (InvalidKey e), m)
      | None \<Rightarrow>
          (case (m t |` kept) key of
             None \<Rightarrow> Ok None
           | Some bytes \<Rightarrow> (case dec bytes of Ok v \<Rightarrow> Ok (Some v) | Err e \<Rightarrow> Err (Decode e)),
           \<lambda>t'. m t' |` kept))"
| "spec_step refuse kept enc dec t (Write key ttl v) m =
     (case refuse key of
        Some e \<Rightarrow> (Err (InvalidKey e), m)
      | None \<Rightarrow>
          (case enc v of
             Err e \<Rightarrow> (Err (Encode e), m)
           | Ok bytes \<Rightarrow>
               (Ok None, \<lambda>t'. (m t')(key := if t' < t + ttl then Some bytes else None) |` kept)))"
| "spec_step refuse kept enc dec t (Remove key) m =
     (case refuse key of
        Some e \<Rightarrow> (Err (InvalidKey e), m)
      | None \<Rightarrow> (Ok None, \<lambda>t'. (m t' |` kept)(key := None)))"

section \<open>The object cache as such a machine\<close>

definition key_in :: "object_cache \<Rightarrow> structured_key \<Rightarrow> (key_error, string) result" where
  "key_in oc key = namespaced_key (oc_namespace oc) (cache_key_of (fst key) (snd key))"

definition refused :: "object_cache \<Rightarrow> structured_key \<Rightarrow> key_error option" where
  "refused oc key = (case key_in oc key of Err e \<Rightarrow> Some e | Ok _ \<Rightarrow> None)"

definition kept_keys :: "object_cache \<Rightarrow> memory_backend \<Rightarrow> structured_key set" where
  "kept_keys oc b = {key. case key_in oc key of Err _ \<Rightarrow> True | Ok k \<Rightarrow> k \<notin> mb_evictions b 0}"

definition cache_view :: "object_cache \<Rightarrow> memory_backend \<Rightarrow> timed_map" where
  "cache_view oc b t key = (case key_in oc key of Err _ \<Rightarrow> None | Ok k \<Rightarrow> memory_holds b t k)"

fun cache_step ::
  "time \<Rightarrow> object_cache \<Rightarrow> ('t \<Rightarrow> ('enc, string) result) \<Rightarrow> (string \<Rightarrow> ('dec, 't) result) \<Rightarrow> time \<Rightarrow> 't cache_op \<Rightarrow>
   memory_backend \<Rightarrow> (('enc, 'dec, 'load) cache_error, 't option) result \<times> memory_backend" where
  "cache_step imax oc enc dec t (Read key) b = cache_get memory_get dec oc t (cache_key_of (fst key) (snd key)) b"
| "cache_step imax oc enc dec t (Write key ttl v) b =
     (case cache_set_for (memory_set_result imax) enc oc t (cache_key_of (fst key) (snd key)) ttl v b of
        (Ok _, b) \<Rightarrow> (Ok None, b) | (Err e, b) \<Rightarrow> (Err e, b))"
| "cache_step imax oc enc dec t (Remove key) b =
     (case cache_delete memory_delete oc t (cache_key_of (fst key) (snd key)) b of
        (Ok _, b) \<Rightarrow> (Ok None, b) | (Err e, b) \<Rightarrow> (Err e, b))"

text \<open>Whether the platform can represent the expiry instant of a write.\<close>

definition representable :: "time \<Rightarrow> time \<Rightarrow> 't cache_op \<Rightarrow> bool" where
  "representable imax t c = (case c of Write _ ttl _ \<Rightarrow> t + ttl \<le> imax | _ \<Rightarrow> True)"

section \<open>The refinement\<close>

lemma key_in_inj:
  assumes "key_in oc key = Ok k"
  shows "key_in oc key' = Ok k \<longleftrightarrow> key' = key"
proof
  assume "key_in oc key' = Ok k"
  with assms have "cache_key_of (fst key') (snd key') = cache_key_of (fst key) (snd key)"
    by (auto simp: key_in_def namespaced_key_def Let_def split: option.splits)
  then show "key' = key" by (simp add: cache_key_of_inj prod_eq_iff)
qed (use assms in simp)

lemma memory_holds_get:
  "memory_get t k b = (r, b') \<Longrightarrow> t \<le> t' \<Longrightarrow>
   r = Ok (if k \<in> mb_evictions b 0 then None else memory_holds b t k) \<and>
   memory_holds b' t' k' = (if k' \<in> mb_evictions b 0 then None else memory_holds b t' k')"
  by (auto simp: memory_get_def memory_holds_def moka_evict_def restrict_map_def Let_def
      split: option.splits if_splits)

lemma memory_holds_set:
  assumes "t + ttl \<le> imax"
  obtains b' where "memory_set_result imax t k v ttl b = (Ok (), b')"
    and "\<And>t' k'. memory_holds b' t' k' = (if k' \<in> mb_evictions b 0 then None
      else if k' = k then (if t' < t + ttl then Some v else None) else memory_holds b t' k')"
  using assms
  by (auto simp: memory_set_result_def memory_set_def memory_holds_def moka_evict_def restrict_map_def
      intro!: that split: option.splits)

lemma memory_holds_delete:
  "memory_delete t k b = (u, b') \<Longrightarrow>
   u = Ok () \<and> memory_holds b' t' k' = (if k' = k \<or> k' \<in> mb_evictions b 0 then None else memory_holds b t' k')"
  by (auto simp: memory_delete_def memory_holds_def moka_evict_def restrict_map_def Let_def split: option.splits if_splits)

text \<open>What one operation has to do, and that each of the three does it.\<close>

definition refines_step ::
  "object_cache \<Rightarrow> ('t \<Rightarrow> ('enc, string) result) \<Rightarrow> (string \<Rightarrow> ('dec, 't) result) \<Rightarrow> time \<Rightarrow> 't cache_op \<Rightarrow> memory_backend \<Rightarrow>
   (('enc, 'dec, 'load) cache_error, 't option) result \<times> memory_backend \<Rightarrow> bool" where
  "refines_step oc enc dec t c b res \<longleftrightarrow>
     (let (out, m) = spec_step (refused oc) (kept_keys oc b) enc dec t c (cache_view oc b)
      in fst res = out \<and> (\<forall>s. cache_view oc (snd res) (t + s) = m (t + s)))"

lemma cache_view_kept:
  "(cache_view oc b t |` kept_keys oc b) key =
     (case key_in oc key of Err _ \<Rightarrow> None | Ok k \<Rightarrow> if k \<in> mb_evictions b 0 then None else memory_holds b t k)"
  by (simp add: cache_view_def kept_keys_def restrict_map_def split: sum.splits)

lemma refines_read: "refines_step oc enc dec t (Read key) b (cache_step imax oc enc dec t (Read key) b)"
proof (cases "key_in oc key")
  case (Inl e)
  then show ?thesis by (simp add: refines_step_def cache_get_def refused_def key_in_def)
next
  case (Inr k)
  obtain r b1 where get: "memory_get t k b = (r, b1)" by fastforce
  note h = memory_holds_get [OF get]
  have "cache_view oc b1 (t + s) = cache_view oc b (t + s) |` kept_keys oc b" for s
    using h [OF le_add1 [of t s]] by (intro ext) (simp add: cache_view_kept, simp add: cache_view_def split: sum.splits)
  moreover have "r = Ok (if k \<in> mb_evictions b 0 then None else memory_holds b t k)" using h [OF order_refl] by blast
  ultimately show ?thesis
    using Inr get
    by (auto simp: refines_step_def cache_get_def refused_def cache_view_kept key_in_def split: sum.splits option.splits)
qed

lemma refines_write:
  assumes "t + ttl \<le> imax"
  shows "refines_step oc enc dec t (Write key ttl v) b (cache_step imax oc enc dec t (Write key ttl v) b)"
proof (cases "key_in oc key")
  case (Inl e)
  then show ?thesis by (simp add: refines_step_def cache_set_for_def refused_def key_in_def)
next
  case (Inr k)
  show ?thesis
  proof (cases "enc v")
    case (Inl e)
    then show ?thesis using Inr by (simp add: refines_step_def cache_set_for_def refused_def key_in_def)
  next
    case bytes: (Inr bytes)
    obtain b1 where set: "memory_set_result imax t k bytes ttl b = (Ok (), b1)"
      and h: "\<And>t' k'. memory_holds b1 t' k' = (if k' \<in> mb_evictions b 0 then None
        else if k' = k then (if t' < t + ttl then Some bytes else None) else memory_holds b t' k')"
      using memory_holds_set [OF assms] by blast
    have "cache_view oc b1 t' x = ((cache_view oc b t')(key := if t' < t + ttl then Some bytes else None) |` kept_keys oc b) x"
      for t' x
      using Inr key_in_inj [of oc key k x]
      by (auto simp: cache_view_def kept_keys_def restrict_map_def h split: sum.splits)
    then show ?thesis
      using Inr bytes set by (auto simp: refines_step_def cache_set_for_def refused_def key_in_def)
  qed
qed

lemma refines_remove: "refines_step oc enc dec t (Remove key) b (cache_step imax oc enc dec t (Remove key) b)"
proof (cases "key_in oc key")
  case (Inl e)
  then show ?thesis by (simp add: refines_step_def cache_delete_def refused_def key_in_def)
next
  case (Inr k)
  obtain u b1 where del: "memory_delete t k b = (u, b1)" by fastforce
  note h = memory_holds_delete [OF del]
  have "cache_view oc b1 t' x = ((cache_view oc b t' |` kept_keys oc b)(key := None)) x" for t' x
    using Inr key_in_inj [of oc key k x] h [of t']
    by (auto simp: cache_view_def kept_keys_def restrict_map_def split: sum.splits)
  then show ?thesis using Inr del h by (auto simp: refines_step_def cache_delete_def refused_def key_in_def)
qed

text \<open>C18: every operation of the object cache over the in-process backend answers as the abstract map
  does and leaves a backend whose view, now and at every later time, is the abstract map's next state:
  reads and deletes see a key's own entry and no other's, a write is visible until its TTL is over, and
  nothing but expiry, \<open>moka\<close>'s own evictions, a delete or a later write takes a value away.\<close>

theorem object_cache_refines_timed_map:
  fixes enc :: "'t \<Rightarrow> ('enc, string) result" and dec :: "string \<Rightarrow> ('dec, 't) result"
  assumes "representable imax t c"
    and step: "cache_step imax oc enc dec t c b = (out :: (('enc, 'dec, 'load) cache_error, 't option) result, b')"
  shows "out = fst (spec_step (refused oc) (kept_keys oc b) enc dec t c (cache_view oc b)) \<and>
    cache_view oc b' (t + s) =
      snd (spec_step (refused oc) (kept_keys oc b) enc dec t c (cache_view oc b) ::
        (('enc, 'dec, 'load) cache_error, 't option) result \<times> timed_map) (t + s)"
proof -
  have "refines_step oc enc dec t c b
      (cache_step imax oc enc dec t c b :: (('enc, 'dec, 'load) cache_error, 't option) result \<times> memory_backend)"
    using assms(1)
    by (cases c) (simp_all add: representable_def refines_read refines_write refines_remove del: cache_step.simps)
  then show ?thesis by (simp add: step refines_step_def case_prod_beta)
qed

section \<open>Concrete instances\<close>

lemma object_cache_refines_timed_map_witness:
  "\<exists>b'. (cache_step 100 demo_cache Ok Ok 1 (Write (''products'', [''7'']) 10 ''[1]'') (memory_new (\<lambda>_. {}))
       :: ((unit, unit, unit) cache_error, string option) result \<times> memory_backend) = (Ok None, b') \<and>
     cache_view demo_cache b' (1 + 3) (''products'', [''7'']) = Some ''[1]''"
proof -
  let ?c = "Write (''products'', [''7'']) 10 ''[1]''" and ?b = "memory_new (\<lambda>_. {})"
  obtain b' and out :: "((unit, unit, unit) cache_error, string option) result" where
    run: "cache_step 100 demo_cache Ok Ok 1 ?c ?b = (out, b')" by fastforce
  have ok: "representable 100 1 ?c" by (simp add: representable_def)
  have key: "refused demo_cache (''products'', [''7'']) = None" "(''products'', [''7'']) \<in> kept_keys demo_cache ?b"
    by (code_simp, simp add: kept_keys_def memory_new_def split: sum.splits)
  from object_cache_refines_timed_map [OF ok run, of 3] key run show ?thesis by simp
qed

end
