(* ===== verification/Remote_Backends.thy ===== *)
theory Remote_Backends
  imports Cache_Store
begin

text \<open>
  The Redis and Memcached backends (\<open>cache.rs\<close>) over their clients.  A client's commands are functions
  of the time and the server's state; Memcached's state is the list of the streams \<open>connect\<close> opened, one
  per server, and every command locks and changes only the stream of its key.

  The remainder by the number of servers panics when there is none; \<open>connect\<close> refuses an empty list, and
  for the interface the panic is an error that leaves the state alone.
\<close>

section \<open>Redis\<close>

record 'r redis_client =
  rd_get :: "time \<Rightarrow> string \<Rightarrow> 'r \<Rightarrow> (string, string option) result \<times> 'r"
  rd_set_ex :: "time \<Rightarrow> string \<Rightarrow> string \<Rightarrow> nat \<Rightarrow> 'r \<Rightarrow> (string, unit) result \<times> 'r"
  rd_del :: "time \<Rightarrow> string \<Rightarrow> 'r \<Rightarrow> (string, unit) result \<times> 'r"

text \<open>\<open>RedisCacheBackend::connect\<close> over the client library's two steps.\<close>

definition redis_connect ::
  "(string \<Rightarrow> (string, 'cl) result) \<Rightarrow> ('cl \<Rightarrow> (string, 'r) result) \<Rightarrow> string \<Rightarrow> (string, 'r) result" where
  "redis_connect open_client connection_manager url =
     (case open_client url of
        Err e \<Rightarrow> Err (''redis client error: '' @ e)
      | Ok client \<Rightarrow>
          (case connection_manager client of
             Err e \<Rightarrow> Err (''redis connection error: '' @ e)
           | Ok connection \<Rightarrow> Ok connection))"

definition prefix_error :: "string \<Rightarrow> (string, 'a) result \<times> 'r \<Rightarrow> (string, 'a) result \<times> 'r" where
  "prefix_error what out = (map_sum (\<lambda>e. what @ e) id (fst out), snd out)"

definition redis_get :: "'r redis_client \<Rightarrow> time \<Rightarrow> string \<Rightarrow> 'r \<Rightarrow> (string, string option) result \<times> 'r" where
  "redis_get c t key s = prefix_error ''redis get failed: '' (rd_get c t key s)"

definition redis_set :: "'r redis_client \<Rightarrow> time \<Rightarrow> string \<Rightarrow> string \<Rightarrow> duration \<Rightarrow> 'r \<Rightarrow> (string, unit) result \<times> 'r" where
  "redis_set c t key v ttl s = prefix_error ''redis set failed: '' (rd_set_ex c t key v (redis_expiry_secs ttl) s)"

definition redis_delete :: "'r redis_client \<Rightarrow> time \<Rightarrow> string \<Rightarrow> 'r \<Rightarrow> (string, unit) result \<times> 'r" where
  "redis_delete c t key s = prefix_error ''redis delete failed: '' (rd_del c t key s)"

section \<open>Memcached\<close>

datatype io_error = NotFoundKind | OtherKind string

fun io_error_text :: "io_error \<Rightarrow> string" where
  "io_error_text NotFoundKind = ''entity not found''"
| "io_error_text (OtherKind s) = s"

record 's memcache_client =
  mp_get :: "time \<Rightarrow> string \<Rightarrow> 's \<Rightarrow> (io_error, string) result \<times> 's"
  mp_set :: "time \<Rightarrow> string \<Rightarrow> string \<Rightarrow> nat \<Rightarrow> 's \<Rightarrow> (io_error, unit) result \<times> 's"
  mp_delete :: "time \<Rightarrow> string \<Rightarrow> 's \<Rightarrow> (io_error, unit) result \<times> 's"

type_synonym memcached_error = "key_error + string"

text \<open>What a command's answer becomes; \<open>get\<close> alone reads a missing entry as a miss.\<close>

definition memcached_value :: "(io_error, string) result \<Rightarrow> (memcached_error, string option) result" where
  "memcached_value r =
     (case r of
        Ok v \<Rightarrow> Ok (Some v)
      | Err NotFoundKind \<Rightarrow> Ok None
      | Err (OtherKind e) \<Rightarrow> Err (Inr (''memcached get failed: '' @ e)))"

definition memcached_done :: "string \<Rightarrow> (io_error, unit) result \<Rightarrow> (memcached_error, unit) result" where
  "memcached_done what r = (case r of Ok u \<Rightarrow> Ok u | Err e \<Rightarrow> Err (Inr (what @ io_error_text e)))"

text \<open>The guard and the choice of the stream all three operations share.\<close>

definition on_server ::
  "string \<Rightarrow> 's list \<Rightarrow> ('s \<Rightarrow> (memcached_error, 'a) result \<times> 's) \<Rightarrow> (memcached_error, 'a) result \<times> 's list" where
  "on_server key servers cmd =
     (case validate_memcached_key key of
        Some e \<Rightarrow> (Err (Inl e), servers)
      | None \<Rightarrow>
          if servers = [] then (Err (Inr ''panicked''), servers)
          else
            let (r, s) = cmd (server_for_key servers key)
            in (r, servers[server_index (length servers) key := s]))"

definition memcached_get ::
  "'s memcache_client \<Rightarrow> time \<Rightarrow> string \<Rightarrow> 's list \<Rightarrow> (memcached_error, string option) result \<times> 's list" where
  "memcached_get c t key servers = on_server key servers (\<lambda>s. map_prod memcached_value id (mp_get c t key s))"

definition memcached_set ::
  "'s memcache_client \<Rightarrow> time \<Rightarrow> string \<Rightarrow> string \<Rightarrow> duration \<Rightarrow> 's list \<Rightarrow> (memcached_error, unit) result \<times> 's list" where
  "memcached_set c t key v ttl servers =
     on_server key servers
       (\<lambda>s. map_prod (memcached_done ''memcached set failed: '') id (mp_set c t key v (memcached_expiration ttl) s))"

definition memcached_delete ::
  "'s memcache_client \<Rightarrow> time \<Rightarrow> string \<Rightarrow> 's list \<Rightarrow> (memcached_error, unit) result \<times> 's list" where
  "memcached_delete c t key servers =
     on_server key servers (\<lambda>s. map_prod (memcached_done ''memcached delete failed: '') id (mp_delete c t key s))"

section \<open>One server\<close>

text \<open>The same operations on a single stream, without the guard.\<close>

definition one_get :: "'s memcache_client \<Rightarrow> time \<Rightarrow> string \<Rightarrow> 's \<Rightarrow> (memcached_error, string option) result \<times> 's" where
  "one_get c t key s = map_prod memcached_value id (mp_get c t key s)"

definition one_set ::
  "'s memcache_client \<Rightarrow> time \<Rightarrow> string \<Rightarrow> string \<Rightarrow> duration \<Rightarrow> 's \<Rightarrow> (memcached_error, unit) result \<times> 's" where
  "one_set c t key v ttl s =
     map_prod (memcached_done ''memcached set failed: '') id (mp_set c t key v (memcached_expiration ttl) s)"

definition one_delete :: "'s memcache_client \<Rightarrow> time \<Rightarrow> string \<Rightarrow> 's \<Rightarrow> (memcached_error, unit) result \<times> 's" where
  "one_delete c t key s = map_prod (memcached_done ''memcached delete failed: '') id (mp_delete c t key s)"

definition cluster_holds :: "('s \<Rightarrow> time \<Rightarrow> string \<Rightarrow> string option) \<Rightarrow> 's list \<Rightarrow> time \<Rightarrow> string \<Rightarrow> string option" where
  "cluster_holds holds servers t key = (if servers = [] then None else holds (server_for_key servers key) t key)"

section \<open>A cluster is as good as its servers\<close>

lemma on_server_cases:
  assumes "on_server key servers cmd = (r, servers')"
  obtains (refused) e where "r = Err e" "servers' = servers"
  | (ran) i s where "servers \<noteq> []" "i = server_index (length servers) key" "i < length servers"
      "cmd (servers ! i) = (r, s)" "servers' = servers[i := s]"
proof (cases "validate_memcached_key key = None \<and> servers \<noteq> []")
  case True
  obtain s where s: "cmd (server_for_key servers key) = (r, s)" "servers' = servers[server_index (length servers) key := s]"
    using assms True by (auto simp: on_server_def split: prod.splits)
  moreover have "server_index (length servers) key < length servers" using True by (simp add: server_index_def)
  ultimately show thesis using ran True by (simp add: server_for_key_def)
next
  case False
  then show thesis using assms refused by (auto simp: on_server_def split: option.splits if_splits)
qed

text \<open>A command changes what the cluster holds only where its own server does.\<close>

lemma cluster_holds_update:
  assumes "i < length servers"
  shows "cluster_holds holds (servers[i := s]) t k =
    (if server_index (length servers) k = i then holds s t k else cluster_holds holds servers t k)"
  using assms by (auto simp: cluster_holds_def server_for_key_def)

lemma cluster_is_backend:
  assumes "cache_backend (one_get c) (one_set c) (one_delete c) holds lifetime"
  shows "cache_backend (memcached_get c) (memcached_set c) (memcached_delete c) (cluster_holds holds) lifetime"
proof
  note ops = memcached_get_def memcached_set_def memcached_delete_def
  note one = one_get_def [symmetric] one_set_def [symmetric] one_delete_def [symmetric]
  fix t t' k k' v d b b' and answer :: "string option" and r u
  {
    assume "memcached_get c t k b = (Ok answer, b')"
    then show "answer = None \<or> answer = cluster_holds holds b t k"
      unfolding ops one
      by (cases rule: on_server_cases)
        (auto simp: cluster_holds_def server_for_key_def dest: cache_backend.get_answer [OF assms])
  next
    assume "memcached_get c t k b = (r, b')" "t \<le> t'"
    from this(1) show "cluster_holds holds b' t' k' = None \<or> cluster_holds holds b' t' k' = cluster_holds holds b t' k'"
      unfolding ops one
    proof (cases rule: on_server_cases)
      case (ran i s)
      then show ?thesis using cache_backend.get_keeps [OF assms ran(4) \<open>t \<le> t'\<close>, of k']
        by (auto simp: cluster_holds_update) (simp_all add: cluster_holds_def server_for_key_def)
    qed simp
  next
    assume "memcached_set c t k v d b = (u, b')" "t \<le> t'"
    from this(1) show "cluster_holds holds b' t' k = None \<or>
        (cluster_holds holds b' t' k = Some v \<and> t' < t + lifetime d) \<or>
        (u \<noteq> Ok () \<and> cluster_holds holds b' t' k = cluster_holds holds b t' k)"
      unfolding ops one
    proof (cases rule: on_server_cases)
      case (ran i s)
      then show ?thesis using cache_backend.set_value [OF assms ran(4) \<open>t \<le> t'\<close>]
        by (auto simp: cluster_holds_update) (simp_all add: cluster_holds_def server_for_key_def)
    qed simp
  next
    assume "memcached_set c t k v d b = (u, b')" "t \<le> t'" "k' \<noteq> k"
    from this(1) show "cluster_holds holds b' t' k' = None \<or> cluster_holds holds b' t' k' = cluster_holds holds b t' k'"
      unfolding ops one
    proof (cases rule: on_server_cases)
      case (ran i s)
      then show ?thesis using cache_backend.set_keeps [OF assms ran(4) \<open>t \<le> t'\<close> \<open>k' \<noteq> k\<close>]
        by (auto simp: cluster_holds_update) (simp_all add: cluster_holds_def server_for_key_def)
    qed simp
  next
    assume "memcached_delete c t k b = (Ok (), b')" "t \<le> t'"
    from this(1) show "cluster_holds holds b' t' k = None"
      unfolding ops one
    proof (cases rule: on_server_cases)
      case (ran i s)
      then show ?thesis using cache_backend.delete_drops [OF assms _ \<open>t \<le> t'\<close>, of k "b ! i" s]
        by (simp add: cluster_holds_update)
    qed simp
  next
    assume "memcached_delete c t k b = (u, b')" "t \<le> t'"
    from this(1) show "cluster_holds holds b' t' k' = None \<or> cluster_holds holds b' t' k' = cluster_holds holds b t' k'"
      unfolding ops one
    proof (cases rule: on_server_cases)
      case (ran i s)
      then show ?thesis using cache_backend.delete_keeps [OF assms ran(4) \<open>t \<le> t'\<close>, of k']
        by (auto simp: cluster_holds_update) (simp_all add: cluster_holds_def server_for_key_def)
    qed simp
  }
qed

section \<open>Properties\<close>

text \<open>C32: over any number of Memcached servers that each keep the contract of a cache, whatever the
  backend serves for a key after any history of calls was written for that very key, by the last write
  that a successful delete did not undo, and is within its lifetime: the choice of the server by the
  hash of the key never mixes servers up.\<close>

theorem memcached_serves_live_values:
  assumes server: "cache_backend (one_get c) (one_set c) (one_delete c) holds lifetime"
    and empty: "\<And>s t k. s \<in> set servers \<Longrightarrow> holds s t k = None"
    and run: "run_calls (memcached_get c) (memcached_set c) (memcached_delete c) h servers = (lg, servers')"
    and "\<forall>x \<in> set h. fst x \<le> t" and get: "memcached_get c t k servers' = (Ok (Some v), servers'')"
  shows "served lifetime t k (rev lg) v"
proof -
  note cluster = cluster_is_backend [OF server]
  have "cluster_holds holds servers' t k = Some v"
    using cache_backend.get_answer [OF cluster get] by simp
  moreover have "cluster_holds holds servers t k \<noteq> Some w" for w
    using empty [of "server_for_key servers k" t k]
    by (auto simp: cluster_holds_def server_for_key_def server_index_def)
  ultimately show ?thesis
    using cache_backend.holds_served [OF cluster run assms(4), of k v "[]"] by simp
qed

text \<open>A server whose store is the in-process one keeps the contract, with TTLs rounded to seconds.\<close>

definition demo_memcache :: "memory_backend memcache_client" where
  "demo_memcache =
     \<lparr>mp_get = (\<lambda>t k m. case memory_get t k m of
          (Ok (Some v), m) \<Rightarrow> (Ok v, m) | (Ok None, m) \<Rightarrow> (Err NotFoundKind, m) | (Err e, m) \<Rightarrow> (Err (OtherKind e), m)),
      mp_set = (\<lambda>t k v secs m. map_prod (map_sum OtherKind id) id (memory_set_result (10 ^ 20) t k v (from_secs secs) m)),
      mp_delete = (\<lambda>t k m. map_prod (map_sum OtherKind id) id (memory_delete t k m))\<rparr>"

lemma demo_memcache_backend:
  "cache_backend (one_get demo_memcache) (one_set demo_memcache) (one_delete demo_memcache) memory_holds
     (\<lambda>d. from_secs (memcached_expiration d))"
proof
  note defs = one_get_def one_set_def one_delete_def demo_memcache_def memcached_value_def memcached_done_def
    memory_get_def memory_set_result_def memory_set_def memory_delete_def memory_holds_def moka_evict_def
    restrict_map_def Let_def
  fix t t' k k' v d b b' and answer :: "string option"
    and r :: "(memcached_error, string option) result" and u :: "(memcached_error, unit) result"
  show "one_get demo_memcache t k b = (Ok answer, b') \<Longrightarrow> answer = None \<or> answer = memory_holds b t k"
    by (auto simp: defs split: option.splits if_splits)
  show "one_get demo_memcache t k b = (r, b') \<Longrightarrow> t \<le> t' \<Longrightarrow> memory_holds b' t' k' = None \<or> memory_holds b' t' k' = memory_holds b t' k'"
    by (auto simp: defs split: option.splits if_splits)
  show "one_set demo_memcache t k v d b = (u, b') \<Longrightarrow> t \<le> t' \<Longrightarrow>
      memory_holds b' t' k = None \<or> (memory_holds b' t' k = Some v \<and> t' < t + from_secs (memcached_expiration d)) \<or>
      (u \<noteq> Ok () \<and> memory_holds b' t' k = memory_holds b t' k)"
    by (auto simp: defs split: option.splits if_splits)
  show "one_set demo_memcache t k v d b = (u, b') \<Longrightarrow> t \<le> t' \<Longrightarrow> k' \<noteq> k \<Longrightarrow>
      memory_holds b' t' k' = None \<or> memory_holds b' t' k' = memory_holds b t' k'"
    by (auto simp: defs split: option.splits if_splits)
  show "one_delete demo_memcache t k b = (Ok (), b') \<Longrightarrow> t \<le> t' \<Longrightarrow> memory_holds b' t' k = None"
    by (auto simp: defs split: option.splits if_splits)
  show "one_delete demo_memcache t k b = (u, b') \<Longrightarrow> t \<le> t' \<Longrightarrow>
      memory_holds b' t' k' = None \<or> memory_holds b' t' k' = memory_holds b t' k'"
    by (auto simp: defs split: option.splits if_splits)
qed

lemma memcached_serves_live_values_witness:
  "\<exists>lg servers' servers''. run_calls (memcached_get demo_memcache) (memcached_set demo_memcache) (memcached_delete demo_memcache)
      [(1, CSet ''k'' ''v'' (10 ^ 9))] [memory_new (\<lambda>_. {}), memory_new (\<lambda>_. {})] = (lg, servers') \<and>
    memcached_get demo_memcache 5 ''k'' servers' = (Ok (Some ''v''), servers'') \<and>
    served (\<lambda>d. from_secs (memcached_expiration d)) 5 ''k'' (rev lg) ''v''"
proof -
  let ?servers = "[memory_new (\<lambda>_. {}), memory_new (\<lambda>_. {})]"
  obtain lg servers' where run: "run_calls (memcached_get demo_memcache) (memcached_set demo_memcache)
      (memcached_delete demo_memcache) [(1, CSet ''k'' ''v'' (10 ^ 9))] ?servers = (lg, servers')" by fastforce
  obtain r servers'' where get: "memcached_get demo_memcache 5 ''k'' servers' = (r, servers'')" by fastforce
  have valid: "validate_memcached_key ''k'' = None" by code_simp
  have "server_index 2 ''k'' = 0"
    by (simp add: server_index_def stable_hash_def FNV_OFFSET_def FNV_PRIME_def byte_def)
  then have index: "server_index (Suc (Suc 0)) ''k'' = 0" by (simp only: numeral_2_eq_2)
  have secs: "memcached_expiration 1000000000 = 1"
    by (simp add: memcached_expiration_def as_secs_def u32_max_def Let_def)
  have set: "servers' = [\<lparr>mb_entries = [''k'' \<mapsto> \<lparr>st_bytes = ''v'', st_expires_at = 1 + 10 ^ 9\<rparr>], mb_evictions = \<lambda>_. {}\<rparr>,
      memory_new (\<lambda>_. {})]"
    using run valid index
    by (auto simp: memcached_set_def on_server_def server_for_key_def demo_memcache_def secs from_secs_def
        memory_set_no_eviction memory_new_def Let_def split: prod.splits)
  have "r = Ok (Some ''v'')"
    using get valid index
    by (auto simp: set memcached_get_def on_server_def server_for_key_def demo_memcache_def memory_get_def
        moka_evict_def restrict_map_def memcached_value_def Let_def)
  with get have got: "memcached_get demo_memcache 5 ''k'' servers' = (Ok (Some ''v''), servers'')" by simp
  have none: "s \<in> set ?servers \<Longrightarrow> memory_holds s t k = None" for s t k
    by (auto simp: memory_holds_def memory_new_def)
  from memcached_serves_live_values [OF demo_memcache_backend none run _ got] run got show ?thesis by auto
qed

end
