(* ===== verification/Config.thy ===== *)
theory Config
  imports Prelude "HOL-Library.List_Lexorder"
begin

text \<open>
  Application configuration (\<open>rusty-gasket/src/config.rs\<close>): the deployment environment and
  its names, the server section, \<open>AppConfigDefinition::resolve\<close> with the deep merge of
  per-environment overrides, the sections of the resolved \<open>AppConfig\<close>, the file loader and
  \<open>StringSet\<close>.

  The process environment is an argument \<open>penv\<close> (the variables that are set to valid
  Unicode), the file system an argument \<open>rd\<close>; the TOML and YAML parsers are arguments.  A
  JSON object is an association list with strictly ascending keys, the iteration order of
  \<open>serde_json::Map\<close>; a \<open>HashMap\<close> is a map.
\<close>

section \<open>Environment\<close>

datatype environment = Local | DevPrivate | Development | Test | Staging | Production

fun show_environment :: "environment \<Rightarrow> string" where
  "show_environment Local = ''local''"
| "show_environment DevPrivate = ''dev-private''"
| "show_environment Development = ''development''"
| "show_environment Test = ''test''"
| "show_environment Staging = ''staging''"
| "show_environment Production = ''production''"

text \<open>The serde names: \<open>rename_all = "lowercase"\<close>, the explicit rename and the aliases.\<close>

definition environment_names :: "(string \<times> environment) list" where
  "environment_names =
     [(''local'', Local), (''dev-private'', DevPrivate), (''devprivate'', DevPrivate),
      (''development'', Development), (''dev'', Development), (''test'', Test),
      (''staging'', Staging), (''production'', Production), (''prod'', Production)]"

definition environment_of :: "string \<Rightarrow> environment option" where
  "environment_of s = map_of environment_names s"

lemma environment_of_show [simp]: "environment_of (show_environment e) = Some e"
  by (cases e) (simp_all add: environment_of_def environment_names_def)

section \<open>JSON values\<close>

datatype json =
    JNull
  | JBool bool
  | JNum string \<comment> \<open>the text of the number\<close>
  | JStr string
  | JArr "json list"
  | JObj "(string \<times> json) list"

fun obj_insert :: "string \<Rightarrow> 'a \<Rightarrow> (string \<times> 'a) list \<Rightarrow> (string \<times> 'a) list" where
  "obj_insert k v [] = [(k, v)]"
| "obj_insert k v ((k', v') # xs) =
     (if k < k' then (k, v) # (k', v') # xs
      else if k = k' then (k, v) # xs
      else (k', v') # obj_insert k v xs)"

definition obj_wf :: "(string \<times> 'a) list \<Rightarrow> bool" where
  "obj_wf xs \<longleftrightarrow> sorted_wrt (<) (map fst xs)"

fun json_wf :: "json \<Rightarrow> bool" where
  "json_wf (JObj xs) \<longleftrightarrow> obj_wf xs \<and> list_all json_wf (map snd xs)"
| "json_wf (JArr xs) \<longleftrightarrow> list_all json_wf xs"
| "json_wf _ \<longleftrightarrow> True"

lemma set_fst_obj_insert: "fst ` set (obj_insert k v xs) = insert k (fst ` set xs)"
  by (induction k v xs rule: obj_insert.induct) auto

lemma obj_wf_insert: "obj_wf xs \<Longrightarrow> obj_wf (obj_insert k v xs)"
proof (induction k v xs rule: obj_insert.induct)
  case (2 k v k' v' xs)
  have "\<forall>x \<in> fst ` set xs. k' < x" using "2.prems" by (auto simp: obj_wf_def)
  with 2 show ?case
    using set_fst_obj_insert [of k v xs] by (auto simp: obj_wf_def)
qed (simp add: obj_wf_def)

lemma map_of_obj_insert: "obj_wf xs \<Longrightarrow> map_of (obj_insert k v xs) = (map_of xs)(k \<mapsto> v)"
proof (induction k v xs rule: obj_insert.induct)
  case (2 k v k' v' xs)
  then show ?case by (auto simp: obj_wf_def fun_eq_iff)
qed simp

lemma obj_insert_same:
  "obj_wf xs \<Longrightarrow> map_of xs k = Some v \<Longrightarrow> obj_insert k v xs = xs"
  by (induction k v xs rule: obj_insert.induct)
    (auto simp: obj_wf_def dest!: map_of_SomeD split: if_splits)

section \<open>Deep merge\<close>

function (sequential) deep_merge_json :: "json \<Rightarrow> json \<Rightarrow> json"
  and merge_entries :: "(string \<times> json) list \<Rightarrow> (string \<times> json) list \<Rightarrow> (string \<times> json) list
    \<Rightarrow> (string \<times> json) list"
where
  "deep_merge_json (JObj base) (JObj overlay) = JObj (merge_entries base overlay base)"
| "deep_merge_json base overlay = overlay"
| "merge_entries base [] merged = merged"
| "merge_entries base ((key, overlay_val) # os) merged =
     merge_entries base os
       (obj_insert key
         (case map_of base key of
            Some base_val \<Rightarrow> deep_merge_json base_val overlay_val
          | None \<Rightarrow> overlay_val)
         merged)"
  by pat_completeness auto
termination
  by (relation "measure (\<lambda>x. case x of
        Inl (b, v) \<Rightarrow> 2 * size v
      | Inr (b, os, m) \<Rightarrow> 2 * size_list (size_prod (\<lambda>_. 0) size) os + 1)") auto

text \<open>The loop over the overlay computes the merge of both objects key by key.\<close>

lemma merge_entries_spec:
  "obj_wf merged \<Longrightarrow> distinct (map fst os) \<Longrightarrow>
   obj_wf (merge_entries base os merged) \<and>
   map_of (merge_entries base os merged) k =
     (case map_of os k of
        None \<Rightarrow> map_of merged k
      | Some v \<Rightarrow> Some (case map_of base k of Some b \<Rightarrow> deep_merge_json b v | None \<Rightarrow> v))"
proof (induction os arbitrary: merged)
  case (Cons p os)
  obtain key v where p: "p = (key, v)" by (cases p)
  have "map_of os key = None" using Cons.prems(2) p by (simp add: map_of_eq_None_iff)
  then show ?case
    using Cons.IH [OF obj_wf_insert [OF Cons.prems(1)]] Cons.prems p
    by (auto simp: map_of_obj_insert split: option.splits)
qed simp

lemma obj_wf_distinct: "obj_wf xs \<Longrightarrow> distinct (map fst xs)"
  unfolding obj_wf_def by (simp add: strict_sorted_iff)

lemma set_obj_insert: "x \<in> set (obj_insert k v xs) \<Longrightarrow> x = (k, v) \<or> x \<in> set xs"
  by (induction k v xs rule: obj_insert.induct) (auto split: if_splits)

lemma deep_merge_wf:
  "json_wf b \<longrightarrow> json_wf v \<longrightarrow> json_wf (deep_merge_json b v)"
  "obj_wf merged \<longrightarrow> list_all json_wf (map snd merged) \<longrightarrow> list_all json_wf (map snd base) \<longrightarrow>
     list_all json_wf (map snd os) \<longrightarrow>
   obj_wf (merge_entries base os merged) \<and> list_all json_wf (map snd (merge_entries base os merged))"
proof (induction b v and base os merged rule: deep_merge_json_merge_entries.induct)
  case (4 base key v os merged)
  let ?w = "case map_of base key of Some b \<Rightarrow> deep_merge_json b v | None \<Rightarrow> v"
  show ?case
  proof (intro impI)
    assume m: "obj_wf merged" "list_all json_wf (map snd merged)"
      and b: "list_all json_wf (map snd base)" and os: "list_all json_wf (map snd ((key, v) # os))"
    have "json_wf ?w"
    proof (cases "map_of base key")
      case (Some x)
      then have "json_wf x" using b map_of_SomeD [OF Some] by (auto simp: list_all_iff)
      then show ?thesis using "4.IH"(1) [OF Some] os Some by simp
    qed (use os in simp)
    then have "list_all json_wf (map snd (obj_insert key ?w merged))"
      using m(2) by (auto simp: list_all_iff dest!: set_obj_insert)
    then show "obj_wf (merge_entries base ((key, v) # os) merged) \<and>
        list_all json_wf (map snd (merge_entries base ((key, v) # os) merged))"
      using "4.IH"(2) obj_wf_insert [OF m(1)] b os by simp
  qed
qed auto

text \<open>Two objects are equal when they are well formed and hold the same entries.\<close>

lemma obj_ext:
  assumes "obj_wf xs" "obj_wf ys" "map_of xs = map_of ys"
  shows "xs = ys"
proof -
  have d: "distinct (map fst xs)" "distinct (map fst ys)" and st: "sorted (map fst xs)" "sorted (map fst ys)"
    using assms by (auto simp: obj_wf_def strict_sorted_iff)
  have "set xs = set ys" using d assms(3) by (simp add: map_of_inject_set)
  moreover have "inj_on fst (set xs \<union> set ys)" using calculation d by (simp add: distinct_map)
  ultimately show ?thesis using map_sorted_distinct_set_unique d st by blast
qed

lemma deep_merge_idem: "json_wf a \<Longrightarrow> deep_merge_json a a = a"
proof (induction "size a" arbitrary: a rule: less_induct)
  case less
  show ?case
  proof (cases a)
    case (JObj xs)
    then have wf: "obj_wf xs" "distinct (map fst xs)" and all: "\<forall>x \<in> set xs. json_wf (snd x)"
      using less.prems by (auto simp: obj_wf_distinct list_all_iff)
    have sub: "deep_merge_json v v = v" if "map_of xs k = Some v" for k v
    proof (rule less.hyps)
      have kv: "(k, v) \<in> set xs" using that by (rule map_of_SomeD)
      then show "json_wf v" using all by auto
      from kv show "size v < size a"
        unfolding JObj by (induction xs) auto
    qed
    have "map_of (merge_entries xs xs xs) k = map_of xs k" for k
      using merge_entries_spec [OF wf, of xs k] sub [of k] by (auto split: option.splits)
    then have "merge_entries xs xs xs = xs"
      using merge_entries_spec [OF wf] by (intro obj_ext) (auto simp: wf)
    then show ?thesis by (simp add: JObj)
  qed simp_all
qed

section \<open>Definition and resolution\<close>

text \<open>\<open>std::env::var\<close>: \<open>None\<close> when the variable is unset or not valid Unicode.\<close>

type_synonym process_env = "string \<Rightarrow> string option"

record tls_config =
  cert_pem :: string
  key_pem :: string

record server_config =
  sv_host :: string
  sv_port :: nat \<comment> \<open>\<open>u16\<close>\<close>
  sv_tls :: "tls_config option"

definition default_host :: "process_env \<Rightarrow> string" where
  "default_host penv = (case penv ''HOST'' of Some h \<Rightarrow> h | None \<Rightarrow> ''0.0.0.0'')"

definition default_port :: "process_env \<Rightarrow> nat" where
  "default_port penv =
     (case penv ''PORT'' of
        None \<Rightarrow> 8443
      | Some p \<Rightarrow> (case parse_uint u16_max p of Some n \<Rightarrow> n | None \<Rightarrow> 8443))"

definition server_config_default :: "process_env \<Rightarrow> server_config" where
  "server_config_default penv =
     \<lparr>sv_host = default_host penv, sv_port = default_port penv, sv_tls = None\<rparr>"

definition server_config_new :: "string \<Rightarrow> nat \<Rightarrow> server_config" where
  "server_config_new host port = \<lparr>sv_host = host, sv_port = port, sv_tls = None\<rparr>"

definition tls_from_pem :: "string \<Rightarrow> string \<Rightarrow> tls_config" where
  "tls_from_pem cert key = \<lparr>cert_pem = cert, key_pem = key\<rparr>"

definition with_tls :: "tls_config \<Rightarrow> server_config \<Rightarrow> server_config" where
  "with_tls tls sv = sv\<lparr>sv_tls := Some tls\<rparr>"

record app_config_definition =
  df_name :: string
  df_env :: "string option"
  df_server :: server_config
  df_environments :: "string \<rightharpoonup> json"
  df_extra :: "string \<rightharpoonup> json"

definition default_app_name :: string where
  "default_app_name = ''rusty-gasket-app''"

definition definition_default :: "process_env \<Rightarrow> app_config_definition" where
  "definition_default penv =
     \<lparr>df_name = default_app_name, df_env = None, df_server = server_config_default penv,
      df_environments = Map.empty, df_extra = Map.empty\<rparr>"

definition definition_new :: "process_env \<Rightarrow> string \<Rightarrow> app_config_definition" where
  "definition_new penv name = (definition_default penv)\<lparr>df_name := name\<rparr>"

definition definition_server :: "server_config \<Rightarrow> app_config_definition \<Rightarrow> app_config_definition" where
  "definition_server sv d = d\<lparr>df_server := sv\<rparr>"

definition definition_env :: "string \<Rightarrow> app_config_definition \<Rightarrow> app_config_definition" where
  "definition_env e d = d\<lparr>df_env := Some e\<rparr>"

record app_config =
  ac_name :: string
  ac_env :: environment
  ac_server :: server_config
  ac_sections :: "string \<rightharpoonup> json"

datatype 'e config_error =
    SectionNotFound string
  | SectionInvalid string 'e
  | DeserializeError 'e

fun merge_sections :: "(string \<times> json) list \<Rightarrow> (string \<rightharpoonup> json) \<Rightarrow> (string \<rightharpoonup> json)" where
  "merge_sections [] sections = sections"
| "merge_sections ((key, v) # obj) sections =
     merge_sections obj
       (case sections key of
          Some existing \<Rightarrow> sections(key \<mapsto> deep_merge_json existing v)
        | None \<Rightarrow> sections(key \<mapsto> v))"

definition resolve_env_str :: "process_env \<Rightarrow> app_config_definition \<Rightarrow> string" where
  "resolve_env_str penv d =
     (case penv ''GASKET_ENV'' of
        Some e \<Rightarrow> e
      | None \<Rightarrow> (case df_env d of Some e \<Rightarrow> e | None \<Rightarrow> ''local''))"

definition env_overrides :: "app_config_definition \<Rightarrow> string \<Rightarrow> environment \<Rightarrow> json option" where
  "env_overrides d env_str env =
     (case df_environments d env_str of
        Some v \<Rightarrow> Some v
      | None \<Rightarrow> df_environments d (show_environment env))"

text \<open>The error is the name that no environment has.\<close>

definition resolve :: "process_env \<Rightarrow> app_config_definition \<Rightarrow> (string, app_config) result" where
  "resolve penv d =
     (let env_str = resolve_env_str penv d in
      case environment_of env_str of
        None \<Rightarrow> Err env_str
      | Some env \<Rightarrow>
          let sections = df_extra d;
              sections =
                (case env_overrides d env_str env of
                   Some (JObj obj) \<Rightarrow> merge_sections obj sections
                 | _ \<Rightarrow> sections)
          in Ok \<lparr>ac_name = df_name d, ac_env = env, ac_server = df_server d, ac_sections = sections\<rparr>)"

section \<open>Reading the resolved configuration\<close>

text \<open>\<open>de\<close> is the \<open>serde_json::from_value\<close> instance of the requested type.\<close>

definition section_of ::
  "(json \<Rightarrow> ('e, 't) result) \<Rightarrow> app_config \<Rightarrow> string \<Rightarrow> ('e config_error, 't) result" where
  "section_of de c key =
     (case ac_sections c key of
        None \<Rightarrow> Err (SectionNotFound key)
      | Some v \<Rightarrow> (case de v of Err e \<Rightarrow> Err (DeserializeError e) | Ok t \<Rightarrow> Ok t))"

definition section_or_default ::
  "(json \<Rightarrow> ('e, 't) result) \<Rightarrow> 't \<Rightarrow> app_config \<Rightarrow> string \<Rightarrow> ('e config_error, 't) result" where
  "section_or_default de dflt c key =
     (case ac_sections c key of
        Some v \<Rightarrow> (case de v of Err e \<Rightarrow> Err (SectionInvalid key e) | Ok t \<Rightarrow> Ok t)
      | None \<Rightarrow> Ok dflt)"

definition has_section :: "app_config \<Rightarrow> string \<Rightarrow> bool" where
  "has_section c key \<longleftrightarrow> ac_sections c key \<noteq> None"

definition set_section :: "string \<Rightarrow> json \<Rightarrow> app_config \<Rightarrow> app_config" where
  "set_section key v c = c\<lparr>ac_sections := (ac_sections c)(key \<mapsto> v)\<rparr>"

section \<open>Config files\<close>

text \<open>\<open>Path::file_name\<close> and \<open>Path::extension\<close> on a Unix path.\<close>

definition path_file_name :: "string \<Rightarrow> string option" where
  "path_file_name p =
     (case rev (filter (\<lambda>c. c \<noteq> [] \<and> c \<noteq> ''.'') (split_char (CHR ''/'') p)) of
        [] \<Rightarrow> None
      | c # _ \<Rightarrow> if c = ''..'' then None else Some c)"

definition path_extension :: "string \<Rightarrow> string option" where
  "path_extension p =
     (case path_file_name p of
        None \<Rightarrow> None
      | Some f \<Rightarrow>
          (case split_once (CHR ''.'') (rev f) of
             None \<Rightarrow> None
           | Some (after, before) \<Rightarrow> if before = [] then None else Some (rev after)))"

datatype ('io, 'e) load_error = ReadFailed string 'io | ParseFailed 'e

datatype 'io read_error = NotFound | OtherIo 'io

definition or_else :: "('e, 'a) result \<Rightarrow> ('e \<Rightarrow> ('f, 'a) result) \<Rightarrow> ('f, 'a) result" where
  "or_else r f = (case r of Ok a \<Rightarrow> Ok a | Err e \<Rightarrow> f e)"

definition parse_with_extension ::
  "(string \<Rightarrow> ('e, 'd) result) \<Rightarrow> (string \<Rightarrow> ('e, 'd) result) \<Rightarrow> string \<Rightarrow> string \<Rightarrow> ('e, 'd) result"
where
  "parse_with_extension from_toml from_yaml path contents =
     (let ext = (case path_extension path of Some e \<Rightarrow> e | None \<Rightarrow> []) in
      if ext = ''toml'' then from_toml contents
      else if ext = ''yaml'' \<or> ext = ''yml'' then from_yaml contents
      else or_else (from_toml contents) (\<lambda>_. from_yaml contents))"

definition from_file ::
  "(string \<Rightarrow> ('io read_error, string) result) \<Rightarrow> (string \<Rightarrow> ('e, 'd) result) \<Rightarrow>
   (string \<Rightarrow> ('e, 'd) result) \<Rightarrow> string \<Rightarrow> ('io read_error + 'e, 'd) result"
where
  "from_file rd from_toml from_yaml path =
     (case rd path of
        Err e \<Rightarrow> Err (Inl e)
      | Ok contents \<Rightarrow>
          (case parse_with_extension from_toml from_yaml path contents of
             Err e \<Rightarrow> Err (Inr e)
           | Ok d \<Rightarrow> Ok d))"

definition from_file_optional ::
  "(string \<Rightarrow> ('io read_error, string) result) \<Rightarrow> (string \<Rightarrow> ('e, 'd) result) \<Rightarrow>
   (string \<Rightarrow> ('e, 'd) result) \<Rightarrow> string \<Rightarrow> ('io read_error + 'e, 'd option) result"
where
  "from_file_optional rd from_toml from_yaml path =
     (case rd path of
        Err NotFound \<Rightarrow> Ok None
      | Err (OtherIo e) \<Rightarrow> Err (Inl (OtherIo e))
      | Ok contents \<Rightarrow>
          (case parse_with_extension from_toml from_yaml path contents of
             Err e \<Rightarrow> Err (Inr e)
           | Ok d \<Rightarrow> Ok (Some d)))"

section \<open>Secrets from the environment\<close>

text \<open>\<open>EnvSecretsProvider\<close>; \<open>upper\<close> is \<open>str::to_uppercase\<close>, whose Unicode tables are not modelled.  Two
  names that differ only in case or in dashes against underscores are one variable.\<close>

definition env_secret_key :: "(string \<Rightarrow> string) \<Rightarrow> string \<Rightarrow> string" where
  "env_secret_key upper key = map (\<lambda>c. if c = CHR ''-'' then CHR ''_'' else c) (upper key)"

definition env_get_secret :: "(string \<Rightarrow> string) \<Rightarrow> process_env \<Rightarrow> string \<Rightarrow> string option" where
  "env_get_secret upper penv key = penv (env_secret_key upper key)"

section \<open>String sets\<close>

type_synonym string_set = "string set"

definition string_set_new :: string_set where
  "string_set_new = {}"

definition string_set_from_values :: "string list \<Rightarrow> string_set" where
  "string_set_from_values vs = set vs"

datatype ('io, 'e) string_set_error = SetIo 'io | SetParse 'e | InvalidField string string

fun collect_strings :: "string \<Rightarrow> json list \<Rightarrow> string_set \<Rightarrow> (('io, 'e) string_set_error, string_set) result"
where
  "collect_strings field [] vs = Ok vs"
| "collect_strings field (JStr v # items) vs = collect_strings field items (insert v vs)"
| "collect_strings field (_ # items) vs =
     Err (InvalidField field ''all sequence entries must be strings'')"

definition load_yaml_field_optional ::
  "(string \<Rightarrow> ('io read_error, string) result) \<Rightarrow> (string \<Rightarrow> ('e, json) result) \<Rightarrow> string \<Rightarrow> string \<Rightarrow>
   (('io, 'e) string_set_error, string_set) result"
where
  "load_yaml_field_optional rd yaml path field =
     (case rd path of
        Err NotFound \<Rightarrow> Ok string_set_new
      | Err (OtherIo e) \<Rightarrow> Err (SetIo e)
      | Ok contents \<Rightarrow>
          (case yaml contents of
             Err e \<Rightarrow> Err (SetParse e)
           | Ok document \<Rightarrow>
               (case (case document of JObj obj \<Rightarrow> map_of obj field | _ \<Rightarrow> None) of
                  None \<Rightarrow> Ok string_set_new
                | Some (JArr items) \<Rightarrow> collect_strings field items {}
                | Some _ \<Rightarrow> Err (InvalidField field ''expected a YAML sequence of strings''))))"

definition extend_csv :: "string \<Rightarrow> string_set \<Rightarrow> string_set" where
  "extend_csv csv vs =
     fold insert (filter (\<lambda>v. v \<noteq> []) (map trim (split_char (CHR '','') csv))) vs"

definition with_env_csv :: "process_env \<Rightarrow> string \<Rightarrow> string_set \<Rightarrow> string_set" where
  "with_env_csv penv var vs =
     (case penv var of Some raw \<Rightarrow> extend_csv raw vs | None \<Rightarrow> vs)"

definition string_set_len :: "string_set \<Rightarrow> nat" where
  "string_set_len vs = card vs"

definition string_set_is_empty :: "string_set \<Rightarrow> bool" where
  "string_set_is_empty vs \<longleftrightarrow> vs = {}"

definition string_set_contains :: "string_set \<Rightarrow> string \<Rightarrow> bool" where
  "string_set_contains vs v \<longleftrightarrow> v \<in> vs"

section \<open>Properties\<close>

lemma merge_sections_spec:
  "distinct (map fst obj) \<Longrightarrow>
   merge_sections obj sections k =
     (case map_of obj k of
        None \<Rightarrow> sections k
      | Some v \<Rightarrow> Some (case sections k of Some b \<Rightarrow> deep_merge_json b v | None \<Rightarrow> v))"
proof (induction obj sections rule: merge_sections.induct)
  case (2 key v obj sections)
  have "map_of obj key = None" using "2.prems" by (simp add: map_of_eq_None_iff)
  with 2 show ?case by (auto split: option.splits)
qed simp

text \<open>merging two objects works key by key: a key of the overlay alone is taken over, a
  key of both is merged recursively, a key of the base alone stays; the result is a well
  formed object again.\<close>

theorem deep_merge_objects:
  assumes "json_wf (JObj base)" and "json_wf (JObj overlay)"
  shows "\<exists>m. deep_merge_json (JObj base) (JObj overlay) = JObj m \<and> json_wf (JObj m) \<and>
    (\<forall>k. map_of m k =
      (case (map_of base k, map_of overlay k) of
         (b, None) \<Rightarrow> b
       | (None, Some v) \<Rightarrow> Some v
       | (Some b, Some v) \<Rightarrow> Some (deep_merge_json b v)))"
proof -
  have "json_wf (deep_merge_json (JObj base) (JObj overlay))"
    using deep_merge_wf(1) assms by blast
  moreover have "map_of (merge_entries base overlay base) k =
      (case (map_of base k, map_of overlay k) of
         (b, None) \<Rightarrow> b
       | (None, Some v) \<Rightarrow> Some v
       | (Some b, Some v) \<Rightarrow> Some (deep_merge_json b v))" for k
    using merge_entries_spec [of base overlay base k] assms
    by (auto simp: obj_wf_distinct split: option.splits)
  ultimately show ?thesis by simp
qed

text \<open>\<open>resolve\<close> accepts exactly the serde names of the six environments, whichever of
  \<open>GASKET_ENV\<close>, the \<open>env\<close> field or the default \<open>local\<close> supplies the name, and each section
  of the result is the base section merged with the override that the environment's table
  (under the name given, else under the canonical name) has for it.\<close>

theorem resolve_sections:
  assumes "\<And>n v. df_environments d n = Some v \<Longrightarrow> json_wf v"
  shows "case environment_of (resolve_env_str penv d) of
      None \<Rightarrow> resolve penv d = Err (resolve_env_str penv d)
    | Some env \<Rightarrow> \<exists>c. resolve penv d = Ok c \<and> ac_env c = env \<and> ac_name c = df_name d \<and>
        ac_server c = df_server d \<and>
        (\<forall>k. ac_sections c k =
          (case (df_extra d k,
                 case env_overrides d (resolve_env_str penv d) env of
                   Some (JObj obj) \<Rightarrow> map_of obj k | _ \<Rightarrow> None) of
             (b, None) \<Rightarrow> b
           | (None, Some v) \<Rightarrow> Some v
           | (Some b, Some v) \<Rightarrow> Some (deep_merge_json b v)))"
proof (cases "environment_of (resolve_env_str penv d)")
  case None
  then show ?thesis by (simp add: resolve_def)
next
  case (Some env)
  have wf: "obj_wf obj" if "env_overrides d (resolve_env_str penv d) env = Some (JObj obj)" for obj
    using that assms by (fastforce simp: env_overrides_def split: option.splits)
  show ?thesis
    using Some wf
    by (auto simp: resolve_def Let_def merge_sections_spec obj_wf_distinct
        split: option.splits json.splits)
qed

text \<open>an explicit \<open>env\<close> is not a pin: whenever \<open>GASKET_ENV\<close> is set, it decides.\<close>

theorem gasket_env_overrides_pin:
  assumes "penv ''GASKET_ENV'' = Some e"
  shows "resolve penv (definition_env pin d) = resolve penv d"
proof -
  have "env_overrides (definition_env pin d) = env_overrides d"
    by (auto simp: env_overrides_def definition_env_def fun_eq_iff split: option.splits)
  then show ?thesis
    using assms
    by (cases "environment_of e") (simp_all add: resolve_def resolve_env_str_def definition_env_def)
qed

text \<open>\<open>extend_csv\<close> adds exactly the trimmed non-empty segments; in particular the
  comma-joined list of trimmed, comma-free, non-empty values adds those values.\<close>

theorem extend_csv_join:
  assumes "\<forall>v \<in> set vals. v \<noteq> [] \<and> trim v = v \<and> CHR '','' \<notin> set v" and "vals \<noteq> []"
  shows "extend_csv (join '','' vals) vs = vs \<union> set vals"
proof -
  have "split_char (CHR '','') (join '','' vals) = vals"
    using assms
  proof (induction vals)
    case (Cons v vals)
    then show ?case
      by (cases vals) (simp_all add: join_def split_char_single split_char_append_sep)
  qed simp
  moreover have "fold insert xs ws = ws \<union> set xs" for xs :: "string list" and ws
    by (induction xs arbitrary: ws) auto
  ultimately show ?thesis using assms(1) by (auto simp: extend_csv_def)
qed

subsection \<open>Well-formed sections\<close>

text \<open>Every object in a configuration has strictly ascending keys, at every depth: what
  \<open>serde_json::Map\<close> guarantees by its type.\<close>

definition sections_wf :: "(string \<rightharpoonup> json) \<Rightarrow> bool" where
  "sections_wf sections \<longleftrightarrow> (\<forall>v \<in> ran sections. json_wf v)"

lemma sections_wf_upd: "sections_wf m \<Longrightarrow> json_wf v \<Longrightarrow> sections_wf (m(k \<mapsto> v))"
  by (auto simp: sections_wf_def ran_def)

lemma sections_wf_get: "sections_wf m \<Longrightarrow> m k = Some v \<Longrightarrow> json_wf v"
  by (auto simp: sections_wf_def ran_def)

subsection \<open>Which value wins\<close>

text \<open>The value under a path of keys when it is not an object, and whether a document says nothing
  about a path: somewhere along it an object lacks the key.\<close>

fun json_leaf :: "string list \<Rightarrow> json \<Rightarrow> json option" where
  "json_leaf [] (JObj _) = None"
| "json_leaf [] v = Some v"
| "json_leaf (k # p) (JObj xs) = (case map_of xs k of None \<Rightarrow> None | Some w \<Rightarrow> json_leaf p w)"
| "json_leaf (k # p) _ = None"

fun json_silent :: "string list \<Rightarrow> json \<Rightarrow> bool" where
  "json_silent [] _ \<longleftrightarrow> False"
| "json_silent (k # p) (JObj xs) \<longleftrightarrow> (case map_of xs k of None \<Rightarrow> True | Some w \<Rightarrow> json_silent p w)"
| "json_silent (k # p) _ \<longleftrightarrow> False"

definition section_leaf :: "(string \<rightharpoonup> json) \<Rightarrow> string \<Rightarrow> string list \<Rightarrow> json option" where
  "section_leaf m k p = (case m k of None \<Rightarrow> None | Some v \<Rightarrow> json_leaf p v)"

definition section_silent :: "(string \<rightharpoonup> json) \<Rightarrow> string \<Rightarrow> string list \<Rightarrow> bool" where
  "section_silent m k p \<longleftrightarrow> (case m k of None \<Rightarrow> True | Some v \<Rightarrow> json_silent p v)"

lemma json_silent_leaf: "json_silent p v \<Longrightarrow> json_leaf p v = None"
  by (induction p v rule: json_silent.induct) (auto split: option.splits)

lemma json_wf_entry: "json_wf (JObj xs) \<Longrightarrow> map_of xs k = Some v \<Longrightarrow> json_wf v"
  by (force simp: list_all_iff dest: map_of_SomeD)

text \<open>In a merged document a leaf of the overlay wins; a leaf of the base remains exactly where the
  overlay is silent.\<close>

lemma deep_merge_leaf:
  "json_wf b \<Longrightarrow> json_wf v \<Longrightarrow>
   json_leaf p (deep_merge_json b v) = (if json_silent p v then json_leaf p b else json_leaf p v)"
proof (induction p arbitrary: b v)
  case Nil
  show ?case by (cases b; cases v) simp_all
next
  case (Cons k p)
  show ?case
  proof (cases "\<exists>bs vs. b = JObj bs \<and> v = JObj vs")
    case True
    then obtain bs vs where bv: "b = JObj bs" "v = JObj vs" by blast
    have entry: "map_of (merge_entries bs vs bs) k = (case map_of vs k of
        None \<Rightarrow> map_of bs k
      | Some w \<Rightarrow> Some (case map_of bs k of Some u \<Rightarrow> deep_merge_json u w | None \<Rightarrow> w))"
      using merge_entries_spec [of bs vs bs k] Cons.prems by (simp add: bv obj_wf_distinct)
    show ?thesis
      using Cons.IH json_wf_entry [of bs k] json_wf_entry [of vs k] Cons.prems
      by (auto simp: bv entry json_silent_leaf split: option.split)
  next
    case False
    then have "deep_merge_json b v = v" by (cases b; cases v) auto
    moreover have "json_leaf (k # p) b = None" if "json_silent (k # p) v"
      using that False by (cases b; cases v) auto
    ultimately show ?thesis using json_silent_leaf by simp
  qed
qed

text \<open>The sections of the selected environment's table, and a base overridden by them.\<close>

definition selected_overrides ::
  "process_env \<Rightarrow> app_config_definition \<Rightarrow> environment \<Rightarrow> (string \<rightharpoonup> json)" where
  "selected_overrides penv d env =
     (case env_overrides d (resolve_env_str penv d) env of Some (JObj obj) \<Rightarrow> map_of obj | _ \<Rightarrow> Map.empty)"

definition override_sections :: "(string \<rightharpoonup> json) \<Rightarrow> (string \<rightharpoonup> json) \<Rightarrow> (string \<rightharpoonup> json)" where
  "override_sections base ovr k =
     (case ovr k of
        None \<Rightarrow> base k
      | Some v \<Rightarrow> Some (case base k of Some b \<Rightarrow> deep_merge_json b v | None \<Rightarrow> v))"

lemma override_sections_dom: "dom (override_sections base ovr) = dom base \<union> dom ovr"
  by (auto simp: override_sections_def dom_def split: option.splits)

lemma override_sections_wf:
  assumes "sections_wf base" and "sections_wf ovr" shows "sections_wf (override_sections base ovr)"
  unfolding sections_wf_def
proof
  fix w assume "w \<in> ran (override_sections base ovr)"
  then obtain k where "override_sections base ovr k = Some w" by (auto simp: ran_def)
  then show "json_wf w"
    using sections_wf_get [OF assms(1), of k] sections_wf_get [OF assms(2), of k] deep_merge_wf(1)
    by (auto simp: override_sections_def split: option.splits)
qed

lemma override_sections_leaf:
  assumes "sections_wf base" and "sections_wf ovr"
  shows "section_leaf (override_sections base ovr) k p =
    (if section_silent ovr k p then section_leaf base k p else section_leaf ovr k p)"
  using sections_wf_get [OF assms(1), of k] sections_wf_get [OF assms(2), of k] json_silent_leaf
  by (auto simp: override_sections_def section_leaf_def section_silent_def deep_merge_leaf split: option.split)

lemma env_overrides_wf:
  assumes "sections_wf (df_environments d)" and "env_overrides d s e = Some v" shows "json_wf v"
  using assms(2) sections_wf_get [OF assms(1), of s] sections_wf_get [OF assms(1), of "show_environment e"]
  by (auto simp: env_overrides_def split: option.splits)

lemma selected_overrides_wf:
  assumes "sections_wf (df_environments d)" shows "sections_wf (selected_overrides penv d env)"
proof (cases "\<exists>obj. env_overrides d (resolve_env_str penv d) env = Some (JObj obj)")
  case True
  then obtain obj where obj: "env_overrides d (resolve_env_str penv d) env = Some (JObj obj)" ..
  then have "json_wf (JObj obj)" by (rule env_overrides_wf [OF assms])
  then show ?thesis
    using obj json_wf_entry by (auto simp: selected_overrides_def sections_wf_def ran_def)
next
  case False
  then have "selected_overrides penv d env = Map.empty"
    by (auto simp: selected_overrides_def split: option.split json.split)
  then show ?thesis by (simp add: sections_wf_def)
qed

lemma resolve_override:
  assumes "sections_wf (df_environments d)" and env: "environment_of (resolve_env_str penv d) = Some env"
  shows "\<exists>c. resolve penv d = Ok c \<and> ac_env c = env \<and> ac_name c = df_name d \<and> ac_server c = df_server d \<and>
    ac_sections c = override_sections (df_extra d) (selected_overrides penv d env)"
proof -
  have wf: "distinct (map fst obj)" if "env_overrides d (resolve_env_str penv d) env = Some (JObj obj)" for obj
    using env_overrides_wf [OF assms(1) that] obj_wf_distinct [of obj] by simp
  then show ?thesis
    by (auto simp: resolve_def Let_def env selected_overrides_def override_sections_def fun_eq_iff
        merge_sections_spec split: option.split json.split)
qed


section \<open>Concrete instances\<close>

definition db_base :: json where
  "db_base = JObj [(''max'', JNum ''32''), (''url'', JStr ''postgres://dev'')]"

definition db_overlay :: json where
  "db_overlay = JObj [(''tls'', JBool True), (''url'', JStr ''postgres://prod'')]"

definition sample_definition :: app_config_definition where
  "sample_definition =
     \<lparr>df_name = ''api'', df_env = Some ''prod'', df_server = server_config_new ''0.0.0.0'' 8443,
      df_environments = [''production'' \<mapsto> JObj [(''database'', db_overlay)]],
      df_extra = [''database'' \<mapsto> db_base]\<rparr>"

lemma deep_merge_objects_witness:
  "deep_merge_json db_base db_overlay =
     JObj [(''max'', JNum ''32''), (''tls'', JBool True), (''url'', JStr ''postgres://prod'')] \<and>
   (\<exists>m. deep_merge_json db_base db_overlay = JObj m \<and> map_of m ''max'' = Some (JNum ''32''))"
proof -
  have wf: "json_wf db_base" "json_wf db_overlay" by code_simp+
  have a: "deep_merge_json db_base db_overlay =
     JObj [(''max'', JNum ''32''), (''tls'', JBool True), (''url'', JStr ''postgres://prod'')]"
    by code_simp
  obtain m where m: "deep_merge_json db_base db_overlay = JObj m"
    and "\<forall>k. map_of m k = (case (map_of [(''max'', JNum ''32''), (''url'', JStr ''postgres://dev'')] k,
      map_of [(''tls'', JBool True), (''url'', JStr ''postgres://prod'')] k) of
         (b, None) \<Rightarrow> b | (None, Some v) \<Rightarrow> Some v | (Some b, Some v) \<Rightarrow> Some (deep_merge_json b v))"
    using deep_merge_objects [OF wf [unfolded db_base_def db_overlay_def]]
    unfolding db_base_def db_overlay_def by blast
  then have "map_of m ''max'' = Some (JNum ''32'')" by simp
  with a m show ?thesis by blast
qed

lemma resolve_sections_witness:
  "\<exists>c. resolve (\<lambda>_. None) sample_definition = Ok c \<and>
     ac_env c = Production \<and> ac_sections c ''database'' = Some (deep_merge_json db_base db_overlay)"
proof -
  have wf: "df_environments sample_definition n = Some v \<Longrightarrow> json_wf v" for n v
    by (auto simp: sample_definition_def db_overlay_def obj_wf_def split: if_splits)
  have env: "resolve_env_str (\<lambda>_. None) sample_definition = ''prod''"
    by (simp add: resolve_env_str_def sample_definition_def)
  have prod: "environment_of ''prod'' = Some Production" by code_simp
  have ov: "env_overrides sample_definition ''prod'' Production = Some (JObj [(''database'', db_overlay)])"
    by (simp add: env_overrides_def sample_definition_def)
  have ex: "df_extra sample_definition ''database'' = Some db_base"
    by (simp add: sample_definition_def)
  from resolve_sections [of sample_definition "\<lambda>_. None"] wf
  obtain c where "resolve (\<lambda>_. None) sample_definition = Ok c"
    "ac_env c = Production" "ac_sections c ''database'' = Some (deep_merge_json db_base db_overlay)"
    unfolding env prod option.case ov json.case by (auto simp: ex)
  then show ?thesis by blast
qed

lemma extend_csv_join_witness:
  "extend_csv (join '','' [''web'', ''mobile'']) {''batch''} = {''batch'', ''web'', ''mobile''}"
proof -
  have "trim ''web'' = ''web''" "trim ''mobile'' = ''mobile''" by code_simp+
  then show ?thesis using extend_csv_join [of "[''web'', ''mobile'']" "{''batch''}"] by auto
qed


end
