(* ===== verification/Plugin_Engine.thy ===== *)
theory Plugin_Engine
  imports Plugin_Ordering Config "HOL-Library.Multiset"
begin

text \<open>
  The plugin engine (\<open>plugin.rs\<close>, \<open>plugin/engine.rs\<close>, \<open>pipeline.rs\<close>, \<open>server.rs\<close>): plugin
  handles, the \<open>GasketAppBuilder\<close> and its \<open>build\<close> lifecycle with rollback, the \<open>ready\<close> and
  \<open>shutdown\<close> sweeps, named actions, and the assembly of the router from tagged routes and
  layers.

  A plugin's hooks are the fields of its handle.  The asynchronous ones may act on the
  outside world, a value \<open>'w\<close> that they thread; every call of such a hook is also entered
  in a log, with the error it returned.  \<open>axum::Router\<close> is a parameter: its operations
  \<open>new\<close>, \<open>merge\<close> and \<open>layer\<close> are the record \<open>router_ops\<close>.
\<close>

section \<open>Slots, layers, routes\<close>

datatype middleware_slot =
  TransportSecurity | LoggingSlot | AuthenticationSlot | RateLimitSlot | TransactionSlot | CustomSlot

fun slot_rank :: "middleware_slot \<Rightarrow> nat" where
  "slot_rank TransportSecurity = 0"
| "slot_rank LoggingSlot = 10"
| "slot_rank AuthenticationSlot = 20"
| "slot_rank RateLimitSlot = 30"
| "slot_rank TransactionSlot = 40"
| "slot_rank CustomSlot = 50"

lemma slot_rank_inj: "slot_rank a = slot_rank b \<Longrightarrow> a = b"
  by (cases a; cases b) simp_all

text \<open>The derived \<open>Ord\<close> of the enum.\<close>

instantiation middleware_slot :: linorder
begin

definition less_eq_middleware_slot :: "middleware_slot \<Rightarrow> middleware_slot \<Rightarrow> bool" where
  "a \<le> b \<longleftrightarrow> slot_rank a \<le> slot_rank b"

definition less_middleware_slot :: "middleware_slot \<Rightarrow> middleware_slot \<Rightarrow> bool" where
  "a < b \<longleftrightarrow> slot_rank a < slot_rank b"

instance
  by standard (auto simp: less_eq_middleware_slot_def less_middleware_slot_def dest: slot_rank_inj)

end

datatype route_group = Bare | Public | Protected | ProtectedWith string

record 'r tagged_layer =
  tl_slot :: middleware_slot
  tl_layer :: "'r \<Rightarrow> 'r"

record 'r tagged_route =
  tr_group :: route_group
  tr_router :: 'r

section \<open>Contexts and plugin handles\<close>

record 'act init_context =
  ic_actions :: "string \<rightharpoonup> 'act"

definition init_context_new :: "'act init_context" where
  "init_context_new = \<lparr>ic_actions = Map.empty\<rparr>"

definition register_action ::
  "string \<Rightarrow> 'act \<Rightarrow> 'act init_context \<Rightarrow> string option \<times> 'act init_context" where
  "register_action name act ctx =
     (if ic_actions ctx name \<noteq> None then (Some name, ctx)
      else (None, ctx\<lparr>ic_actions := (ic_actions ctx)(name \<mapsto> act)\<rparr>))"

text \<open>A typed action: its value is boxed with \<open>box\<close>, and \<open>invoke\<close> downcasts it.\<close>

definition register_action_fn ::
  "('out \<Rightarrow> 'any) \<Rightarrow> string \<Rightarrow> ('args \<Rightarrow> ('e, 'out) result) \<Rightarrow> ('args \<Rightarrow> ('e, 'any) result) init_context \<Rightarrow>
   string option \<times> ('args \<Rightarrow> ('e, 'any) result) init_context" where
  "register_action_fn box name action ctx = register_action name (\<lambda>args. map_sum id box (action args)) ctx"

text \<open>\<open>PrepareContext\<close>, \<open>LayerContext\<close> and \<open>RouteContext\<close> have the same two fields;
  \<open>ReadyContext\<close> adds the bound address and \<open>ShutdownContext\<close> is the extension map.\<close>

record 'x plugin_context =
  cx_config :: app_config
  cx_extensions :: 'x

record ('x, 'addr) ready_context = "'x plugin_context" +
  cx_local_addr :: 'addr

record ('x, 'addr, 'act, 'r, 'e, 'w) plugin_handle = plugin_decl +
  pl_dependencies :: "string list"
  pl_init :: "'act init_context \<Rightarrow> 'act init_context"
  pl_configure :: "app_config \<Rightarrow> app_config"
  pl_prepare :: "'w \<Rightarrow> 'x plugin_context \<Rightarrow> 'e option \<times> 'x plugin_context \<times> 'w"
  pl_ready :: "'w \<Rightarrow> ('x, 'addr) ready_context \<Rightarrow> 'e option \<times> 'w"
  pl_shutdown :: "'w \<Rightarrow> 'x \<Rightarrow> 'e option \<times> 'w"
  pl_layers :: "'x plugin_context \<Rightarrow> 'r tagged_layer list"
  pl_routes :: "'x plugin_context \<Rightarrow> 'r tagged_route list"

text \<open>The default methods of the trait: a plugin that overrides nothing but its name.\<close>

definition default_plugin :: "string \<Rightarrow> ('x, 'addr, 'act, 'r, 'e, 'w) plugin_handle" where
  "default_plugin name =
     \<lparr>pl_name = name, pl_ordering = ordering_new, pl_dependencies = [], pl_init = (\<lambda>ctx. ctx),
      pl_configure = (\<lambda>c. c), pl_prepare = (\<lambda>w ctx. (None, ctx, w)), pl_ready = (\<lambda>w ctx. (None, w)),
      pl_shutdown = (\<lambda>w x. (None, w)), pl_layers = (\<lambda>ctx. []), pl_routes = (\<lambda>ctx. [])\<rparr>"

datatype hook = HPrepare | HReady | HShutdown

type_synonym 'e hook_log = "(hook \<times> string \<times> 'e option) list"

abbreviation hook_calls :: "'e hook_log \<Rightarrow> (hook \<times> string) list" where
  "hook_calls lg \<equiv> map (\<lambda>(h, n, _). (h, n)) lg"

section \<open>The application and its builder\<close>

definition DEFAULT_REQUEST_BODY_LIMIT :: nat where
  "DEFAULT_REQUEST_BODY_LIMIT = 8 * 1024 * 1024"

record ('x, 'addr, 'act, 'r, 'e, 'w, 'auth) gasket_app =
  ga_plugins :: "('x, 'addr, 'act, 'r, 'e, 'w) plugin_handle list"
  ga_actions :: "string \<rightharpoonup> 'act"
  ga_config :: app_config
  ga_extensions :: 'x
  ga_body_limit :: nat
  ga_named_auth :: "string \<rightharpoonup> 'auth"

record ('x, 'addr, 'act, 'r, 'e, 'w, 'auth) gasket_app_builder =
  bu_plugins :: "('x, 'addr, 'act, 'r, 'e, 'w) plugin_handle list"
  bu_config_def :: "app_config_definition option"
  bu_body_limit :: nat
  bu_named_auth :: "string \<rightharpoonup> 'auth"

definition builder :: "('x, 'addr, 'act, 'r, 'e, 'w, 'auth) gasket_app_builder" where
  "builder = \<lparr>bu_plugins = [], bu_config_def = None, bu_body_limit = DEFAULT_REQUEST_BODY_LIMIT,
     bu_named_auth = Map.empty\<rparr>"

definition with_plugin ::
  "('x, 'addr, 'act, 'r, 'e, 'w) plugin_handle \<Rightarrow> ('x, 'addr, 'act, 'r, 'e, 'w, 'auth) gasket_app_builder \<Rightarrow>
   ('x, 'addr, 'act, 'r, 'e, 'w, 'auth) gasket_app_builder" where
  "with_plugin p b = b\<lparr>bu_plugins := bu_plugins b @ [p]\<rparr>"

definition with_preset ::
  "('x, 'addr, 'act, 'r, 'e, 'w) plugin_handle list \<Rightarrow> ('x, 'addr, 'act, 'r, 'e, 'w, 'auth) gasket_app_builder \<Rightarrow>
   ('x, 'addr, 'act, 'r, 'e, 'w, 'auth) gasket_app_builder" where
  "with_preset ps b = b\<lparr>bu_plugins := bu_plugins b @ ps\<rparr>"

definition with_config ::
  "app_config_definition \<Rightarrow> ('x, 'addr, 'act, 'r, 'e, 'w, 'auth) gasket_app_builder \<Rightarrow>
   ('x, 'addr, 'act, 'r, 'e, 'w, 'auth) gasket_app_builder" where
  "with_config d b = b\<lparr>bu_config_def := Some d\<rparr>"

definition with_body_limit ::
  "nat \<Rightarrow> ('x, 'addr, 'act, 'r, 'e, 'w, 'auth) gasket_app_builder \<Rightarrow>
   ('x, 'addr, 'act, 'r, 'e, 'w, 'auth) gasket_app_builder" where
  "with_body_limit n b = b\<lparr>bu_body_limit := n\<rparr>"

definition with_auth_chain ::
  "string \<Rightarrow> 'auth \<Rightarrow> ('x, 'addr, 'act, 'r, 'e, 'w, 'auth) gasket_app_builder \<Rightarrow>
   ('x, 'addr, 'act, 'r, 'e, 'w, 'auth) gasket_app_builder" where
  "with_auth_chain name st b = b\<lparr>bu_named_auth := (bu_named_auth b)(name \<mapsto> st)\<rparr>"

section \<open>Building the application\<close>

datatype 'e build_error =
    DuplicatePlugin string
  | MissingDependency string string
  | SortFailed sort_error
  | ConfigFailed string
  | PrepareFailed 'e

fun first_duplicate :: "string set \<Rightarrow> string list \<Rightarrow> string option" where
  "first_duplicate seen [] = None"
| "first_duplicate seen (n # ns) =
     (if n \<in> seen then Some n else first_duplicate (insert n seen) ns)"

definition missing_dependency ::
  "('x, 'addr, 'act, 'r, 'e, 'w) plugin_handle list \<Rightarrow> (string \<times> string) option" where
  "missing_dependency ps =
     (let plugin_names = map pl_name ps in
      find (\<lambda>(p, dep). dep \<notin> set plugin_names)
        (concat (map (\<lambda>p. map (\<lambda>dep. (pl_name p, dep)) (pl_dependencies p)) ps)))"

text \<open>The plugins are moved out of a \<open>Vec<Option<PluginHandle>>\<close> by index.\<close>

fun reorder :: "nat list \<Rightarrow> 'p option list \<Rightarrow> 'p list" where
  "reorder [] old = []"
| "reorder (i # is) old =
     (case old ! i of
        Some p \<Rightarrow> p # reorder is (old[i := None])
      | None \<Rightarrow> reorder is old)"

fun shutdown_loop ::
  "('x, 'addr, 'act, 'r, 'e, 'w) plugin_handle list \<Rightarrow> 'x \<Rightarrow> 'w \<Rightarrow> 'w \<times> 'e hook_log" where
  "shutdown_loop [] x w = (w, [])"
| "shutdown_loop (p # ps) x w =
     (let (err, w) = pl_shutdown p w x;
          (w, lg) = shutdown_loop ps x w
      in (w, (HShutdown, pl_name p, err) # lg))"

text \<open>\<open>prepared\<close> are the plugins that \<open>prepare\<close> has already succeeded for, the last one first.\<close>

fun prepare_loop ::
  "('x, 'addr, 'act, 'r, 'e, 'w) plugin_handle list \<Rightarrow> ('x, 'addr, 'act, 'r, 'e, 'w) plugin_handle list \<Rightarrow>
   'x plugin_context \<Rightarrow> 'w \<Rightarrow> ('e, 'x plugin_context) result \<times> 'w \<times> 'e hook_log" where
  "prepare_loop prepared [] ctx w = (Ok ctx, w, [])"
| "prepare_loop prepared (p # ps) ctx w =
     (case pl_prepare p w ctx of
        (Some e, ctx, w) \<Rightarrow>
          (let (w, lg) = shutdown_loop prepared (cx_extensions ctx) w
           in (Err e, w, (HPrepare, pl_name p, Some e) # lg))
      | (None, ctx, w) \<Rightarrow>
          (let (r, w, lg) = prepare_loop (p # prepared) ps ctx w
           in (r, w, (HPrepare, pl_name p, None) # lg)))"

definition build ::
  "bool \<Rightarrow> process_env \<Rightarrow> 'x \<Rightarrow> ('x, 'addr, 'act, 'r, 'e, 'w, 'auth) gasket_app_builder \<Rightarrow> 'w \<Rightarrow>
   ('e build_error, ('x, 'addr, 'act, 'r, 'e, 'w, 'auth) gasket_app) result \<times> 'w \<times> 'e hook_log"
where
  "build ck penv empty_ext b w =
     (case first_duplicate {} (map pl_name (bu_plugins b)) of
        Some n \<Rightarrow> (Err (DuplicatePlugin n), w, [])
      | None \<Rightarrow>
     (case missing_dependency (bu_plugins b) of
        Some (p, dep) \<Rightarrow> (Err (MissingDependency p dep), w, [])
      | None \<Rightarrow>
     (case topological_sort ck (bu_plugins b) of
        Err e \<Rightarrow> (Err (SortFailed e), w, [])
      | Ok srt \<Rightarrow>
     (let plugins = reorder srt (map Some (bu_plugins b));
          init_ctx = fold pl_init plugins init_context_new;
          config_def = (case bu_config_def b of Some d \<Rightarrow> d | None \<Rightarrow> definition_default penv)
      in case resolve penv config_def of
        Err e \<Rightarrow> (Err (ConfigFailed e), w, [])
      | Ok config \<Rightarrow>
     (let config = fold pl_configure plugins config
      in case prepare_loop [] plugins \<lparr>cx_config = config, cx_extensions = empty_ext\<rparr> w of
        (Err e, w, lg) \<Rightarrow> (Err (PrepareFailed e), w, lg)
      | (Ok ctx, w, lg) \<Rightarrow>
          (Ok \<lparr>ga_plugins = plugins, ga_actions = ic_actions init_ctx, ga_config = config,
               ga_extensions = cx_extensions ctx, ga_body_limit = bu_body_limit b,
               ga_named_auth = bu_named_auth b\<rparr>, w, lg))))))"

section \<open>Running the application\<close>

definition layer_context :: "('x, 'addr, 'act, 'r, 'e, 'w, 'auth) gasket_app \<Rightarrow> 'x plugin_context" where
  "layer_context app = \<lparr>cx_config = ga_config app, cx_extensions = ga_extensions app\<rparr>"

definition ready_context_of ::
  "('x, 'addr, 'act, 'r, 'e, 'w, 'auth) gasket_app \<Rightarrow> 'addr \<Rightarrow> ('x, 'addr) ready_context" where
  "ready_context_of app addr =
     \<lparr>cx_config = ga_config app, cx_extensions = ga_extensions app, cx_local_addr = addr\<rparr>"

fun ready_loop ::
  "('x, 'addr, 'act, 'r, 'e, 'w) plugin_handle list \<Rightarrow> ('x, 'addr) ready_context \<Rightarrow> 'w \<Rightarrow>
   'e option \<times> 'w \<times> 'e hook_log" where
  "ready_loop [] ctx w = (None, w, [])"
| "ready_loop (p # ps) ctx w =
     (case pl_ready p w ctx of
        (Some e, w) \<Rightarrow> (Some e, w, [(HReady, pl_name p, Some e)])
      | (None, w) \<Rightarrow>
          (let (r, w, lg) = ready_loop ps ctx w in (r, w, (HReady, pl_name p, None) # lg)))"

definition ready ::
  "('x, 'addr, 'act, 'r, 'e, 'w, 'auth) gasket_app \<Rightarrow> 'addr \<Rightarrow> 'w \<Rightarrow> 'e option \<times> 'w \<times> 'e hook_log" where
  "ready app addr w = ready_loop (ga_plugins app) (ready_context_of app addr) w"

definition shutdown ::
  "('x, 'addr, 'act, 'r, 'e, 'w, 'auth) gasket_app \<Rightarrow> 'w \<Rightarrow> 'w \<times> 'e hook_log" where
  "shutdown app w = shutdown_loop (rev (ga_plugins app)) (ga_extensions app) w"

text \<open>An action is looked up by name and started with its arguments; \<open>invoke\<close> awaits it and
  downcasts the result with \<open>dc\<close>.\<close>

datatype 'e invoke_error = ActionNotFound string | ActionFailed 'e | WrongType string

definition invoke_action ::
  "('x, 'addr, 'args \<Rightarrow> 'fut, 'r, 'e, 'w, 'auth) gasket_app \<Rightarrow> string \<Rightarrow> 'args \<Rightarrow> (string, 'fut) result" where
  "invoke_action app name args =
     (case ga_actions app name of None \<Rightarrow> Err name | Some act \<Rightarrow> Ok (act args))"

definition invoke ::
  "('any \<Rightarrow> 't option) \<Rightarrow> ('x, 'addr, 'args \<Rightarrow> ('e, 'any) result, 'r, 'e, 'w, 'auth) gasket_app \<Rightarrow> string \<Rightarrow>
   'args \<Rightarrow> ('e invoke_error, 't) result" where
  "invoke dc app name args =
     (case invoke_action app name args of
        Err n \<Rightarrow> Err (ActionNotFound n)
      | Ok (Inl e) \<Rightarrow> Err (ActionFailed e)
      | Ok (Inr any) \<Rightarrow> (case dc any of Some t \<Rightarrow> Ok t | None \<Rightarrow> Err (WrongType name)))"

text \<open>\<open>server::run\<close>: \<open>bind\<close> gives the local address of the bound listener or fails, \<open>serve\<close>
  runs until the shutdown signal and may fail; \<open>parse_ip\<close> is the address parser.\<close>

datatype ('io, 'e) run_error = BadHost string | RouterPanic string | BindFailed 'io | ReadyFailed 'e | ServeFailed 'io

definition server_run ::
  "(string \<Rightarrow> 'ip option) \<Rightarrow> ('ip \<times> nat \<Rightarrow> ('io, 'addr) result) \<Rightarrow> ('w \<Rightarrow> 'io option \<times> 'w) \<Rightarrow>
   (('x, 'addr, 'act, 'r, 'e, 'w, 'auth) gasket_app \<Rightarrow> (string, 'r) result) \<Rightarrow>
   ('x, 'addr, 'act, 'r, 'e, 'w, 'auth) gasket_app \<Rightarrow> 'w \<Rightarrow>
   ('io, 'e) run_error option \<times> 'w \<times> 'e hook_log" where
  "server_run parse_ip bind serve router_of app w =
     (case parse_ip (sv_host (ac_server (ga_config app))) of
        None \<Rightarrow> (Some (BadHost (sv_host (ac_server (ga_config app)))), w, [])
      | Some ip \<Rightarrow>
     (case router_of app of
        Err name \<Rightarrow> (Some (RouterPanic name), w, [])
      | Ok router \<Rightarrow>
     (case bind (ip, sv_port (ac_server (ga_config app))) of
        Err e \<Rightarrow> (Some (BindFailed e), w, [])
      | Ok local_addr \<Rightarrow>
     (case ready app local_addr w of
        (Some e, w, lg) \<Rightarrow> (Some (ReadyFailed e), w, lg)
      | (None, w, lg) \<Rightarrow>
     (case serve w of
        (Some e, w) \<Rightarrow> (Some (ServeFailed e), w, lg)
      | (None, w) \<Rightarrow>
          (let (w, lg') = shutdown app w in (None, w, lg @ lg')))))))"

section \<open>Assembling the router\<close>

datatype ('auth, 'p) middleware = LoggingMiddleware | BodyLimit nat | AuthMiddleware 'auth | PluginLayer 'p

record ('r, 'mw) router_ops =
  ro_new :: 'r
  ro_merge :: "'r \<Rightarrow> 'r \<Rightarrow> 'r"
  ro_layer :: "'mw \<Rightarrow> 'r \<Rightarrow> 'r"

definition collect_layers ::
  "('x, 'addr, 'act, 'r, 'e, 'w, 'auth) gasket_app \<Rightarrow> 'r tagged_layer list" where
  "collect_layers app =
     sort_key tl_slot (concat (map (\<lambda>p. pl_layers p (layer_context app)) (ga_plugins app)))"

definition collect_routes ::
  "('x, 'addr, 'act, 'r, 'e, 'w, 'auth) gasket_app \<Rightarrow> 'r tagged_route list" where
  "collect_routes app = concat (map (\<lambda>p. pl_routes p (layer_context app)) (ga_plugins app))"

definition partition_transport_layers ::
  "('x, 'addr, 'act, 'r, 'e, 'w, 'auth) gasket_app \<Rightarrow> 'r tagged_layer list \<times> 'r tagged_layer list" where
  "partition_transport_layers app =
     partition (\<lambda>l. tl_slot l = TransportSecurity) (collect_layers app)"

definition apply_layers :: "'r tagged_layer list \<Rightarrow> 'r \<Rightarrow> 'r" where
  "apply_layers ls r = fold tl_layer (rev ls) r"

text \<open>The routers of the groups while the tagged routes are sorted into them; the named ones
  form a \<open>HashMap\<close>, here in the order of their first route.\<close>

record 'r group_routers =
  gr_bare :: 'r
  gr_public :: 'r
  gr_protected :: 'r
  gr_named :: "(string \<times> 'r) list"

fun merge_named :: "('r, 'mw) router_ops \<Rightarrow> string \<Rightarrow> 'r \<Rightarrow> (string \<times> 'r) list \<Rightarrow> (string \<times> 'r) list" where
  "merge_named ops name r [] = [(name, ro_merge ops (ro_new ops) r)]"
| "merge_named ops name r ((n, r') # rs) =
     (if n = name then (n, ro_merge ops r' r) # rs else (n, r') # merge_named ops name r rs)"

definition add_tagged_route ::
  "('r, 'mw) router_ops \<Rightarrow> 'r tagged_route \<Rightarrow> 'r group_routers \<Rightarrow> 'r group_routers" where
  "add_tagged_route ops t g =
     (case tr_group t of
        Bare \<Rightarrow> g\<lparr>gr_bare := ro_merge ops (gr_bare g) (tr_router t)\<rparr>
      | Public \<Rightarrow> g\<lparr>gr_public := ro_merge ops (gr_public g) (tr_router t)\<rparr>
      | Protected \<Rightarrow> g\<lparr>gr_protected := ro_merge ops (gr_protected g) (tr_router t)\<rparr>
      | ProtectedWith name \<Rightarrow> g\<lparr>gr_named := merge_named ops name (tr_router t) (gr_named g)\<rparr>)"

definition group_routes :: "('r, 'mw) router_ops \<Rightarrow> 'r tagged_route list \<Rightarrow> 'r group_routers" where
  "group_routes ops ts =
     fold (add_tagged_route ops) ts
       \<lparr>gr_bare = ro_new ops, gr_public = ro_new ops, gr_protected = ro_new ops, gr_named = []\<rparr>"

definition log_and_limit ::
  "('r, ('auth, 'p) middleware) router_ops \<Rightarrow> ('x, 'addr, 'act, 'r, 'e, 'w, 'auth) gasket_app \<Rightarrow> 'r \<Rightarrow> 'r" where
  "log_and_limit ops app r =
     ro_layer ops (BodyLimit (ga_body_limit app)) (ro_layer ops LoggingMiddleware r)"

fun apply_named_protected_routers ::
  "('r, ('auth, 'p) middleware) router_ops \<Rightarrow> ('x, 'addr, 'act, 'r, 'e, 'w, 'auth) gasket_app \<Rightarrow> 'r \<Rightarrow>
   (string \<times> 'r) list \<Rightarrow> (string, 'r) result" where
  "apply_named_protected_routers ops app router [] = Ok router"
| "apply_named_protected_routers ops app router ((name, sub_router) # named) =
     (case ga_named_auth app name of
        None \<Rightarrow> Err name
      | Some named_state \<Rightarrow>
          let protected_layers = snd (partition_transport_layers app);
              sub_router = apply_layers
                (filter (\<lambda>l. tl_slot l \<noteq> AuthenticationSlot) protected_layers) sub_router;
              sub_router = ro_layer ops (AuthMiddleware named_state) sub_router;
              sub_router = log_and_limit ops app sub_router
          in apply_named_protected_routers ops app (ro_merge ops router sub_router) named)"

text \<open>The variant compiled without the \<open>auth\<close> feature.\<close>

definition apply_named_protected_routers_no_auth :: "'r \<Rightarrow> (string \<times> 'r) list \<Rightarrow> (string, 'r) result" where
  "apply_named_protected_routers_no_auth router named =
     (case named of [] \<Rightarrow> Ok router | (name, _) # _ \<Rightarrow> Err name)"

text \<open>\<open>hash_order\<close> is the iteration order of the \<open>HashMap\<close> of named routers.\<close>

definition build_router ::
  "((string \<times> 'r) list \<Rightarrow> (string \<times> 'r) list) \<Rightarrow> ('r, ('auth, 'p) middleware) router_ops \<Rightarrow>
   ('x, 'addr, 'act, 'r, 'e, 'w, 'auth) gasket_app \<Rightarrow> (string, 'r) result" where
  "build_router hash_order ops app =
     (let g = group_routes ops (collect_routes app);
          logged_public = log_and_limit ops app (gr_public g);
          (transport_layers, protected_layers) = partition_transport_layers app;
          protected_router = log_and_limit ops app (apply_layers protected_layers (gr_protected g));
          instrumented = ro_merge ops (ro_merge ops (ro_new ops) logged_public) protected_router
      in case apply_named_protected_routers ops app instrumented (hash_order (gr_named g)) of
           Err name \<Rightarrow> Err name
         | Ok instrumented \<Rightarrow>
             Ok (ro_merge ops (ro_merge ops (ro_new ops) (gr_bare g))
                   (apply_layers transport_layers instrumented)))"


section \<open>The lifecycle\<close>

lemma first_duplicate_None: "first_duplicate seen ns = None \<longleftrightarrow> distinct ns \<and> set ns \<inter> seen = {}"
  by (induction ns arbitrary: seen) auto

lemma reorder_map:
  assumes "distinct is" "set is \<subseteq> {..<length ps}" "length old = length ps"
    "\<forall>i \<in> set is. old ! i = Some (ps ! i)"
  shows "reorder is old = map ((!) ps) is"
  using assms
proof (induction "is" arbitrary: old)
  case (Cons i "is")
  have "reorder is (old[i := None]) = map ((!) ps) is"
    by (rule Cons.IH) (use Cons.prems in \<open>auto simp: nth_list_update\<close>)
  then show ?case using Cons.prems by simp
qed simp

lemma shutdown_loop_calls:
  "shutdown_loop ps x w = (w', lg) \<Longrightarrow> hook_calls lg = map (\<lambda>p. (HShutdown, pl_name p)) ps"
  by (induction ps arbitrary: w w' lg) (auto split: prod.splits)

lemma prepare_loop_spec:
  "prepare_loop prepared ps ctx w = (r, w', lg) \<Longrightarrow>
   (case r of
      Ok ctx' \<Rightarrow> lg = map (\<lambda>p. (HPrepare, pl_name p, None)) ps
    | Err e \<Rightarrow> \<exists>done p rest sd. ps = done @ p # rest \<and>
        lg = map (\<lambda>p. (HPrepare, pl_name p, None)) done @ (HPrepare, pl_name p, Some e) # sd \<and>
        hook_calls sd = map (\<lambda>p. (HShutdown, pl_name p)) (rev done @ prepared))"
proof (induction ps arbitrary: prepared ctx w r w' lg)
  case (Cons p ps)
  obtain err ctx1 w1 where prep: "pl_prepare p w ctx = (err, ctx1, w1)" by (metis prod_cases3)
  show ?case
  proof (cases err)
    case (Some e)
    obtain w2 sd where sd: "shutdown_loop prepared (cx_extensions ctx1) w1 = (w2, sd)" by fastforce
    have r: "r = Err e" "lg = (HPrepare, pl_name p, Some e) # sd"
      using Cons.prems prep Some sd by auto
    show ?thesis
      unfolding r sum.case
      by (rule exI [of _ "[]"], rule exI [of _ p], rule exI [of _ ps], rule exI [of _ sd])
        (simp add: shutdown_loop_calls [OF sd])
  next
    case None
    obtain r1 w2 lg1 where run: "prepare_loop (p # prepared) ps ctx1 w1 = (r1, w2, lg1)" by (metis prod_cases3)
    have res: "r = r1" "lg = (HPrepare, pl_name p, None) # lg1" using Cons.prems prep None run by auto
    show ?thesis
    proof (cases r1)
      case (Inr ctx2)
      then show ?thesis using Cons.IH [OF run] res by simp
    next
      case (Inl e)
      then obtain "done" q rest sd where "ps = done @ q # rest"
        "lg1 = map (\<lambda>p. (HPrepare, pl_name p, None)) done @ (HPrepare, pl_name q, Some e) # sd"
        "hook_calls sd = map (\<lambda>p. (HShutdown, pl_name p)) (rev done @ p # prepared)"
        using Cons.IH [OF run] by auto
      then show ?thesis
        unfolding res(1) Inl sum.case
        by (intro exI [of _ "p # done"] exI [of _ q] exI [of _ rest] exI [of _ sd]) (simp add: res(2))
    qed
  qed
qed simp

text \<open>The plugin order \<open>build\<close> works with.\<close>

lemma build_order:
  assumes "topological_sort ck ps = Ok srt"
  shows "reorder srt (map Some ps) = map ((!) ps) srt" and "mset (map ((!) ps) srt) = mset ps"
proof -
  have v: "distinct srt" "set srt = {..<length ps}"
    using topological_sort_valid [OF assms] by (simp_all add: valid_order_def)
  show "reorder srt (map Some ps) = map ((!) ps) srt"
    by (rule reorder_map) (use v in auto)
  have "mset srt = mset [0..<length ps]"
    using v by (metis atLeast_upt distinct_upt set_eq_iff_mset_eq_distinct)
  then have "image_mset ((!) ps) (mset srt) = image_mset ((!) ps) (mset [0..<length ps])" by simp
  then show "mset (map ((!) ps) srt) = mset ps" by (metis map_nth mset_map)
qed

text \<open>the outcome of \<open>build\<close> and the hooks it calls.  On success the plugins stand in an
  admissible order, all names are distinct, all dependencies are present and \<open>prepare\<close> ran
  once per plugin in that order.  When \<open>prepare\<close> fails, exactly the plugins prepared before
  are shut down, in reverse order, whatever their own shutdown returns.  Every other error
  is found before any hook with effects runs.\<close>

theorem build_lifecycle:
  assumes "build ck penv x0 b w = (r, w', lg)"
  shows "case r of
      Ok app \<Rightarrow> \<exists>srt. valid_order (bu_plugins b) srt \<and> ga_plugins app = map ((!) (bu_plugins b)) srt \<and>
        distinct (map pl_name (bu_plugins b)) \<and>
        (\<forall>p \<in> set (bu_plugins b). set (pl_dependencies p) \<subseteq> pl_name ` set (bu_plugins b)) \<and>
        lg = map (\<lambda>p. (HPrepare, pl_name p, None)) (ga_plugins app)
    | Err (PrepareFailed e) \<Rightarrow> \<exists>srt done p rest sd. valid_order (bu_plugins b) srt \<and>
        map ((!) (bu_plugins b)) srt = done @ p # rest \<and>
        lg = map (\<lambda>p. (HPrepare, pl_name p, None)) done @ (HPrepare, pl_name p, Some e) # sd \<and>
        hook_calls sd = map (\<lambda>p. (HShutdown, pl_name p)) (rev done)
    | Err _ \<Rightarrow> lg = [] \<and> w' = w"
proof (cases "\<exists>srt config. first_duplicate {} (map pl_name (bu_plugins b)) = None \<and>
    missing_dependency (bu_plugins b) = None \<and> topological_sort ck (bu_plugins b) = Ok srt \<and>
    resolve penv (case bu_config_def b of Some d \<Rightarrow> d | None \<Rightarrow> definition_default penv) = Ok config")
  case False
  then show ?thesis
    using assms by (auto simp: build_def Let_def split: option.splits sum.splits prod.splits)
next
  case True
  then obtain srt config where dup: "first_duplicate {} (map pl_name (bu_plugins b)) = None"
    and dep: "missing_dependency (bu_plugins b) = None" and srt: "topological_sort ck (bu_plugins b) = Ok srt"
    and cfg: "resolve penv (case bu_config_def b of Some d \<Rightarrow> d | None \<Rightarrow> definition_default penv) = Ok config"
    by blast
  let ?ps = "map ((!) (bu_plugins b)) srt"
  let ?ctx = "\<lparr>cx_config = fold pl_configure ?ps config, cx_extensions = x0\<rparr>"
  obtain r1 w1 lg1 where run: "prepare_loop [] ?ps ?ctx w = (r1, w1, lg1)" by (metis prod_cases3)
  note v = topological_sort_valid [OF srt] and o = build_order(1) [OF srt]
  show ?thesis
  proof (cases r1)
    case (Inl e)
    then have "r = Err (PrepareFailed e)" "lg = lg1"
      using assms dup dep srt cfg o run by (auto simp: build_def Let_def)
    then show ?thesis using prepare_loop_spec [OF run] v Inl by fastforce
  next
    case (Inr ctx)
    then obtain app where "r = Ok app" "ga_plugins app = ?ps" "lg = lg1"
      using assms dup dep srt cfg o run by (auto simp: build_def Let_def)
    moreover have "distinct (map pl_name (bu_plugins b))" using dup by (simp add: first_duplicate_None)
    moreover have "\<forall>p \<in> set (bu_plugins b). set (pl_dependencies p) \<subseteq> pl_name ` set (bu_plugins b)"
      using dep by (fastforce simp: missing_dependency_def Let_def find_None_iff)
    ultimately show ?thesis using prepare_loop_spec [OF run] v Inr by auto
  qed
qed

lemma ready_loop_calls:
  "ready_loop ps ctx w = (r, w', lg) \<Longrightarrow>
   (case r of
      None \<Rightarrow> lg = map (\<lambda>p. (HReady, pl_name p, None)) ps
    | Some e \<Rightarrow> \<exists>before p rest. ps = before @ p # rest \<and>
        lg = map (\<lambda>p. (HReady, pl_name p, None)) before @ [(HReady, pl_name p, Some e)])"
proof (induction ps arbitrary: w r w' lg)
  case (Cons p ps)
  obtain err w1 where hook: "pl_ready p w ctx = (err, w1)" by fastforce
  show ?case
  proof (cases err)
    case (Some e)
    then have "r = Some e" "lg = [(HReady, pl_name p, Some e)]" using Cons.prems hook by auto
    then show ?thesis by (auto intro!: exI [of _ "[]"])
  next
    case None
    obtain r1 w2 lg1 where run: "ready_loop ps ctx w1 = (r1, w2, lg1)" by (metis prod_cases3)
    then have res: "r = r1" "lg = (HReady, pl_name p, None) # lg1" using Cons.prems hook None by auto
    show ?thesis
    proof (cases r1)
      case (Some e)
      then obtain before q rest where "ps = before @ q # rest"
        "lg1 = map (\<lambda>p. (HReady, pl_name p, None)) before @ [(HReady, pl_name q, Some e)]"
        using Cons.IH [OF run] by auto
      then show ?thesis
        unfolding res(1) Some option.case
        by (intro exI [of _ "p # before"] exI [of _ q] exI [of _ rest]) (simp add: res(2))
    qed (use Cons.IH [OF run] res in simp)
  qed
qed simp

lemma shutdown_calls:
  "shutdown app w = (w', lg) \<Longrightarrow> hook_calls lg = map (\<lambda>p. (HShutdown, pl_name p)) (rev (ga_plugins app))"
  unfolding shutdown_def by (rule shutdown_loop_calls)

text \<open>the server is either started with every plugin ready and then shuts every plugin
  down once, in reverse order; or it stops with an error and shuts nothing down.  In
  particular an error of one \<open>ready\<close> hook ends the sequence and the start.\<close>

theorem server_run_hooks:
  assumes "server_run parse_ip bind serve router_of app w = (r, w', lg)"
  shows "case r of
      None \<Rightarrow> hook_calls lg = map (\<lambda>p. (HReady, pl_name p)) (ga_plugins app) @
        map (\<lambda>p. (HShutdown, pl_name p)) (rev (ga_plugins app))
    | Some (ReadyFailed e) \<Rightarrow> \<exists>before p rest. ga_plugins app = before @ p # rest \<and>
        lg = map (\<lambda>p. (HReady, pl_name p, None)) before @ [(HReady, pl_name p, Some e)]
    | Some (ServeFailed e) \<Rightarrow> lg = map (\<lambda>p. (HReady, pl_name p, None)) (ga_plugins app)
    | Some _ \<Rightarrow> lg = [] \<and> w' = w"
proof (cases "\<exists>ip router addr. parse_ip (sv_host (ac_server (ga_config app))) = Some ip \<and>
    router_of app = Ok router \<and> bind (ip, sv_port (ac_server (ga_config app))) = Ok addr")
  case False
  then show ?thesis
    using assms by (auto simp: server_run_def split: option.splits sum.splits)
next
  case True
  then obtain ip router addr where ok: "parse_ip (sv_host (ac_server (ga_config app))) = Some ip"
    "router_of app = Ok router" "bind (ip, sv_port (ac_server (ga_config app))) = Ok addr"
    by blast
  obtain r1 w1 lg1 where rdy: "ready app addr w = (r1, w1, lg1)" by (metis prod_cases3)
  note calls = ready_loop_calls [OF rdy [unfolded ready_def]]
  obtain e2 w2 where srv: "serve w1 = (e2, w2)" by fastforce
  obtain w3 lg3 where down: "shutdown app w2 = (w3, lg3)" by fastforce
  show ?thesis
  proof (cases r1)
    case (Some e)
    then have "r = Some (ReadyFailed e)" "lg = lg1" using assms ok rdy by (auto simp: server_run_def)
    then show ?thesis using calls Some by simp
  next
    case None
    then show ?thesis
      using assms ok rdy srv down calls shutdown_calls [OF down]
      by (cases e2) (auto simp: server_run_def)
  qed
qed


section \<open>The middleware stacks\<close>

text \<open>What \<open>axum\<close> documents of its router: \<open>stacks r\<close> is the set of routes of \<open>r\<close>, each
  with the middleware around its handler, outermost first; merging unites (of routers
  without a common route, others panic), and a layer wraps every route added so far.\<close>

definition wrap :: "'mw list \<Rightarrow> ('route \<times> 'mw list) set \<Rightarrow> ('route \<times> 'mw list) set" where
  "wrap ms S = (\<lambda>(rt, st). (rt, ms @ st)) ` S"

definition router_laws :: "('r, 'mw) router_ops \<Rightarrow> ('r \<Rightarrow> ('route \<times> 'mw list) set) \<Rightarrow> bool" where
  "router_laws ops stacks \<longleftrightarrow>
     stacks (ro_new ops) = {} \<and>
     (\<forall>a b. stacks (ro_merge ops a b) = stacks a \<union> stacks b) \<and>
     (\<forall>m r. stacks (ro_layer ops m r) = wrap [m] (stacks r))"

text \<open>A plugin's layer closure adds one layer of its own, \<open>lp l\<close>.\<close>

definition layers_law ::
  "('r \<Rightarrow> ('route \<times> ('auth, 'p) middleware list) set) \<Rightarrow> ('r tagged_layer \<Rightarrow> 'p) \<Rightarrow> 'r tagged_layer list \<Rightarrow> bool"
where
  "layers_law stacks lp ls \<longleftrightarrow> (\<forall>l \<in> set ls. \<forall>r. stacks (tl_layer l r) = wrap [PluginLayer (lp l)] (stacks r))"

lemma wrap_simps [simp]:
  "wrap ms {} = {}" "wrap ms (A \<union> B) = wrap ms A \<union> wrap ms B" "wrap [] A = A"
  "wrap ms (wrap ms' A) = wrap (ms @ ms') A"
  by (auto simp: wrap_def image_iff split: prod.splits)

lemma apply_layers_stacks:
  assumes "layers_law stacks lp ls"
  shows "stacks (apply_layers ls r) = wrap (map (PluginLayer \<circ> lp) ls) (stacks r)"
  using assms
  by (induction ls arbitrary: r) (auto simp: apply_layers_def layers_law_def)

text \<open>The stack a route group gets.\<close>

definition transport_stack ::
  "('r tagged_layer \<Rightarrow> 'p) \<Rightarrow> ('x, 'addr, 'act, 'r, 'e, 'w, 'auth) gasket_app \<Rightarrow> ('auth, 'p) middleware list" where
  "transport_stack lp app =
     map (PluginLayer \<circ> lp) (filter (\<lambda>l. tl_slot l = TransportSecurity) (collect_layers app)) @
     [BodyLimit (ga_body_limit app), LoggingMiddleware]"

definition group_stack ::
  "('r tagged_layer \<Rightarrow> 'p) \<Rightarrow> ('x, 'addr, 'act, 'r, 'e, 'w, 'auth) gasket_app \<Rightarrow> route_group \<Rightarrow>
   ('auth, 'p) middleware list" where
  "group_stack lp app g =
     (let protected = filter (\<lambda>l. tl_slot l \<noteq> TransportSecurity) (collect_layers app) in
      case g of
        Bare \<Rightarrow> []
      | Public \<Rightarrow> transport_stack lp app
      | Protected \<Rightarrow> transport_stack lp app @ map (PluginLayer \<circ> lp) protected
      | ProtectedWith name \<Rightarrow>
          transport_stack lp app @ AuthMiddleware (the (ga_named_auth app name)) #
          map (PluginLayer \<circ> lp) (filter (\<lambda>l. tl_slot l \<noteq> AuthenticationSlot) protected))"

lemma wrap_UN [simp]: "wrap ms (\<Union>x \<in> A. g x) = (\<Union>x \<in> A. wrap ms (g x))"
  by (auto simp: wrap_def)

lemma merge_named_keys:
  "fst ` set (merge_named ops name r rs) = insert name (fst ` set rs)"
proof (induction rs)
  case (Cons p rs)
  then show ?case by (cases p; cases "fst p = name") (simp_all add: insert_commute)
qed simp

lemma merge_named_stacks:
  assumes "router_laws ops stacks"
  shows "(\<Union>(m, r') \<in> set (merge_named ops name r rs). wrap (f m) (stacks r')) =
      (\<Union>(m, r') \<in> set rs. wrap (f m) (stacks r')) \<union> wrap (f name) (stacks r)"
proof (induction rs)
  case Nil
  show ?case using assms by (simp add: router_laws_def)
next
  case (Cons p rs)
  obtain n r' where p: "p = (n, r')" by (cases p)
  show ?case
  proof (cases "n = name")
    case True
    have "wrap (f n) (stacks (ro_merge ops r' r)) = wrap (f n) (stacks r') \<union> wrap (f n) (stacks r)"
      using assms by (simp add: router_laws_def)
    with True show ?thesis by (auto simp: p)
  next
    case False
    then show ?thesis using Cons.IH by (simp add: p Un_assoc)
  qed
qed

lemma route_union_split:
  "(\<Union>t \<in> ts. h (tr_group t) t) =
     (\<Union>t \<in> {t \<in> ts. tr_group t = Bare}. h Bare t) \<union>
     ((\<Union>t \<in> {t \<in> ts. tr_group t = Public}. h Public t) \<union>
      ((\<Union>t \<in> {t \<in> ts. tr_group t = Protected}. h Protected t) \<union>
       (\<Union>t \<in> ts. case tr_group t of ProtectedWith m \<Rightarrow> h (ProtectedWith m) t | _ \<Rightarrow> {})))"
proof -
  have f: "(\<Union>t \<in> {t \<in> ts. P t}. g t) = (\<Union>t \<in> ts. if P t then g t else {})" for P g by auto
  have p: "h (tr_group t) t = (if tr_group t = Bare then h Bare t else {}) \<union>
      ((if tr_group t = Public then h Public t else {}) \<union>
       ((if tr_group t = Protected then h Protected t else {}) \<union>
        (case tr_group t of ProtectedWith m \<Rightarrow> h (ProtectedWith m) t | _ \<Rightarrow> {})))" for t
    by (cases "tr_group t") simp_all
  show ?thesis unfolding f by (subst p) (simp only: UN_Un_distrib)
qed

lemma wrap_case_group [simp]:
  "wrap ms (case g of ProtectedWith m \<Rightarrow> A m | _ \<Rightarrow> {}) = (case g of ProtectedWith m \<Rightarrow> wrap ms (A m) | _ \<Rightarrow> {})"
  by (cases g) simp_all

lemma group_routes_spec:
  assumes laws: "router_laws ops stacks"
  shows "stacks (gr_bare (group_routes ops ts)) = (\<Union>t \<in> {t \<in> set ts. tr_group t = Bare}. stacks (tr_router t))"
    and "stacks (gr_public (group_routes ops ts)) = (\<Union>t \<in> {t \<in> set ts. tr_group t = Public}. stacks (tr_router t))"
    and "stacks (gr_protected (group_routes ops ts)) = (\<Union>t \<in> {t \<in> set ts. tr_group t = Protected}. stacks (tr_router t))"
    and "n \<in> fst ` set (gr_named (group_routes ops ts)) \<longleftrightarrow> (\<exists>t \<in> set ts. tr_group t = ProtectedWith n)"
    and "(\<Union>(m, r') \<in> set (gr_named (group_routes ops ts)). wrap (f m) (stacks r')) =
      (\<Union>t \<in> set ts. case tr_group t of ProtectedWith m \<Rightarrow> wrap (f m) (stacks (tr_router t)) | _ \<Rightarrow> {})"
proof (induction ts rule: rev_induct)
  case Nil
  { case 1 then show ?case using laws by (simp add: group_routes_def router_laws_def)
  next case 2 then show ?case using laws by (simp add: group_routes_def router_laws_def)
  next case 3 then show ?case using laws by (simp add: group_routes_def router_laws_def)
  next case 4 then show ?case by (simp add: group_routes_def)
  next case 5 then show ?case by (simp add: group_routes_def) }
next
  case (snoc t ts)
  have step: "group_routes ops (ts @ [t]) = add_tagged_route ops t (group_routes ops ts)"
    by (simp add: group_routes_def)
  note l = laws [unfolded router_laws_def]
  { case 1 then show ?case using snoc(1) l by (auto simp: step add_tagged_route_def split: route_group.splits)
  next case 2 then show ?case using snoc(2) l by (auto simp: step add_tagged_route_def split: route_group.splits)
  next case 3 then show ?case using snoc(3) l by (auto simp: step add_tagged_route_def split: route_group.splits)
  next case 4 then show ?case
      using snoc(4) by (auto simp: step add_tagged_route_def merge_named_keys split: route_group.splits)
  next case 5 then show ?case
      using snoc(5) by (auto simp: step add_tagged_route_def merge_named_stacks [OF laws] split: route_group.splits) }
qed

lemma partition_layers:
  "partition_transport_layers app =
     (filter (\<lambda>l. tl_slot l = TransportSecurity) (collect_layers app),
      filter (\<lambda>l. tl_slot l \<noteq> TransportSecurity) (collect_layers app))"
  by (simp add: partition_transport_layers_def comp_def)

lemma layers_law_filter: "layers_law stacks lp ls \<Longrightarrow> layers_law stacks lp (filter P ls)"
  by (auto simp: layers_law_def)

lemma log_and_limit_stacks:
  "router_laws ops stacks \<Longrightarrow>
   stacks (log_and_limit ops app r) = wrap [BodyLimit (ga_body_limit app), LoggingMiddleware] (stacks r)"
  by (simp add: log_and_limit_def router_laws_def)

definition named_stack ::
  "('r tagged_layer \<Rightarrow> 'p) \<Rightarrow> ('x, 'addr, 'act, 'r, 'e, 'w, 'auth) gasket_app \<Rightarrow> string \<Rightarrow>
   ('auth, 'p) middleware list" where
  "named_stack lp app name =
     BodyLimit (ga_body_limit app) # LoggingMiddleware # AuthMiddleware (the (ga_named_auth app name)) #
     map (PluginLayer \<circ> lp) (filter (\<lambda>l. tl_slot l \<noteq> AuthenticationSlot)
       (filter (\<lambda>l. tl_slot l \<noteq> TransportSecurity) (collect_layers app)))"

lemma named_routers_spec:
  assumes laws: "router_laws ops stacks" and ll: "layers_law stacks lp (collect_layers app)"
  shows "case apply_named_protected_routers ops app router named of
      Err name \<Rightarrow> ga_named_auth app name = None \<and> name \<in> fst ` set named
    | Ok router' \<Rightarrow> (\<forall>name \<in> fst ` set named. ga_named_auth app name \<noteq> None) \<and>
        stacks router' = stacks router \<union>
          (\<Union>(name, r) \<in> set named.
            wrap (named_stack lp app name) (stacks r))"
proof (induction named arbitrary: router)
  case (Cons p named)
  obtain name r where p: "p = (name, r)" by (cases p)
  show ?case
  proof (cases "ga_named_auth app name")
    case None
    then show ?thesis by (simp add: p)
  next
    case (Some st)
    let ?ls = "filter (\<lambda>l. tl_slot l \<noteq> AuthenticationSlot) (filter (\<lambda>l. tl_slot l \<noteq> TransportSecurity) (collect_layers app))"
    let ?sub = "log_and_limit ops app (ro_layer ops (AuthMiddleware st) (apply_layers ?ls r))"
    have "layers_law stacks lp ?ls" using ll by (intro layers_law_filter)
    from apply_layers_stacks [OF this] have sub: "stacks ?sub = wrap (named_stack lp app name) (stacks r)"
      unfolding log_and_limit_stacks [OF laws] using laws Some
      by (simp add: router_laws_def named_stack_def del: filter_filter)
    have run: "apply_named_protected_routers ops app router (p # named) =
        apply_named_protected_routers ops app (ro_merge ops router ?sub) named"
      using Some by (simp add: p partition_layers Let_def del: filter_filter)
    have merged: "stacks (ro_merge ops router ?sub) = stacks router \<union> stacks ?sub"
      using laws by (simp add: router_laws_def)
    show ?thesis
      using Cons.IH [of "ro_merge ops router ?sub"] Some
      unfolding run merged sub by (auto simp: p Un_assoc split: sum.splits)
  qed
qed simp

lemma build_router_spec:
  assumes laws: "router_laws ops stacks" and ll: "layers_law stacks lp (collect_layers app)"
    and order: "\<And>xs. set (hash_order xs) = set xs"
  shows "case build_router hash_order ops app of
      Err name \<Rightarrow> ga_named_auth app name = None \<and>
        (\<exists>t \<in> set (collect_routes app). tr_group t = ProtectedWith name)
    | Ok router \<Rightarrow>
        (\<forall>t \<in> set (collect_routes app). \<forall>n. tr_group t = ProtectedWith n \<longrightarrow> ga_named_auth app n \<noteq> None) \<and>
        stacks router = (\<Union>t \<in> set (collect_routes app).
          wrap (group_stack lp app (tr_group t)) (stacks (tr_router t)))"
proof -
  let ?g = "group_routes ops (collect_routes app)"
  let ?tl = "filter (\<lambda>l. tl_slot l = TransportSecurity) (collect_layers app)"
  let ?pl = "filter (\<lambda>l. tl_slot l \<noteq> TransportSecurity) (collect_layers app)"
  let ?inst = "ro_merge ops (ro_merge ops (ro_new ops) (log_and_limit ops app (gr_public ?g)))
     (log_and_limit ops app (apply_layers ?pl (gr_protected ?g)))"
  note spec = group_routes_spec [OF laws]
    and named = named_routers_spec [OF laws ll, where router = ?inst and named = "hash_order (gr_named ?g)"]
  have run: "build_router hash_order ops app =
     (case apply_named_protected_routers ops app ?inst (hash_order (gr_named ?g)) of
        Err name \<Rightarrow> Err name
      | Ok r \<Rightarrow> Ok (ro_merge ops (ro_merge ops (ro_new ops) (gr_bare ?g)) (apply_layers ?tl r)))"
    by (simp add: build_router_def Let_def partition_layers)
  show ?thesis
  proof (cases "apply_named_protected_routers ops app ?inst (hash_order (gr_named ?g))")
    case (Inl name)
    then show ?thesis using named spec(4) [of name] by (simp add: run order)
  next
    case (Inr r)
    let ?T = "map (PluginLayer \<circ> lp) ?tl" and ?B = "[BodyLimit (ga_body_limit app), LoggingMiddleware]"
    have reg: "\<forall>name \<in> fst ` set (gr_named ?g). ga_named_auth app name \<noteq> None"
      using named unfolding Inr sum.case order by blast
    then have ok: "\<forall>t \<in> set (collect_routes app). \<forall>n. tr_group t = ProtectedWith n \<longrightarrow> ga_named_auth app n \<noteq> None"
      using spec(4) by blast
    have layered: "stacks (apply_layers (filter P (collect_layers app)) q) =
        wrap (map (PluginLayer \<circ> lp) (filter P (collect_layers app))) (stacks q)" for P q
      by (rule apply_layers_stacks [OF layers_law_filter [OF ll]])
    have inst: "stacks ?inst = wrap ?B (stacks (gr_public ?g)) \<union>
        wrap (?B @ map (PluginLayer \<circ> lp) ?pl) (stacks (gr_protected ?g))"
      unfolding laws [unfolded router_laws_def, THEN conjunct2, THEN conjunct1, rule_format]
        log_and_limit_stacks [OF laws] layered
      using laws by (simp add: router_laws_def)
    have r: "stacks r = stacks ?inst \<union> (\<Union>(name, r) \<in> set (gr_named ?g).
        wrap (named_stack lp app name) (stacks r))"
      using named unfolding Inr sum.case order by simp
    have "stacks (ro_merge ops (ro_merge ops (ro_new ops) (gr_bare ?g)) (apply_layers ?tl r)) =
        stacks (gr_bare ?g) \<union> wrap ?T (stacks r)"
      using laws layered by (simp add: router_laws_def)
    also have "\<dots> = (\<Union>t \<in> set (collect_routes app). wrap (group_stack lp app (tr_group t)) (stacks (tr_router t)))"
      unfolding r inst spec(1-3) spec(5) wrap_simps
        route_union_split [of "\<lambda>g t. wrap (group_stack lp app g) (stacks (tr_router t))" "set (collect_routes app)"]
      by (simp add: group_stack_def transport_stack_def named_stack_def Let_def Un_assoc
          cong: route_group.case_cong)
    finally show ?thesis using ok by (simp add: run Inr)
  qed
qed

text \<open>C10: the router serves every collected route behind exactly the stack of its group, and it
  is built exactly when every \<open>ProtectedWith\<close> name has a registered chain; otherwise the
  build panics on such a name.  A \<open>ProtectedWith\<close> route is therefore never served without
  its authentication middleware.\<close>

theorem build_router_stacks:
  assumes laws: "router_laws ops stacks" and ll: "layers_law stacks lp (collect_layers app)"
    and order: "\<And>xs. set (hash_order xs) = set xs"
  shows "case build_router hash_order ops app of
      Err name \<Rightarrow> ga_named_auth app name = None \<and>
        (\<exists>t \<in> set (collect_routes app). tr_group t = ProtectedWith name)
    | Ok router \<Rightarrow>
        (\<forall>t \<in> set (collect_routes app). \<forall>n. tr_group t = ProtectedWith n \<longrightarrow> ga_named_auth app n \<noteq> None) \<and>
        stacks router = (\<Union>t \<in> set (collect_routes app).
          wrap (group_stack lp app (tr_group t)) (stacks (tr_router t)))"
  by (rule build_router_spec [OF laws ll order])

lemma slot_cases_le:
  "s \<noteq> TransportSecurity \<and> s \<le> LoggingSlot \<longleftrightarrow> s = LoggingSlot"
  "(s \<noteq> TransportSecurity \<and> LoggingSlot < s) \<and> s \<le> AuthenticationSlot \<longleftrightarrow> s = AuthenticationSlot"
  "(s \<noteq> TransportSecurity \<and> LoggingSlot < s) \<and> AuthenticationSlot < s \<longleftrightarrow> AuthenticationSlot < s"
  by (cases s; simp add: less_eq_middleware_slot_def less_middleware_slot_def)+

lemma protected_layers_split:
  "filter (\<lambda>l. tl_slot l \<noteq> TransportSecurity) (collect_layers app) =
     filter (\<lambda>l. tl_slot l = LoggingSlot) (collect_layers app) @
     filter (\<lambda>l. tl_slot l = AuthenticationSlot) (collect_layers app) @
     filter (\<lambda>l. AuthenticationSlot < tl_slot l) (collect_layers app)"
proof -
  have st: "sorted (map tl_slot (collect_layers app))" by (simp add: collect_layers_def)
  show ?thesis
    using filter_sorted_split [OF st, of "\<lambda>l. tl_slot l \<noteq> TransportSecurity" LoggingSlot]
      filter_sorted_split [OF st, of "\<lambda>l. tl_slot l \<noteq> TransportSecurity \<and> LoggingSlot < tl_slot l" AuthenticationSlot]
    by (simp only: slot_cases_le)
qed

text \<open>the stacks of the two protected groups, outermost layer first.  Behind plain
  \<open>Protected\<close> the plugin layers of the logging slot surround the authentication; behind
  \<open>ProtectedWith\<close> the named authentication surrounds them, so it does not stand in the
  place of the authentication slot.\<close>

theorem protected_stack_order:
  fixes lp :: "'r tagged_layer \<Rightarrow> 'p"
  shows "group_stack lp app Protected = transport_stack lp app @
     map (PluginLayer \<circ> lp) (filter (\<lambda>l. tl_slot l = LoggingSlot) (collect_layers app) @
       filter (\<lambda>l. tl_slot l = AuthenticationSlot) (collect_layers app) @
       filter (\<lambda>l. AuthenticationSlot < tl_slot l) (collect_layers app)) \<and>
   group_stack lp app (ProtectedWith name) = transport_stack lp app @
     AuthMiddleware (the (ga_named_auth app name)) #
     map (PluginLayer \<circ> lp) (filter (\<lambda>l. tl_slot l = LoggingSlot) (collect_layers app) @
       filter (\<lambda>l. AuthenticationSlot < tl_slot l) (collect_layers app))"
proof -
  have "filter (\<lambda>l. tl_slot l \<noteq> AuthenticationSlot) (filter (\<lambda>l. tl_slot l = LoggingSlot) ls) =
      filter (\<lambda>l. tl_slot l = LoggingSlot) ls"
    and "filter (\<lambda>l. tl_slot l \<noteq> AuthenticationSlot) (filter (\<lambda>l. tl_slot l = AuthenticationSlot) ls) = []"
    and "filter (\<lambda>l. tl_slot l \<noteq> AuthenticationSlot) (filter (\<lambda>l. AuthenticationSlot < tl_slot l) ls) =
      filter (\<lambda>l. AuthenticationSlot < tl_slot l) ls" for ls :: "'r tagged_layer list"
    by (induction ls) auto
  then show ?thesis
    by (simp add: group_stack_def Let_def protected_layers_split del: filter_filter)
qed

section \<open>Actions\<close>

text \<open>an action name belongs to the first plugin that registers it: a second registration
  is refused and leaves the table alone, and the name invokes the action registered first.\<close>

theorem register_action_first_wins:
  assumes "ga_actions app = ic_actions (snd (register_action name act2 (snd (register_action name act1 ctx))))"
    and "ic_actions ctx name = None"
  shows "fst (register_action name act1 ctx) = None \<and>
    register_action name act2 (snd (register_action name act1 ctx)) = (Some name, snd (register_action name act1 ctx)) \<and>
    invoke_action app name args = Ok (act1 args)"
  using assms by (simp add: register_action_def invoke_action_def)

text \<open>A typed action is invoked as it was written.\<close>

lemma register_action_fn_invoke:
  assumes "ga_actions app = ic_actions (snd (register_action_fn box name action ctx))" "ic_actions ctx name = None"
    and "\<And>x. dc (box x) = Some x"
  shows "invoke dc app name args = map_sum ActionFailed id (action args)"
  using assms by (cases "action args") (simp_all add: invoke_def invoke_action_def register_action_fn_def register_action_def)

section \<open>Concrete instances\<close>

text \<open>Two plugins over a world that counts hook calls; the second cannot be prepared.\<close>

type_synonym demo_plugin = "(unit, unit, unit, unit, string, nat) plugin_handle"

definition counting_plugin :: "string \<Rightarrow> demo_plugin" where
  "counting_plugin name = (default_plugin name)
     \<lparr>pl_prepare := \<lambda>w ctx. (None, ctx, Suc w), pl_shutdown := \<lambda>w x. (Some ''late'', Suc w)\<rparr>"

definition failing_plugin :: "string \<Rightarrow> demo_plugin" where
  "failing_plugin name = (counting_plugin name)\<lparr>pl_ordering := with_last ordering_new,
     pl_prepare := \<lambda>w ctx. (Some ''refused'', ctx, Suc w)\<rparr>"

definition demo_builder :: "(unit, unit, unit, unit, string, nat, unit) gasket_app_builder" where
  "demo_builder = with_plugin (counting_plugin ''cache'') (with_plugin (failing_plugin ''db'') builder)"

lemma build_lifecycle_witness:
  "build True (\<lambda>_. None) () demo_builder 0 =
     (Err (PrepareFailed ''refused''), 3,
      [(HPrepare, ''cache'', None), (HPrepare, ''db'', Some ''refused''), (HShutdown, ''cache'', Some ''late'')]) \<and>
   (\<exists>srt. valid_order (bu_plugins demo_builder) srt)"
proof -
  have b: "build True (\<lambda>_. None) () demo_builder 0 =
     (Err (PrepareFailed ''refused''), 3,
      [(HPrepare, ''cache'', None), (HPrepare, ''db'', Some ''refused''), (HShutdown, ''cache'', Some ''late'')])"
  proof -
    note defs = failing_plugin_def counting_plugin_def default_plugin_def
    have ps: "bu_plugins demo_builder = [failing_plugin ''db'', counting_plugin ''cache'']"
      and cd: "bu_config_def demo_builder = None"
      by (simp_all add: demo_builder_def with_plugin_def builder_def)
    moreover have "first_duplicate {} (map pl_name (bu_plugins demo_builder)) = None"
      and "missing_dependency (bu_plugins demo_builder) = None"
      by (simp_all add: missing_dependency_def ps defs)
    moreover have "topological_sort True (bu_plugins demo_builder) = Ok [1, 0]"
      by (simp add: ps defs topological_sort_def plugin_edges_def with_last_def ordering_new_def
          last_edges_def add_edge_def btree_insert_def in_degrees_def dec_usize_def upt_conv_Cons)
    moreover have "\<exists>c. resolve (\<lambda>_. None) (definition_default (\<lambda>_. None)) = Ok c"
      by (simp add: resolve_def resolve_env_str_def definition_default_def environment_of_def
          environment_names_def Let_def)
    ultimately show ?thesis by (auto simp: build_def defs Let_def)
  qed
  from build_lifecycle [OF b] have "\<exists>srt. valid_order (bu_plugins demo_builder) srt" by auto
  with b show ?thesis by blast
qed

definition demo_app :: "(unit, unit, unit \<Rightarrow> nat, unit, string, nat, unit) gasket_app" where
  "demo_app = \<lparr>ga_plugins = [default_plugin ''health'', (default_plugin ''server'')\<lparr>pl_ready := \<lambda>w ctx. (Some ''not ready'', w)\<rparr>],
     ga_actions = [''ping'' \<mapsto> \<lambda>_. 1],
     ga_config = \<lparr>ac_name = ''api'', ac_env = Local, ac_server = server_config_new ''0.0.0.0'' 8443, ac_sections = Map.empty\<rparr>,
     ga_extensions = (), ga_body_limit = DEFAULT_REQUEST_BODY_LIMIT, ga_named_auth = Map.empty\<rparr>"

lemma server_run_hooks_witness:
  "\<exists>before p rest. ga_plugins demo_app = before @ p # rest \<and>
     [(HReady, ''health'', None), (HReady, ''server'', Some ''not ready'')] =
       map (\<lambda>p. (HReady, pl_name p, None)) before @ [(HReady, pl_name p, Some ''not ready'')]"
proof -
  have "server_run (\<lambda>h. Some h) (\<lambda>_. (Ok () :: (unit, unit) result)) (\<lambda>w. (None, w)) (\<lambda>_. Ok ()) demo_app 0 =
     (Some (ReadyFailed ''not ready''), 0, [(HReady, ''health'', None), (HReady, ''server'', Some ''not ready'')])"
    by (simp add: server_run_def demo_app_def ready_def default_plugin_def)
  from server_run_hooks [OF this] show ?thesis by simp
qed

lemma register_action_first_wins_witness:
  "invoke_action (demo_app\<lparr>ga_actions := ic_actions (snd (register_action ''ping'' (\<lambda>_. 2)
     (snd (register_action ''ping'' (\<lambda>_. 1) init_context_new))))\<rparr>) ''ping'' () = Ok 1"
  by (rule register_action_first_wins [of _ "''ping''" "\<lambda>_. 2" "\<lambda>_. 1" init_context_new, THEN conjunct2, THEN conjunct2])
    (simp_all add: init_context_new_def)

text \<open>A router as the list of its routes and stacks has the documented laws.\<close>

type_synonym ('route, 'mw) stack_router = "('route \<times> 'mw list) list"

definition stack_ops :: "(('route, 'mw) stack_router, 'mw) router_ops" where
  "stack_ops = \<lparr>ro_new = [], ro_merge = (@), ro_layer = (\<lambda>m. map (\<lambda>(rt, st). (rt, m # st)))\<rparr>"

lemma stack_ops_laws: "router_laws stack_ops set"
  by (auto simp: router_laws_def stack_ops_def wrap_def)

type_synonym demo_mw = "(nat, string) middleware"
type_synonym demo_router = "(string, demo_mw) stack_router"

definition demo_layer :: "middleware_slot \<Rightarrow> string \<Rightarrow> demo_router tagged_layer" where
  "demo_layer s nm = \<lparr>tl_slot = s, tl_layer = ro_layer stack_ops (PluginLayer nm)\<rparr>"

definition routing_plugin :: "(unit, unit, unit, demo_router, unit, unit) plugin_handle" where
  "routing_plugin = (default_plugin ''routes'')
     \<lparr>pl_layers := \<lambda>_. [demo_layer AuthenticationSlot ''slot'', demo_layer LoggingSlot ''slot''],
      pl_routes := \<lambda>_. [\<lparr>tr_group = ProtectedWith ''push'', tr_router = [(''/push'', [])]\<rparr>,
        \<lparr>tr_group = Protected, tr_router = [(''/me'', [])]\<rparr>]\<rparr>"

definition routing_app :: "(unit, unit, unit, demo_router, unit, unit, nat) gasket_app" where
  "routing_app = \<lparr>ga_plugins = [routing_plugin], ga_actions = Map.empty,
     ga_config = ga_config demo_app, ga_extensions = (), ga_body_limit = 8, ga_named_auth = [''push'' \<mapsto> 7]\<rparr>"

lemma build_router_stacks_witness:
  "\<exists>router. build_router (\<lambda>xs. xs) stack_ops routing_app = Ok router \<and>
     (''/push'', group_stack (\<lambda>_. ''slot'') routing_app (ProtectedWith ''push'')) \<in> set router"
proof -
  have "layers_law set (\<lambda>_. ''slot'') (collect_layers routing_app)"
    by (auto simp: layers_law_def collect_layers_def routing_app_def routing_plugin_def default_plugin_def
        demo_layer_def stack_ops_def wrap_def)
  from build_router_stacks [OF stack_ops_laws this, of "\<lambda>xs. xs"]
  show ?thesis
    by (cases "build_router (\<lambda>xs. xs) stack_ops routing_app")
      (auto simp: collect_routes_def routing_app_def routing_plugin_def default_plugin_def wrap_def split: if_splits)
qed

end
