(* ===== verification/Errors.thy ===== *)
theory Errors
  imports Http
begin

text \<open>
  Error responses (\<open>error.rs\<close>, \<open>rusty-gasket-macros/src/api_error.rs\<close>) and the request
  extractors that answer with them (\<open>extract.rs\<close>).

  An error value of an application is what the \<open>ApiError\<close> trait reads from it.  A UUID is its
  text.  The ambient part of a response, the current request id, UUID parsing and generation
  and the JSON serialiser of \<open>axum::Json\<close>, is the record \<open>error_env\<close>.
\<close>

section \<open>Bodies\<close>

record error_detail =
  ed_issue :: string
  ed_description :: "string option"

definition error_detail_new :: "string \<Rightarrow> error_detail" where
  "error_detail_new issue = \<lparr>ed_issue = issue, ed_description = None\<rparr>"

definition error_detail_with_description :: "string \<Rightarrow> string \<Rightarrow> error_detail" where
  "error_detail_with_description issue d = \<lparr>ed_issue = issue, ed_description = Some d\<rparr>"

record error_response =
  er_error :: string
  er_message :: string
  er_correlation_id :: string
  er_details :: "error_detail list"

definition error_response_new :: "string \<Rightarrow> string \<Rightarrow> string \<Rightarrow> error_response" where
  "error_response_new code message cid =
     \<lparr>er_error = code, er_message = message, er_correlation_id = cid, er_details = []\<rparr>"

definition error_response_with_details :: "string \<Rightarrow> string \<Rightarrow> string \<Rightarrow> error_detail list \<Rightarrow> error_response" where
  "error_response_with_details code message cid details =
     \<lparr>er_error = code, er_message = message, er_correlation_id = cid, er_details = details\<rparr>"

record 'j problem_details =
  pd_type :: string
  pd_title :: string
  pd_status :: nat
  pd_detail :: "string option"
  pd_instance :: "string option"
  pd_extensions :: "string \<rightharpoonup> 'j"

definition problem_details_new :: "nat \<Rightarrow> string \<Rightarrow> string \<Rightarrow> 'j problem_details" where
  "problem_details_new status ty title =
     \<lparr>pd_type = ty, pd_title = title, pd_status = status, pd_detail = None, pd_instance = None,
      pd_extensions = Map.empty\<rparr>"

definition with_detail :: "string \<Rightarrow> 'j problem_details \<Rightarrow> 'j problem_details" where
  "with_detail d p = p\<lparr>pd_detail := Some d\<rparr>"

definition with_instance :: "string \<Rightarrow> 'j problem_details \<Rightarrow> 'j problem_details" where
  "with_instance i p = p\<lparr>pd_instance := Some i\<rparr>"

definition with_extension :: "string \<Rightarrow> 'j \<Rightarrow> 'j problem_details \<Rightarrow> 'j problem_details" where
  "with_extension n v p = p\<lparr>pd_extensions := (pd_extensions p)(n \<mapsto> v)\<rparr>"

section \<open>The error trait\<close>

record api_error =
  ae_code :: string
  ae_status :: nat
  ae_expose :: bool
  ae_message :: string \<comment> \<open>\<open>Display\<close>\<close>
  ae_details :: "error_detail list"
  ae_sources :: "string list" \<comment> \<open>the \<open>Display\<close> of each cause of the \<open>source()\<close> chain\<close>

text \<open>The trait's default for \<open>expose_details\<close>.\<close>

definition default_expose :: "nat \<Rightarrow> bool" where
  "default_expose status = is_client_error status"

definition full_error_chain :: "api_error \<Rightarrow> string" where
  "full_error_chain e = fold (\<lambda>cause msg. msg @ '' | caused by: '' @ cause) (ae_sources e) (ae_message e)"

record error_env =
  ee_request_id :: "string option"
  ee_uuid_parse :: "string \<Rightarrow> string option"
  ee_uuid_new :: string
  ee_render :: "error_response \<Rightarrow> string"

definition correlation_id :: "error_env \<Rightarrow> string" where
  "correlation_id env =
     (case Option.bind (ee_request_id env) (ee_uuid_parse env) of
        Some cid \<Rightarrow> cid
      | None \<Rightarrow> ee_uuid_new env)"

definition json_response :: "nat \<Rightarrow> string \<Rightarrow> response" where
  "json_response status body =
     \<lparr>rs_status = status, rs_headers = [(''content-type'', hv_static ''application/json'')], rs_body = Some body\<rparr>"

definition finalize_error_response :: "error_env \<Rightarrow> nat \<Rightarrow> error_response \<Rightarrow> response" where
  "finalize_error_response env status body =
     (let rs = json_response status (ee_render env body) in
      rs\<lparr>rs_headers := hinsert ''x-correlation-id'' (hv_static (er_correlation_id body)) (rs_headers rs)\<rparr>)"

text \<open>The response, and the line that is logged with the whole chain of causes.\<close>

datatype log_level = LogError | LogWarn

definition error_into_response :: "error_env \<Rightarrow> api_error \<Rightarrow> response \<times> (log_level \<times> string \<times> nat \<times> string \<times> string)" where
  "error_into_response env e =
     (let cid = correlation_id env;
          status = ae_status e;
          (message, details) =
            (if ae_expose e then (ae_message e, ae_details e) else (''Internal server error'', []));
          level = (if 500 \<le> status \<and> status < 600 then LogError else LogWarn);
          body = error_response_with_details (ae_code e) message cid details
      in (finalize_error_response env status body, (level, ae_code e, status, cid, full_error_chain e)))"

definition quick_error_response :: "error_env \<Rightarrow> nat \<Rightarrow> string \<Rightarrow> string \<Rightarrow> response" where
  "quick_error_response env status code message =
     finalize_error_response env status (error_response_new code message (correlation_id env))"

definition quick_error_response_with_details ::
  "error_env \<Rightarrow> nat \<Rightarrow> string \<Rightarrow> string \<Rightarrow> error_detail list \<Rightarrow> response" where
  "quick_error_response_with_details env status code message details =
     finalize_error_response env status (error_response_with_details code message (correlation_id env) details)"

definition problem_response :: "('j problem_details \<Rightarrow> string) \<Rightarrow> nat \<Rightarrow> 'j problem_details \<Rightarrow> response" where
  "problem_response render status p =
     (let rs = json_response status (render p) in
      rs\<lparr>rs_headers := hinsert ''content-type'' (hv_static ''application/problem+json'') (rs_headers rs)\<rparr>)"

section \<open>The derive macro\<close>

text \<open>The literals of an attribute's \<open>key = literal\<close> pairs; an attribute is the list of its
  pairs, in order.\<close>

datatype meta_lit = LitStr string | LitInt nat | LitBool bool | LitOther

record variant_attrs =
  va_code :: string
  va_status :: nat
  va_expose :: "bool option"

datatype derive_error =
  CodeNotString | StatusNotInteger | StatusTooBig | ExposeNotBool | UnknownKey string |
  MissingAttribute | InvalidStatus nat

fun parse_metas ::
  "(string \<times> meta_lit) list \<Rightarrow> string option \<times> nat option \<times> bool option \<Rightarrow>
   (derive_error, string option \<times> nat option \<times> bool option) result" where
  "parse_metas [] acc = Ok acc"
| "parse_metas ((k, l) # ms) (code, status, expose) =
     (if k = ''code'' then
        (case l of LitStr s \<Rightarrow> parse_metas ms (Some s, status, expose) | _ \<Rightarrow> Err CodeNotString)
      else if k = ''status'' then
        (case l of
           LitInt n \<Rightarrow> if n \<le> u16_max then parse_metas ms (code, Some n, expose) else Err StatusTooBig
         | _ \<Rightarrow> Err StatusNotInteger)
      else if k = ''expose'' then
        (case l of LitBool b \<Rightarrow> parse_metas ms (code, status, Some b) | _ \<Rightarrow> Err ExposeNotBool)
      else Err (UnknownKey k))"

fun parse_api_error_attrs :: "(string \<times> meta_lit) list list \<Rightarrow> (derive_error, variant_attrs option) result" where
  "parse_api_error_attrs [] = Ok None"
| "parse_api_error_attrs (a # as) =
     (case parse_metas a (None, None, None) of
        Err e \<Rightarrow> Err e
      | Ok (Some c, Some s, x) \<Rightarrow> Ok (Some \<lparr>va_code = c, va_status = s, va_expose = x\<rparr>)
      | Ok _ \<Rightarrow> parse_api_error_attrs as)"

text \<open>What the generated impl returns for one variant.\<close>

definition derive_variant :: "(string \<times> meta_lit) list list \<Rightarrow> (derive_error, string \<times> nat \<times> bool) result" where
  "derive_variant attrs =
     (case parse_api_error_attrs attrs of
        Err e \<Rightarrow> Err e
      | Ok None \<Rightarrow> Err MissingAttribute
      | Ok (Some a) \<Rightarrow>
          if \<not> (100 \<le> va_status a \<and> va_status a \<le> 999) then Err (InvalidStatus (va_status a))
          else Ok (va_code a, va_status a,
                   case va_expose a of Some x \<Rightarrow> x | None \<Rightarrow> va_status a < 500))"

definition derived_error ::
  "(string \<times> meta_lit) list list \<Rightarrow> string \<Rightarrow> string list \<Rightarrow> (derive_error, api_error) result" where
  "derived_error attrs message sources =
     (case derive_variant attrs of
        Err e \<Rightarrow> Err e
      | Ok (c, s, x) \<Rightarrow> Ok \<lparr>ae_code = c, ae_status = s, ae_expose = x, ae_message = message,
          ae_details = [], ae_sources = sources\<rparr>)"

datatype framework_error = NotFoundError | MethodNotAllowed | Internal "string list"

fun framework_error_attrs :: "framework_error \<Rightarrow> (string \<times> meta_lit) list list" where
  "framework_error_attrs NotFoundError = [[(''code'', LitStr ''NOT_FOUND''), (''status'', LitInt 404)]]"
| "framework_error_attrs MethodNotAllowed =
     [[(''code'', LitStr ''METHOD_NOT_ALLOWED''), (''status'', LitInt 405)]]"
| "framework_error_attrs (Internal src) =
     [[(''code'', LitStr ''INTERNAL_ERROR''), (''status'', LitInt 500), (''expose'', LitBool False)]]"

fun framework_error_message :: "framework_error \<Rightarrow> string \<times> string list" where
  "framework_error_message NotFoundError = (''Not found'', [])"
| "framework_error_message MethodNotAllowed = (''Method not allowed'', [])"
| "framework_error_message (Internal src) = (''Internal server error'', src)"

section \<open>Extractors\<close>

definition DEFAULT_PAGE_SIZE :: nat where "DEFAULT_PAGE_SIZE = 50"
definition MAX_PAGE_SIZE :: nat where "MAX_PAGE_SIZE = 500"
definition MAX_IDEMPOTENCY_KEY_LENGTH :: nat where "MAX_IDEMPOTENCY_KEY_LENGTH = 255"

definition standard_bad_request :: "error_env \<Rightarrow> string \<Rightarrow> string \<Rightarrow> response" where
  "standard_bad_request env code message = quick_error_response env 400 code message"

text \<open>\<open>JsonBody\<close>, \<open>QueryParams\<close> and \<open>PathParams\<close> around axum's extractors.\<close>

definition json_body :: "error_env \<Rightarrow> ('rej, 't) result \<Rightarrow> (response, 't) result" where
  "json_body env r =
     (case r of Ok v \<Rightarrow> Ok v
      | Err _ \<Rightarrow> Err (standard_bad_request env ''INVALID_JSON'' ''Request body is not valid JSON.''))"

definition query_params :: "error_env \<Rightarrow> ('rej, 't) result \<Rightarrow> (response, 't) result" where
  "query_params env r =
     (case r of Ok v \<Rightarrow> Ok v
      | Err _ \<Rightarrow> Err (standard_bad_request env ''INVALID_QUERY'' ''Query parameters are invalid.''))"

definition path_params :: "error_env \<Rightarrow> ('rej, 't) result \<Rightarrow> (response, 't) result" where
  "path_params env r =
     (case r of Ok v \<Rightarrow> Ok v
      | Err _ \<Rightarrow> Err (standard_bad_request env ''INVALID_PATH'' ''Path parameters are invalid.''))"

type_synonym validation_errors = "(string \<times> string) list"

definition validation_errors_new :: validation_errors where
  "validation_errors_new = []"

definition validation_errors_one :: "string \<Rightarrow> string \<Rightarrow> validation_errors" where
  "validation_errors_one f m = [(f, m)]"

definition validation_errors_push :: "string \<Rightarrow> string \<Rightarrow> validation_errors \<Rightarrow> validation_errors" where
  "validation_errors_push f m errs = errs @ [(f, m)]"

definition into_error_details :: "validation_errors \<Rightarrow> error_detail list" where
  "into_error_details errs = map (\<lambda>(f, m). error_detail_with_description f m) errs"

definition validation_error_response :: "error_env \<Rightarrow> validation_errors \<Rightarrow> response" where
  "validation_error_response env errs =
     quick_error_response_with_details env 400 ''VALIDATION_ERROR'' ''Request validation failed.''
       (into_error_details errs)"

definition validated :: "error_env \<Rightarrow> ('t \<Rightarrow> validation_errors option) \<Rightarrow> ('rej, 't) result \<Rightarrow> (response, 't) result" where
  "validated env validate r =
     (case json_body env r of
        Err rs \<Rightarrow> Err rs
      | Ok v \<Rightarrow> (case validate v of None \<Rightarrow> Ok v | Some errs \<Rightarrow> Err (validation_error_response env errs)))"

definition missing_idempotency_key_response :: "error_env \<Rightarrow> response" where
  "missing_idempotency_key_response env =
     quick_error_response env 400 ''IDEMPOTENCY_KEY_REQUIRED'' ''Idempotency-Key header is required for this endpoint.''"

definition invalid_idempotency_key_response :: "error_env \<Rightarrow> response" where
  "invalid_idempotency_key_response env =
     quick_error_response env 400 ''INVALID_IDEMPOTENCY_KEY''
       ''Idempotency-Key header must be visible ASCII text between 1 and 255 characters.''"

definition idempotency_key :: "error_env \<Rightarrow> headers \<Rightarrow> (response, string) result" where
  "idempotency_key env h =
     (case hget ''idempotency-key'' h of
        None \<Rightarrow> Err (missing_idempotency_key_response env)
      | Some v \<Rightarrow>
          (case hv_str v of
             None \<Rightarrow> Err (invalid_idempotency_key_response env)
           | Some s \<Rightarrow>
               let key = trim s in
               if key = [] \<or> MAX_IDEMPOTENCY_KEY_LENGTH < length key \<or> \<not> list_all is_ascii_graphic key
               then Err (invalid_idempotency_key_response env) else Ok key))"

record pagination =
  pg_page :: nat
  pg_limit :: nat

definition extract_pagination ::
  "error_env \<Rightarrow> ('rej, nat option \<times> nat option) result \<Rightarrow> (response, pagination) result" where
  "extract_pagination env query =
     (case query_params env query of
        Err rs \<Rightarrow> Err rs
      | Ok (qpage, qlimit) \<Rightarrow>
          (let page = (case qpage of Some p \<Rightarrow> p | None \<Rightarrow> 1) in
           if page = 0 then Err (validation_error_response env (validation_errors_one ''page'' ''page must be at least 1''))
           else
             let limit = min (case qlimit of Some l \<Rightarrow> l | None \<Rightarrow> DEFAULT_PAGE_SIZE) MAX_PAGE_SIZE in
             if limit = 0 then Err (validation_error_response env (validation_errors_one ''limit'' ''limit must be at least 1''))
             else Ok \<lparr>pg_page = page, pg_limit = limit\<rparr>))"

text \<open>\<open>(page - 1) * limit\<close> on \<open>usize\<close> (64 bits): out of range it panics with overflow checks
  (\<open>None\<close>) and wraps without.\<close>

definition offset :: "bool \<Rightarrow> pagination \<Rightarrow> nat option" where
  "offset ck p =
     (let o' = (pg_page p - 1) * pg_limit p in
      if o' \<le> u64_max then Some o' else if ck then None else Some (o' mod (u64_max + 1)))"

record request_context =
  rc_method :: string
  rc_uri :: string
  rc_request_id :: "string option"

definition extract_request_context :: "string option \<Rightarrow> string \<Rightarrow> request \<Rightarrow> request_context" where
  "extract_request_context ext_request_id uri rq =
     \<lparr>rc_method = rq_method rq, rc_uri = uri,
      rc_request_id = (case ext_request_id of Some r \<Rightarrow> Some r | None \<Rightarrow> hget_str ''x-request-id'' (rq_headers rq))\<rparr>"

definition extract_context :: "error_env \<Rightarrow> ('rej, 't) result \<Rightarrow> (response, 't) result" where
  "extract_context env r =
     (case r of Ok v \<Rightarrow> Ok v
      | Err _ \<Rightarrow> Err (quick_error_response env 500 ''CONTEXT_NOT_AVAILABLE''
          ''Application context is not available for this route.''))"

section \<open>Properties\<close>

lemma finalize_error_response_simps [simp]:
  "rs_status (finalize_error_response env status body) = status"
  "rs_body (finalize_error_response env status body) = Some (ee_render env body)"
  "hget ''x-correlation-id'' (rs_headers (finalize_error_response env status body)) =
     Some (hv_static (er_correlation_id body))"
  by (simp_all add: finalize_error_response_def json_response_def)

text \<open>C34: a variant of a derived error that is a server error and does not say \<open>expose = true\<close>
  leaks nothing: the response is a function of its code and status alone, with the fixed
  message and no details, whatever its text and causes are; and the correlation id of the
  body is the one in the \<open>X-Correlation-ID\<close> header and in the log.\<close>

theorem derived_server_error_redacted:
  assumes "derived_error attrs message sources = Ok e" and "500 \<le> ae_status e"
    and "\<forall>a \<in> set attrs. (''expose'', LitBool True) \<notin> set a"
  shows "\<exists>level. error_into_response env e =
      (finalize_error_response env (ae_status e)
         \<lparr>er_error = ae_code e, er_message = ''Internal server error'',
          er_correlation_id = correlation_id env, er_details = []\<rparr>,
       (level, ae_code e, ae_status e, correlation_id env, full_error_chain e))"
proof -
  have metas: "parse_metas ms (c, s, x) = Ok (c', s', Some True) \<Longrightarrow> x = Some True \<or> (''expose'', LitBool True) \<in> set ms"
    for ms c s x c' s'
    by (induction ms "(c, s, x)" arbitrary: c s x rule: parse_metas.induct)
      (auto split: if_splits meta_lit.splits)
  have "parse_api_error_attrs as = Ok (Some a) \<Longrightarrow> va_expose a = Some True \<Longrightarrow>
      \<exists>m \<in> set as. (''expose'', LitBool True) \<in> set m" for as a
    by (induction as) (auto split: sum.splits option.splits prod.splits dest: metas)
  then have "\<not> ae_expose e"
    using assms by (fastforce simp: derived_error_def derive_variant_def split: sum.splits option.splits if_splits)
  then show ?thesis by (simp add: error_into_response_def error_response_with_details_def Let_def)
qed

text \<open>the derive's default exposes exactly what the trait's default exposes for the 4xx and
  5xx statuses, but it also exposes every status below 400.\<close>

theorem derive_expose_default:
  assumes "derive_variant [[(''code'', LitStr c), (''status'', LitInt s)]] = Ok (c, s, x)"
  shows "x = (s < 500) \<and> (x \<longleftrightarrow> default_expose s \<or> s < 400)"
  using assms by (auto simp: derive_variant_def default_expose_def is_client_error_def split: if_splits)

text \<open>an accepted idempotency key is the trimmed header text, 1 to 255 visible ASCII bytes;
  anything else is answered with status 400.\<close>

theorem idempotency_key_valid:
  "case idempotency_key env h of
     Ok key \<Rightarrow> \<exists>v s. hget ''idempotency-key'' h = Some v \<and> hv_str v = Some s \<and> key = trim s \<and>
       1 \<le> length key \<and> length key \<le> 255 \<and> list_all is_ascii_graphic key
   | Err rs \<Rightarrow> rs_status rs = 400"
  by (auto simp: idempotency_key_def missing_idempotency_key_response_def invalid_idempotency_key_response_def Let_def quick_error_response_def MAX_IDEMPOTENCY_KEY_LENGTH_def
      Suc_le_eq split: option.splits)

text \<open>C35: an accepted pagination has a page of at least 1 and a limit between 1 and 500, and its
  offset is exact as long as the page is below 36893488147419104; a client can ask for a page
  beyond that, and then the multiplication overflows.\<close>

theorem pagination_bounds:
  "(case extract_pagination env query of
     Ok p \<Rightarrow> 1 \<le> pg_page p \<and> 1 \<le> pg_limit p \<and> pg_limit p \<le> 500 \<and>
       (pg_page p < 36893488147419104 \<longrightarrow> offset ck p = Some ((pg_page p - 1) * pg_limit p))
   | Err rs \<Rightarrow> rs_status rs = 400) \<and>
   (case extract_pagination env (Ok (Some u64_max, Some 500) :: (unit, nat option \<times> nat option) result) of
     Ok p \<Rightarrow> offset True p = None
   | Err _ \<Rightarrow> False)"
proof
  have bound: "(pg - 1) * l \<le> u64_max" if "pg < 36893488147419104" "l \<le> 500" for pg l :: nat
  proof -
    have "(pg - 1) * l \<le> 36893488147419102 * 500" using that by (intro mult_le_mono) auto
    then show ?thesis by (simp add: u64_max_def)
  qed
  show "case extract_pagination env query of
     Ok p \<Rightarrow> 1 \<le> pg_page p \<and> 1 \<le> pg_limit p \<and> pg_limit p \<le> 500 \<and>
       (pg_page p < 36893488147419104 \<longrightarrow> offset ck p = Some ((pg_page p - 1) * pg_limit p))
   | Err rs \<Rightarrow> rs_status rs = 400"
    using bound
    by (auto simp: extract_pagination_def query_params_def standard_bad_request_def quick_error_response_def
        validation_error_response_def quick_error_response_with_details_def Let_def offset_def
        MAX_PAGE_SIZE_def DEFAULT_PAGE_SIZE_def split: sum.splits prod.splits option.splits if_splits)
  show "case extract_pagination env (Ok (Some u64_max, Some 500) :: (unit, nat option \<times> nat option) result) of
     Ok p \<Rightarrow> offset True p = None
   | Err _ \<Rightarrow> False"
    by (simp add: extract_pagination_def query_params_def Let_def MAX_PAGE_SIZE_def offset_def u64_max_def)
qed

section \<open>Concrete instances\<close>

definition demo_env :: error_env where
  "demo_env = \<lparr>ee_request_id = Some ''r-1'', ee_uuid_parse = Some, ee_uuid_new = ''new'', ee_render = er_message\<rparr>"

lemma derived_server_error_redacted_witness:
  "\<exists>e. derived_error [[(''code'', LitStr ''DB''), (''status'', LitInt 503)]] ''password=secret'' [] = Ok e \<and>
     rs_body (fst (error_into_response demo_env e)) = Some ''Internal server error''"
proof -
  obtain e where e: "derived_error [[(''code'', LitStr ''DB''), (''status'', LitInt 503)]] ''password=secret'' [] = Ok e"
    and s: "ae_status e = 503" by (simp add: derived_error_def derive_variant_def u16_max_def)
  from derived_server_error_redacted [OF e, of demo_env] s
  have "rs_body (fst (error_into_response demo_env e)) = Some ''Internal server error''"
    by (auto simp: demo_env_def)
  with e show ?thesis by blast
qed

lemma derive_expose_default_witness:
  "derive_variant [[(''code'', LitStr ''MOVED''), (''status'', LitInt 302)]] = Ok (''MOVED'', 302, True) \<and>
   \<not> default_expose 302"
proof -
  have d: "derive_variant [[(''code'', LitStr ''MOVED''), (''status'', LitInt 302)]] = Ok (''MOVED'', 302, True)"
    by (simp add: derive_variant_def u16_max_def)
  from derive_expose_default [OF d] d show ?thesis by (simp add: default_expose_def is_client_error_def)
qed

lemma pagination_bounds_witness:
  "offset True \<lparr>pg_page = 3, pg_limit = 20\<rparr> = Some 40 \<and>
   extract_pagination demo_env (Ok (Some 3, Some 20) :: (unit, nat option \<times> nat option) result) =
     Ok \<lparr>pg_page = 3, pg_limit = 20\<rparr>"
  using pagination_bounds [where env = demo_env and ck = True and query = "Ok (Some 3, Some 20) :: (unit, nat option \<times> nat option) result"]
  by (simp add: extract_pagination_def query_params_def Let_def MAX_PAGE_SIZE_def)

end
