(* ===== verification/Auth_Core.thy ===== *)
theory Auth_Core
  imports Errors
begin

text \<open>
  Identities, errors, backends and the chain of the auth subsystem (\<open>auth/identity.rs\<close>,
  \<open>auth/error.rs\<close>, \<open>auth/backend.rs\<close>, \<open>auth/chain.rs\<close>, \<open>auth/backends/static_bearer.rs\<close>,
  \<open>auth/backends/basic_auth.rs\<close>, \<open>auth/backends/api_key.rs\<close>).

  A backend is a function of the headers, the URI and a state \<open>'s\<close> (whatever a validator, a
  key cache or a database keeps), which it returns updated; the chain threads that state, so
  that which backends ran is visible.  The typed attribute map of an identity is a map from
  type names to values.  The two constant-time comparisons are equality of byte strings.
  Base64 decoding, the form parser and the validator of API keys are arguments.  The locale
  \<open>auth_backend\<close> states the contract of the trait.
\<close>

section \<open>Identities\<close>

record 'x identity =
  id_subject :: string
  id_auth_method :: string
  id_display_name :: "string option"
  id_scopes :: "string set"
  id_service_account :: bool
  id_privileged :: bool
  id_attributes :: "string \<rightharpoonup> 'x"

definition identity_new :: "string \<Rightarrow> string \<Rightarrow> 'x identity" where
  "identity_new subject auth_method =
     \<lparr>id_subject = subject, id_auth_method = auth_method, id_display_name = None, id_scopes = {},
      id_service_account = False, id_privileged = False, id_attributes = Map.empty\<rparr>"

definition with_display_name :: "string \<Rightarrow> 'x identity \<Rightarrow> 'x identity" where
  "with_display_name n i = i\<lparr>id_display_name := Some n\<rparr>"

definition with_scope :: "string \<Rightarrow> 'x identity \<Rightarrow> 'x identity" where
  "with_scope sc i = i\<lparr>id_scopes := insert sc (id_scopes i)\<rparr>"

definition with_scopes :: "string list \<Rightarrow> 'x identity \<Rightarrow> 'x identity" where
  "with_scopes scs i = i\<lparr>id_scopes := id_scopes i \<union> set scs\<rparr>"

definition with_privileged :: "bool \<Rightarrow> 'x identity \<Rightarrow> 'x identity" where
  "with_privileged b i = i\<lparr>id_privileged := b\<rparr>"

definition with_service_account :: "bool \<Rightarrow> 'x identity \<Rightarrow> 'x identity" where
  "with_service_account b i = i\<lparr>id_service_account := b\<rparr>"

definition with_attribute :: "string \<Rightarrow> 'x \<Rightarrow> 'x identity \<Rightarrow> 'x identity" where
  "with_attribute t v i = i\<lparr>id_attributes := (id_attributes i)(t \<mapsto> v)\<rparr>"

definition has_scope :: "'x identity \<Rightarrow> string \<Rightarrow> bool" where
  "has_scope i sc \<longleftrightarrow> sc \<in> id_scopes i"

definition has_all_scopes :: "'x identity \<Rightarrow> string list \<Rightarrow> bool" where
  "has_all_scopes i scs \<longleftrightarrow> list_all (\<lambda>s. s \<in> id_scopes i) scs"

definition has_any_scope :: "'x identity \<Rightarrow> string list \<Rightarrow> bool" where
  "has_any_scope i scs \<longleftrightarrow> list_ex (\<lambda>s. s \<in> id_scopes i) scs"

section \<open>Errors\<close>

datatype auth_error =
  MissingCredentials string | InvalidCredentials string | TokenExpired |
  TokenValidation string | AuthorizationDenied string | BackendError string | Configuration string

fun auth_error_text :: "auth_error \<Rightarrow> string" where
  "auth_error_text (MissingCredentials s) = ''Missing credentials: '' @ s"
| "auth_error_text (InvalidCredentials s) = ''Invalid credentials: '' @ s"
| "auth_error_text TokenExpired = ''Token expired''"
| "auth_error_text (TokenValidation s) = ''Token validation failed: '' @ s"
| "auth_error_text (AuthorizationDenied s) = ''Authorization denied: '' @ s"
| "auth_error_text (BackendError s) = ''Backend error: '' @ s"
| "auth_error_text (Configuration s) = ''Configuration error: '' @ s"

fun auth_status_code :: "auth_error \<Rightarrow> nat" where
  "auth_status_code (MissingCredentials _) = 401"
| "auth_status_code (InvalidCredentials _) = 401"
| "auth_status_code TokenExpired = 401"
| "auth_status_code (TokenValidation _) = 401"
| "auth_status_code (AuthorizationDenied _) = 403"
| "auth_status_code (BackendError _) = 500"
| "auth_status_code (Configuration _) = 500"

fun auth_error_code :: "auth_error \<Rightarrow> string" where
  "auth_error_code (MissingCredentials _) = ''MISSING_CREDENTIALS''"
| "auth_error_code (InvalidCredentials _) = ''INVALID_CREDENTIALS''"
| "auth_error_code TokenExpired = ''TOKEN_EXPIRED''"
| "auth_error_code (TokenValidation _) = ''TOKEN_VALIDATION_FAILED''"
| "auth_error_code (AuthorizationDenied _) = ''AUTHORIZATION_DENIED''"
| "auth_error_code (BackendError _) = ''AUTH_BACKEND_ERROR''"
| "auth_error_code (Configuration _) = ''AUTH_CONFIGURATION_ERROR''"

fun auth_error_category :: "auth_error \<Rightarrow> string" where
  "auth_error_category (MissingCredentials _) = ''missing_credentials''"
| "auth_error_category (InvalidCredentials _) = ''invalid_credentials''"
| "auth_error_category TokenExpired = ''token_expired''"
| "auth_error_category (TokenValidation _) = ''token_validation''"
| "auth_error_category (AuthorizationDenied _) = ''authorization_denied''"
| "auth_error_category (BackendError _) = ''backend_error''"
| "auth_error_category (Configuration _) = ''configuration_error''"

definition auth_client_message :: "auth_error \<Rightarrow> string" where
  "auth_client_message e =
     (if is_client_error (auth_status_code e) then
        (case e of
           MissingCredentials _ \<Rightarrow> ''Missing credentials''
         | InvalidCredentials _ \<Rightarrow> ''Invalid credentials''
         | TokenExpired \<Rightarrow> ''Token expired''
         | TokenValidation _ \<Rightarrow> ''Token validation failed''
         | AuthorizationDenied _ \<Rightarrow> ''Authorization denied''
         | BackendError _ \<Rightarrow> ''Authentication failed''
         | Configuration _ \<Rightarrow> ''Authentication failed'')
      else ''Internal authentication error'')"

definition auth_error_response :: "error_env \<Rightarrow> auth_error \<Rightarrow> response" where
  "auth_error_response env e =
     quick_error_response env (auth_status_code e) (auth_error_code e) (auth_client_message e)"

section \<open>Backends and the chain\<close>

record uri =
  uri_path :: string
  uri_query :: "string option"

type_synonym 'x auth_result_of = "(auth_error, 'x identity option) result"
type_synonym ('s, 'x) backend_fn = "headers \<Rightarrow> uri \<Rightarrow> 's \<Rightarrow> 'x auth_result_of \<times> 's"

record ('s, 'x) auth_backend_handle =
  abh_name :: string
  abh_authenticate :: "('s, 'x) backend_fn"

datatype unauthenticated_policy = Reject | AllowAnonymous

record ('s, 'x) auth_chain =
  ac_backends :: "('s, 'x) auth_backend_handle list"
  ac_fallback :: unauthenticated_policy

definition auth_chain_new :: "('s, 'x) auth_chain" where
  "auth_chain_new = \<lparr>ac_backends = [], ac_fallback = Reject\<rparr>"

definition backend_handle :: "('s, 'x) auth_backend_handle \<Rightarrow> ('s, 'x) auth_chain \<Rightarrow> ('s, 'x) auth_chain" where
  "backend_handle b c = c\<lparr>ac_backends := ac_backends c @ [b]\<rparr>"

definition add_backends :: "('s, 'x) auth_backend_handle list \<Rightarrow> ('s, 'x) auth_chain \<Rightarrow> ('s, 'x) auth_chain" where
  "add_backends bs c = c\<lparr>ac_backends := ac_backends c @ bs\<rparr>"

definition with_fallback :: "unauthenticated_policy \<Rightarrow> ('s, 'x) auth_chain \<Rightarrow> ('s, 'x) auth_chain" where
  "with_fallback p c = c\<lparr>ac_fallback := p\<rparr>"

fun authenticate_backends ::
  "('s, 'x) auth_backend_handle list \<Rightarrow> unauthenticated_policy \<Rightarrow> headers \<Rightarrow> uri \<Rightarrow> 's \<Rightarrow> 'x auth_result_of \<times> 's" where
  "authenticate_backends [] fallback h u s =
     (case fallback of
        AllowAnonymous \<Rightarrow> (Ok None, s)
      | Reject \<Rightarrow> (Err (MissingCredentials ''No valid credentials provided''), s))"
| "authenticate_backends (b # bs) fallback h u s =
     (case abh_authenticate b h u s of
        (Ok (Some i), s) \<Rightarrow> (Ok (Some i), s)
      | (Ok None, s) \<Rightarrow> authenticate_backends bs fallback h u s
      | (Err e, s) \<Rightarrow> (Err e, s))"

definition chain_authenticate :: "('s, 'x) auth_chain \<Rightarrow> headers \<Rightarrow> uri \<Rightarrow> 's \<Rightarrow> 'x auth_result_of \<times> 's" where
  "chain_authenticate c = authenticate_backends (ac_backends c) (ac_fallback c)"

text \<open>The contract of the trait: a backend judges only the credential it looks for, defers
  without effect when there is none, and sees nothing else of the request.\<close>

locale auth_backend =
  fixes authenticate :: "('s, 'x) backend_fn"
    and credential :: "headers \<Rightarrow> uri \<Rightarrow> 'c option"
  assumes defers: "credential h u = None \<Longrightarrow> authenticate h u s = (Ok None, s)"
    and by_credential: "credential h u = credential h' u' \<Longrightarrow> authenticate h u s = authenticate h' u' s"
begin

lemma chain_skips:
  assumes "credential h u = None" and "abh_authenticate b = authenticate"
  shows "authenticate_backends (b # bs) fallback h u s = authenticate_backends bs fallback h u s"
  using defers [OF assms(1)] assms(2) by simp

end

text \<open>A backend that always judges a credential it finds: the chain never goes past it.\<close>

locale definitive_backend = auth_backend +
  assumes definitive: "credential h u \<noteq> None \<Longrightarrow> fst (authenticate h u s) \<noteq> Ok None"
begin

lemma chain_stops:
  assumes "credential h u \<noteq> None" and "abh_authenticate b = authenticate"
  shows "authenticate_backends (b # bs) fallback h u s = authenticate h u s"
  using definitive [OF assms(1), of s] assms(2)
  by (auto split: prod.splits sum.splits option.splits)

lemma chain_not_anonymous:
  assumes "credential h u \<noteq> None" and "abh_authenticate b = authenticate"
  shows "fst (authenticate_backends (b # bs) fallback h u s) \<noteq> Ok None"
  using chain_stops [OF assms] definitive [OF assms(1)] by metis

end

section \<open>Bearer tokens\<close>

definition BEARER :: string where "BEARER = ''Bearer ''"

lemma length_BEARER [simp]: "length BEARER = 7"
  by (simp add: BEARER_def)

definition extract_bearer_token :: "string \<Rightarrow> string option" where
  "extract_bearer_token v =
     (if length v < length BEARER then None
      else if eq_ignore_ascii_case (take (length BEARER) v) BEARER then Some (drop (length BEARER) v)
      else None)"

record static_bearer =
  sb_token :: string
  sb_subject :: string
  sb_service_account :: bool
  sb_privileged :: bool

definition static_bearer_new :: "string \<Rightarrow> static_bearer" where
  "static_bearer_new token =
     \<lparr>sb_token = token, sb_subject = ''static-bearer'', sb_service_account = False, sb_privileged = False\<rparr>"

definition static_bearer_subject :: "string \<Rightarrow> static_bearer \<Rightarrow> static_bearer" where
  "static_bearer_subject x b = b\<lparr>sb_subject := x\<rparr>"

definition static_bearer_service_account :: "bool \<Rightarrow> static_bearer \<Rightarrow> static_bearer" where
  "static_bearer_service_account x b = b\<lparr>sb_service_account := x\<rparr>"

definition static_bearer_privileged :: "bool \<Rightarrow> static_bearer \<Rightarrow> static_bearer" where
  "static_bearer_privileged x b = b\<lparr>sb_privileged := x\<rparr>"

definition static_bearer_identity :: "static_bearer \<Rightarrow> 'x identity" where
  "static_bearer_identity b =
     with_privileged (sb_privileged b) (with_service_account (sb_service_account b)
       (identity_new (sb_subject b) ''static-bearer''))"

definition bearer_credential :: "headers \<Rightarrow> uri \<Rightarrow> string option" where
  "bearer_credential h u = Option.bind (Option.bind (hget ''authorization'' h) hv_str) extract_bearer_token"

definition static_bearer_authenticate :: "static_bearer \<Rightarrow> ('s, 'x) backend_fn" where
  "static_bearer_authenticate b h u s =
     (case hget ''authorization'' h of
        None \<Rightarrow> (Ok None, s)
      | Some header \<Rightarrow>
          (case Option.bind (hv_str header) extract_bearer_token of
             None \<Rightarrow> (Ok None, s)
           | Some token \<Rightarrow>
               if length token = length (sb_token b) \<and> token = sb_token b
               then (Ok (Some (static_bearer_identity b)), s)
               else (Err (InvalidCredentials ''static bearer token mismatch''), s)))"

lemma static_bearer_by_credential:
  "static_bearer_authenticate b h u s =
     (case bearer_credential h u of
        None \<Rightarrow> (Ok None, s)
      | Some token \<Rightarrow>
          if token = sb_token b then (Ok (Some (static_bearer_identity b)), s)
          else (Err (InvalidCredentials ''static bearer token mismatch''), s))"
  by (auto simp: static_bearer_authenticate_def bearer_credential_def split: option.splits)

interpretation static_bearer: definitive_backend "static_bearer_authenticate b" bearer_credential for b
  by standard (auto simp: static_bearer_by_credential split: if_splits)

section \<open>Basic authentication\<close>

definition BASIC :: string where "BASIC = ''Basic ''"

lemma length_BASIC [simp]: "length BASIC = 6"
  by (simp add: BASIC_def)

definition extract_basic_credentials :: "(string \<Rightarrow> string option) \<Rightarrow> string \<Rightarrow> (string \<times> string) option" where
  "extract_basic_credentials b64_decode v =
     (if length v < length BASIC \<or> \<not> eq_ignore_ascii_case (take (length BASIC) v) BASIC then None
      else (case b64_decode (trim (drop (length BASIC) v)) of
              None \<Rightarrow> None
            | Some decoded \<Rightarrow> if utf8_valid decoded then split_once (CHR '':'') decoded else None))"

record basic_auth =
  ba_username :: string
  ba_password :: string
  ba_subject :: string
  ba_service_account :: bool
  ba_privileged :: bool

definition basic_auth_new :: "string \<Rightarrow> string \<Rightarrow> basic_auth" where
  "basic_auth_new username password =
     \<lparr>ba_username = username, ba_password = password, ba_subject = ''basic-auth'',
      ba_service_account = False, ba_privileged = False\<rparr>"

definition basic_auth_subject :: "string \<Rightarrow> basic_auth \<Rightarrow> basic_auth" where
  "basic_auth_subject x b = b\<lparr>ba_subject := x\<rparr>"

definition basic_auth_service_account :: "bool \<Rightarrow> basic_auth \<Rightarrow> basic_auth" where
  "basic_auth_service_account x b = b\<lparr>ba_service_account := x\<rparr>"

definition basic_auth_privileged :: "bool \<Rightarrow> basic_auth \<Rightarrow> basic_auth" where
  "basic_auth_privileged x b = b\<lparr>ba_privileged := x\<rparr>"

definition basic_auth_identity :: "basic_auth \<Rightarrow> 'x identity" where
  "basic_auth_identity b =
     with_privileged (ba_privileged b) (with_service_account (ba_service_account b)
       (identity_new (ba_subject b) ''basic-auth''))"

definition basic_credential :: "(string \<Rightarrow> string option) \<Rightarrow> headers \<Rightarrow> uri \<Rightarrow> (string \<times> string) option" where
  "basic_credential b64_decode h u =
     Option.bind (Option.bind (hget ''authorization'' h) hv_str) (extract_basic_credentials b64_decode)"

definition basic_auth_authenticate :: "(string \<Rightarrow> string option) \<Rightarrow> basic_auth \<Rightarrow> ('s, 'x) backend_fn" where
  "basic_auth_authenticate b64_decode b h u s =
     (case hget ''authorization'' h of
        None \<Rightarrow> (Ok None, s)
      | Some header \<Rightarrow>
          (case Option.bind (hv_str header) (extract_basic_credentials b64_decode) of
             None \<Rightarrow> (Ok None, s)
           | Some (username, password) \<Rightarrow>
               (let user_ok = (length username = length (ba_username b) \<and> username = ba_username b);
                    pass_ok = (length password = length (ba_password b) \<and> password = ba_password b)
                in if user_ok \<and> pass_ok then (Ok (Some (basic_auth_identity b)), s)
                   else (Err (InvalidCredentials ''basic auth credential mismatch''), s))))"

lemma basic_auth_by_credential:
  "basic_auth_authenticate b64_decode b h u s =
     (case basic_credential b64_decode h u of
        None \<Rightarrow> (Ok None, s)
      | Some c \<Rightarrow>
          if c = (ba_username b, ba_password b) then (Ok (Some (basic_auth_identity b)), s)
          else (Err (InvalidCredentials ''basic auth credential mismatch''), s))"
  by (auto simp: basic_auth_authenticate_def basic_credential_def Let_def split: option.splits)

interpretation basic_auth: definitive_backend "basic_auth_authenticate b64_decode b" "basic_credential b64_decode"
  for b64_decode b
  by standard (auto simp: basic_auth_by_credential split: if_splits)

section \<open>API keys\<close>

datatype api_key_source = KeyHeader string | KeyQueryParam string

fun extract_key :: "(string \<Rightarrow> (string \<times> string) list) \<Rightarrow> api_key_source \<Rightarrow> headers \<Rightarrow> uri \<Rightarrow> string option" where
  "extract_key parse_form (KeyHeader n) h u = hget_str (to_ascii_lowercase n) h"
| "extract_key parse_form (KeyQueryParam p) h u =
     Option.bind (uri_query u) (\<lambda>q. map_option snd (find (\<lambda>(k, _). k = p) (parse_form q)))"

definition api_key_authenticate ::
  "(string \<Rightarrow> (string \<times> string) list) \<Rightarrow> api_key_source \<Rightarrow> (string \<Rightarrow> 's \<Rightarrow> 'x auth_result_of \<times> 's) \<Rightarrow>
   ('s, 'x) backend_fn" where
  "api_key_authenticate parse_form source validate h u s =
     (case extract_key parse_form source h u of
        None \<Rightarrow> (Ok None, s)
      | Some key \<Rightarrow> validate key s)"

interpretation api_key: auth_backend "api_key_authenticate parse_form source validate" "extract_key parse_form source"
  for parse_form source and validate :: "string \<Rightarrow> 's \<Rightarrow> 'x auth_result_of \<times> 's"
  by standard (simp_all add: api_key_authenticate_def)

section \<open>Properties\<close>

text \<open>All the given backends defer, one after the other; the state they leave.\<close>

fun defer_all :: "('s, 'x) auth_backend_handle list \<Rightarrow> headers \<Rightarrow> uri \<Rightarrow> 's \<Rightarrow> 's option" where
  "defer_all [] h u s = Some s"
| "defer_all (b # bs) h u s =
     (case abh_authenticate b h u s of (Ok None, s) \<Rightarrow> defer_all bs h u s | _ \<Rightarrow> None)"

definition fallback_result :: "unauthenticated_policy \<Rightarrow> 'x auth_result_of" where
  "fallback_result p =
     (case p of AllowAnonymous \<Rightarrow> Ok None | Reject \<Rightarrow> Err (MissingCredentials ''No valid credentials provided''))"

lemma authenticate_backends_append:
  assumes "defer_all pre h u s = Some s1"
  shows "authenticate_backends (pre @ bs) fallback h u s = authenticate_backends bs fallback h u s1"
  using assms by (induction pre arbitrary: s) (auto split: prod.splits sum.splits option.splits)

lemma authenticate_backends_stop:
  assumes "abh_authenticate b h u s = (r, s')" and "r \<noteq> Ok None"
  shows "authenticate_backends (b # bs) fallback h u s = (r, s')"
  using assms by (auto split: sum.splits option.splits)

lemma authenticate_backends_cases:
  "(\<exists>pre b post s1. bs = pre @ b # post \<and> defer_all pre h u s = Some s1 \<and>
      fst (abh_authenticate b h u s1) \<noteq> Ok None) \<or> (\<exists>s1. defer_all bs h u s = Some s1)"
proof (induction bs arbitrary: s)
  case (Cons b bs)
  obtain r s1 where b: "abh_authenticate b h u s = (r, s1)" by fastforce
  show ?case
  proof (cases "r = Ok None")
    case False
    then have "b # bs = [] @ b # bs \<and> defer_all [] h u s = Some s \<and> fst (abh_authenticate b h u s) \<noteq> Ok None"
      using b by simp
    then show ?thesis by blast
  next
    case True
    then have step: "defer_all (b # xs) h u s = defer_all xs h u s1" for xs using b by simp
    from Cons.IH [of s1] show ?thesis
      using step by (metis append_Cons)
  qed
qed simp

lemma chain_verdict_iff:
  "authenticate_backends bs fallback h u s = (r, s') \<longleftrightarrow>
     (\<exists>pre b post s1. bs = pre @ b # post \<and> defer_all pre h u s = Some s1 \<and>
        abh_authenticate b h u s1 = (r, s') \<and> r \<noteq> Ok None) \<or>
     (defer_all bs h u s = Some s' \<and> r = fallback_result fallback)"
    (is "?run \<longleftrightarrow> ?stop \<or> ?deferred")
proof
  have none: "defer_all bs h u s = Some s1 \<Longrightarrow> authenticate_backends bs fallback h u s = (fallback_result fallback, s1)" for s1
    using authenticate_backends_append [of bs h u s s1 "[]" fallback]
    by (simp add: fallback_result_def split: unauthenticated_policy.splits)
  show "?stop \<or> ?deferred" if ?run
    using authenticate_backends_cases [of bs h u s]
  proof
    assume "\<exists>pre b post s1. bs = pre @ b # post \<and> defer_all pre h u s = Some s1 \<and>
      fst (abh_authenticate b h u s1) \<noteq> Ok None"
    then obtain pre b post s1 where *: "bs = pre @ b # post" "defer_all pre h u s = Some s1"
      "fst (abh_authenticate b h u s1) \<noteq> Ok None" by blast
    obtain r1 s2 where b: "abh_authenticate b h u s1 = (r1, s2)" by fastforce
    with * have "authenticate_backends bs fallback h u s = (r1, s2)"
      using authenticate_backends_stop [OF b] by (simp add: authenticate_backends_append del: authenticate_backends.simps)
    with that * b show ?thesis by auto
  next
    assume "\<exists>s1. defer_all bs h u s = Some s1"
    with none that show ?thesis by auto
  qed
  show ?run if "?stop \<or> ?deferred"
    using that none by (auto simp: authenticate_backends_append authenticate_backends_stop
        simp del: authenticate_backends.simps)
qed

text \<open>C6: the verdict of a chain is that of the first backend, in registration order, that does
  not defer: its identity or its error, and no later backend runs, so that a rejected credential
  never falls through to another backend or to anonymous access.  When every backend defers the
  policy decides: anonymous, or a missing-credentials error.\<close>

theorem chain_verdict:
  "chain_authenticate c h u s = (r, s') \<longleftrightarrow>
     (\<exists>pre b post s1. ac_backends c = pre @ b # post \<and> defer_all pre h u s = Some s1 \<and>
        abh_authenticate b h u s1 = (r, s') \<and> r \<noteq> Ok None) \<or>
     (defer_all (ac_backends c) h u s = Some s' \<and> r = fallback_result (ac_fallback c))"
  unfolding chain_authenticate_def by (rule chain_verdict_iff)

text \<open>a static bearer backend accepts exactly the requests whose (first) \<open>Authorization\<close>
  header is the scheme \<open>Bearer\<close>, in any case, one blank and the configured token; and behind it
  nothing else of a chain is asked once some bearer token is presented: a wrong one is refused.\<close>

theorem static_bearer_exact:
  "(static_bearer_authenticate b h u s = (Ok (Some i), s') \<longleftrightarrow>
      s' = s \<and> i = static_bearer_identity b \<and>
      (\<exists>v scheme. hget ''authorization'' h = Some v \<and> hv_str v = Some (scheme @ sb_token b) \<and>
        length scheme = 7 \<and> eq_ignore_ascii_case scheme ''Bearer '')) \<and>
   (case bearer_credential h u of
      None \<Rightarrow> authenticate_backends (\<lparr>abh_name = n, abh_authenticate = static_bearer_authenticate b\<rparr> # bs) fallback h u s =
        authenticate_backends bs fallback h u s
    | Some token \<Rightarrow> authenticate_backends (\<lparr>abh_name = n, abh_authenticate = static_bearer_authenticate b\<rparr> # bs) fallback h u s =
        (if token = sb_token b then Ok (Some (static_bearer_identity b))
         else Err (InvalidCredentials ''static bearer token mismatch''), s))"
proof
  have bearer: "extract_bearer_token v = Some t \<longleftrightarrow>
      (\<exists>scheme. v = scheme @ t \<and> length scheme = 7 \<and> eq_ignore_ascii_case scheme ''Bearer '')" for v t
    unfolding prefix_iff_take BEARER_def [symmetric] by (auto simp: extract_bearer_token_def)
  show "static_bearer_authenticate b h u s = (Ok (Some i), s') \<longleftrightarrow>
      s' = s \<and> i = static_bearer_identity b \<and>
      (\<exists>v scheme. hget ''authorization'' h = Some v \<and> hv_str v = Some (scheme @ sb_token b) \<and>
        length scheme = 7 \<and> eq_ignore_ascii_case scheme ''Bearer '')"
  proof -
    have "static_bearer_authenticate b h u s = (Ok (Some i), s') \<longleftrightarrow>
        s' = s \<and> i = static_bearer_identity b \<and> bearer_credential h u = Some (sb_token b)"
      by (auto simp: static_bearer_by_credential split: option.splits)
    then show ?thesis by (auto simp: bearer_credential_def bind_eq_Some_conv bearer)
  qed
  show "case bearer_credential h u of
      None \<Rightarrow> authenticate_backends (\<lparr>abh_name = n, abh_authenticate = static_bearer_authenticate b\<rparr> # bs) fallback h u s =
        authenticate_backends bs fallback h u s
    | Some token \<Rightarrow> authenticate_backends (\<lparr>abh_name = n, abh_authenticate = static_bearer_authenticate b\<rparr> # bs) fallback h u s =
        (if token = sb_token b then Ok (Some (static_bearer_identity b))
         else Err (InvalidCredentials ''static bearer token mismatch''), s)"
    by (auto simp: static_bearer.chain_skips static_bearer.chain_stops split: option.splits)
      (simp_all add: static_bearer_by_credential)
qed

text \<open>A request presents a user name and a password: the (first) \<open>Authorization\<close> header is text,
  it begins with the scheme \<open>Basic\<close>, in any case, and a blank, and the rest, trimmed, is the
  encoding of UTF-8 text with the two around its first colon.\<close>

definition presents_basic ::
  "(string \<Rightarrow> string option) \<Rightarrow> headers \<Rightarrow> string \<Rightarrow> string \<Rightarrow> bool" where
  "presents_basic b64_decode h user pass \<longleftrightarrow> CHR '':'' \<notin> set user \<and>
     (\<exists>v scheme enc. hget ''authorization'' h = Some v \<and> hv_str v = Some (scheme @ enc) \<and>
        length scheme = 6 \<and> eq_ignore_ascii_case scheme ''Basic '' \<and>
        b64_decode (trim enc) = Some (user @ '':'' @ pass) \<and> utf8_valid (user @ '':'' @ pass))"

lemma basic_credential_iff:
  "basic_credential b64_decode h u = Some (x, y) \<longleftrightarrow> presents_basic b64_decode h x y"
proof -
  have split: "split_once (CHR '':'') d = Some (x, y) \<longleftrightarrow> d = x @ '':'' @ y \<and> CHR '':'' \<notin> set x" for d x y
    using split_once_append [of "CHR '':''" x y] split_once_Some [of "CHR '':''" d x y] by auto
  have "extract_basic_credentials b64_decode t = Some (x, y) \<longleftrightarrow>
      CHR '':'' \<notin> set x \<and> (\<exists>scheme enc. t = scheme @ enc \<and> length scheme = 6 \<and>
        eq_ignore_ascii_case scheme ''Basic '' \<and> b64_decode (trim enc) = Some (x @ '':'' @ y) \<and>
        utf8_valid (x @ '':'' @ y))" for t
  proof -
    have *: "(\<exists>scheme enc. t = scheme @ enc \<and> length scheme = 6 \<and> Q scheme enc) \<longleftrightarrow>
        6 \<le> length t \<and> Q (take 6 t) (drop 6 t)" for Q
    proof
      assume "6 \<le> length t \<and> Q (take 6 t) (drop 6 t)"
      then have "t = take 6 t @ drop 6 t \<and> length (take 6 t) = 6 \<and> Q (take 6 t) (drop 6 t)" by simp
      then show "\<exists>scheme enc. t = scheme @ enc \<and> length scheme = 6 \<and> Q scheme enc" by blast
    qed auto
    show ?thesis
      unfolding * BASIC_def [symmetric]
      by (auto simp: extract_basic_credentials_def split split: option.splits if_splits)
  qed
  then show ?thesis by (auto simp: basic_credential_def presents_basic_def bind_eq_Some_conv)
qed

text \<open>C21: the outcome of the basic backend on every request, with the chain's state untouched.  It
  authenticates, as its fixed identity, exactly the requests that present both configured
  secrets; it refuses, as invalid credentials, those that present another pair; and it defers
  where no user name and password are presented (no header, not text, another scheme, not
  decodable, not UTF-8, no colon).  A configured user name that contains a colon is never
  accepted, because the presented text is split at the first one.\<close>

theorem basic_auth_exact:
  "basic_auth_authenticate b64_decode b h u s =
     (if presents_basic b64_decode h (ba_username b) (ba_password b)
      then Ok (Some \<lparr>id_subject = ba_subject b, id_auth_method = ''basic-auth'', id_display_name = None,
                     id_scopes = {}, id_service_account = ba_service_account b,
                     id_privileged = ba_privileged b, id_attributes = Map.empty\<rparr>)
      else if \<exists>user pass. presents_basic b64_decode h user pass
      then Err (InvalidCredentials ''basic auth credential mismatch'')
      else Ok None, s) \<and>
   \<not> (CHR '':'' \<in> set (ba_username b) \<and> fst (basic_auth_authenticate b64_decode b h u s) = Ok (Some i))"
proof
  let ?p = "presents_basic b64_decode h"
  show out: "basic_auth_authenticate b64_decode b h u s =
     (if ?p (ba_username b) (ba_password b)
      then Ok (Some \<lparr>id_subject = ba_subject b, id_auth_method = ''basic-auth'', id_display_name = None,
                     id_scopes = {}, id_service_account = ba_service_account b,
                     id_privileged = ba_privileged b, id_attributes = Map.empty\<rparr>)
      else if \<exists>user pass. ?p user pass
      then Err (InvalidCredentials ''basic auth credential mismatch'')
      else Ok None, s)"
  proof (cases "basic_credential b64_decode h u")
    case None
    then have "\<not> ?p x y" for x y by (simp flip: basic_credential_iff [where u = u])
    then show ?thesis using None by (simp add: basic_auth_by_credential)
  next
    case (Some c)
    then have "?p x y \<longleftrightarrow> c = (x, y)" for x y by (simp flip: basic_credential_iff [where u = u])
    then show ?thesis
      using Some by (cases c) (simp add: basic_auth_by_credential basic_auth_identity_def identity_new_def
          with_privileged_def with_service_account_def)
  qed
  show "\<not> (CHR '':'' \<in> set (ba_username b) \<and> fst (basic_auth_authenticate b64_decode b h u s) = Ok (Some i))"
    unfolding out by (auto simp: presents_basic_def)
qed

text \<open>what a client sees of an authentication failure depends only on which kind it is, never on
  the text inside, and the status is 401 or 403 for a caller's fault and 500 for the service's.\<close>

theorem auth_error_redacted:
  assumes "auth_error_category e = auth_error_category e'"
  shows "auth_error_response env e = auth_error_response env e' \<and>
    rs_status (auth_error_response env e) =
      (case e of AuthorizationDenied _ \<Rightarrow> 403 | BackendError _ \<Rightarrow> 500 | Configuration _ \<Rightarrow> 500 | _ \<Rightarrow> 401)"
  using assms
  by (cases e; cases e')
    (simp_all add: auth_error_response_def auth_client_message_def quick_error_response_def is_client_error_def)

section \<open>Concrete instances\<close>

lemma auth_error_redacted_witness:
  "auth_error_response demo_env (TokenValidation ''kid=evil'') = auth_error_response demo_env (TokenValidation ''x'') \<and>
   rs_status (auth_error_response demo_env (TokenValidation ''kid=evil'')) = 401"
proof -
  have "auth_error_category (TokenValidation ''kid=evil'') = auth_error_category (TokenValidation ''x'')" by simp
  from auth_error_redacted [OF this, where env = demo_env, unfolded auth_error.case] show ?thesis .
qed

end
