(* ===== verification/Rate_Limit.thy ===== *)
theory Rate_Limit
  imports Errors
begin

text \<open>
  Rate limiting (\<open>rate_limit.rs\<close>): the bounded \<open>RateLimitSubject\<close>, the configuration from the
  environment, the key extractors behind the \<open>RateLimitKey\<close> interface and the middleware.

  The token bucket is the \<open>governor\<close> crate's: \<open>check\<close> charges a key and answers \<open>None\<close> or the
  time to wait.  \<open>ip_text\<close> and \<open>socket_ip_text\<close> are the parsers of \<open>std::net\<close> for an address
  and for an address with a port, composed with the canonical text of the address.
\<close>

section \<open>Subjects\<close>

definition MAX_RATE_LIMIT_SUBJECT_LEN :: nat where "MAX_RATE_LIMIT_SUBJECT_LEN = 256"

definition subject_new :: "string \<Rightarrow> string" where
  "subject_new s =
     (if MAX_RATE_LIMIT_SUBJECT_LEN < length s then
        (let cut = (case find (is_char_boundary s) (rev [0..<Suc MAX_RATE_LIMIT_SUBJECT_LEN]) of
                      Some i \<Rightarrow> i | None \<Rightarrow> 0)
         in take cut s)
      else s)"

section \<open>Configuration\<close>

record rate_limit_config =
  rl_enabled :: bool
  rl_requests_per_minute :: nat
  rl_burst_size :: nat
  rl_exempt_keys :: "string set"

definition rate_limit_config_default :: rate_limit_config where
  "rate_limit_config_default =
     \<lparr>rl_enabled = True, rl_requests_per_minute = 60, rl_burst_size = 10, rl_exempt_keys = {}\<rparr>"

definition parse_enabled :: "string option \<Rightarrow> bool" where
  "parse_enabled raw =
     (case raw of
        None \<Rightarrow> True
      | Some v \<Rightarrow> to_ascii_lowercase (trim v) \<notin> {''false'', ''0'', ''no'', ''off'', ''disabled''})"

definition parse_nonzero_u32 :: "string option \<Rightarrow> nat option" where
  "parse_nonzero_u32 raw =
     (case Option.bind raw (parse_uint u32_max) of
        Some n \<Rightarrow> if n = 0 then None else Some n
      | None \<Rightarrow> None)"

definition rate_limit_from_env :: "(string \<Rightarrow> string option) \<Rightarrow> rate_limit_config" where
  "rate_limit_from_env penv =
     \<lparr>rl_enabled = parse_enabled (penv ''RATE_LIMIT_ENABLED''),
      rl_requests_per_minute = (case parse_nonzero_u32 (penv ''RATE_LIMIT_REQUESTS_PER_MINUTE'') of
        Some n \<Rightarrow> n | None \<Rightarrow> 60),
      rl_burst_size = (case parse_nonzero_u32 (penv ''RATE_LIMIT_BURST_SIZE'') of
        Some n \<Rightarrow> n | None \<Rightarrow> 10),
      rl_exempt_keys = {}\<rparr>"

section \<open>The limiter and its cleanup task\<close>

text \<open>\<open>retain\<close> is the limiter's \<open>retain_recent\<close>, which may panic.\<close>

datatype panic_payload = PanicText string | PanicOther

definition panic_message :: "panic_payload \<Rightarrow> string" where
  "panic_message p = (case p of PanicText m \<Rightarrow> m | PanicOther \<Rightarrow> ''<non-string panic payload>'')"

definition cleanup_pass :: "('s \<Rightarrow> panic_payload option \<times> 's) \<Rightarrow> 's \<times> string list \<Rightarrow> 's \<times> string list" where
  "cleanup_pass retain = (\<lambda>(s, errors).
     case retain s of (None, s) \<Rightarrow> (s, errors) | (Some p, s) \<Rightarrow> (s, errors @ [panic_message p]))"

text \<open>The loop after some ticks; it never ends by itself.\<close>

fun cleanup_loop :: "('s \<Rightarrow> panic_payload option \<times> 's) \<Rightarrow> nat \<Rightarrow> 's \<times> string list \<Rightarrow> 's \<times> string list" where
  "cleanup_loop retain 0 st = st"
| "cleanup_loop retain (Suc ticks) st = cleanup_loop retain ticks (cleanup_pass retain st)"

text \<open>A limiter is shared by its clones, and the task is aborted with the last of them.\<close>

record limiter =
  lm_per_minute :: nat
  lm_burst :: nat
  lm_clones :: nat
  lm_cleanup_running :: bool

definition build_limiter :: "rate_limit_config \<Rightarrow> limiter" where
  "build_limiter c =
     \<lparr>lm_per_minute = rl_requests_per_minute c, lm_burst = rl_burst_size c, lm_clones = 1, lm_cleanup_running = True\<rparr>"

definition limiter_clone :: "limiter \<Rightarrow> limiter" where
  "limiter_clone l = l\<lparr>lm_clones := Suc (lm_clones l)\<rparr>"

definition limiter_drop :: "limiter \<Rightarrow> limiter" where
  "limiter_drop l =
     (if lm_clones l = 1 then l\<lparr>lm_clones := 0, lm_cleanup_running := False\<rparr> else l\<lparr>lm_clones := lm_clones l - 1\<rparr>)"

text \<open>No panic stops the loop: every tick runs a pass.\<close>

lemma cleanup_loop_passes: "fst (cleanup_loop retain ticks (s, errors)) = ((\<lambda>s. snd (retain s)) ^^ ticks) s"
proof (induction ticks arbitrary: s errors)
  case (Suc ticks)
  then show ?case by (cases "retain s"; cases "fst (retain s)") (auto simp: cleanup_pass_def funpow_Suc_right simp del: funpow.simps)
qed simp

section \<open>Keys\<close>

text \<open>What the extractors see of a request: its headers, the subject the auth middleware left
  in the extensions and the text of the socket peer's address.\<close>

record limited_request = request +
  lr_subject :: "string option"
  lr_peer_ip :: "string option"

text \<open>The contract of a key strategy: the key depends on the request only through what the
  service's own infrastructure vouches for, the view \<open>vouched\<close>.\<close>

locale rate_limit_key =
  fixes extract_key :: "limited_request \<Rightarrow> string option"
    and vouched :: "limited_request \<Rightarrow> 'v"
  assumes unspoofable: "vouched rq = vouched rq' \<Longrightarrow> extract_key rq = extract_key rq'"

definition client_id_key :: "'z limited_request_scheme \<Rightarrow> string option" where
  "client_id_key rq = lr_subject rq"

definition ip_address_key :: "limited_request \<Rightarrow> string option" where
  "ip_address_key rq = lr_peer_ip rq"

definition parse_forwarded_ip ::
  "(string \<Rightarrow> string option) \<Rightarrow> (string \<Rightarrow> string option) \<Rightarrow> string \<Rightarrow> string option" where
  "parse_forwarded_ip ip_text socket_ip_text raw =
     (let raw = trim raw in
      case ip_text raw of Some ip \<Rightarrow> Some ip | None \<Rightarrow> socket_ip_text raw)"

definition forwarded_ip_key_new :: "nat \<Rightarrow> nat" where
  "forwarded_ip_key_new trusted_hops = max trusted_hops 1"

text \<open>\<open>ForwardedIpKey::default\<close>: one trusted proxy.\<close>

definition forwarded_ip_key_default :: nat where
  "forwarded_ip_key_default = forwarded_ip_key_new 1"

definition forwarded_entries :: "headers \<Rightarrow> string list" where
  "forwarded_entries h =
     filter (\<lambda>s. s \<noteq> [])
       (map trim (concat (map (split_char (CHR '',''))
         (List.map_filter hv_str (hget_all ''x-forwarded-for'' h)))))"

definition forwarded_ip_key ::
  "(string \<Rightarrow> string option) \<Rightarrow> (string \<Rightarrow> string option) \<Rightarrow> nat \<Rightarrow> limited_request \<Rightarrow> string option" where
  "forwarded_ip_key ip_text socket_ip_text trusted_hops rq =
     (let entries = forwarded_entries (rq_headers rq);
          candidate = (if trusted_hops \<le> length entries
                       then (let idx = length entries - trusted_hops in
                             if idx < length entries then Some (entries ! idx) else None)
                       else None)
      in case Option.bind candidate (parse_forwarded_ip ip_text socket_ip_text) of
           Some ip \<Rightarrow> Some ip
         | None \<Rightarrow> lr_peer_ip rq)"

section \<open>The middleware\<close>

definition retry_after :: "nat \<Rightarrow> nat" where
  "retry_after wait = sat_add64 (wait div 10 ^ 9) 1"

definition too_many_requests :: "error_env \<Rightarrow> nat \<Rightarrow> response" where
  "too_many_requests env wait =
     (let rs = json_response 429
          (ee_render env (error_response_new ''RATE_LIMIT_EXCEEDED'' ''Too many requests'' (correlation_id env)))
      in rs\<lparr>rs_headers := hinsert ''retry-after'' (hv_static (show_nat (retry_after wait))) (rs_headers rs)\<rparr>)"

text \<open>\<open>none\<close> are the extensions of a fresh response.\<close>

definition rate_limit_middleware ::
  "(string \<Rightarrow> 'l \<Rightarrow> nat option \<times> 'l) \<Rightarrow> error_env \<Rightarrow> rate_limit_config \<Rightarrow> ('q \<Rightarrow> string option) \<Rightarrow> 'e \<Rightarrow>
   ('q \<Rightarrow> 'w \<Rightarrow> 'e response_scheme \<times> 'w) \<Rightarrow> 'q \<Rightarrow> 'l \<times> 'w \<Rightarrow> 'e response_scheme \<times> 'l \<times> 'w" where
  "rate_limit_middleware check env config extract_key none next_run rq s =
     (let (l, w) = s;
          pass = (\<lambda>l. let (rs, w) = next_run rq w in (rs, l, w))
      in if \<not> rl_enabled config then pass l
         else case extract_key rq of
           None \<Rightarrow> pass l
         | Some key \<Rightarrow>
             if key \<in> rl_exempt_keys config then pass l
             else (case check key l of
                (None, l) \<Rightarrow> pass l
              | (Some wait, l) \<Rightarrow> (response.extend (too_many_requests env wait) none, l, w)))"

lemma rate_limit_by_key:
  "extract_key rq = extract_key' rq \<Longrightarrow>
   rate_limit_middleware check env config extract_key none next_run rq s =
     rate_limit_middleware check env config extract_key' none next_run rq s"
  by (cases s) (simp add: rate_limit_middleware_def)

context rate_limit_key
begin

text \<open>Two requests with the same vouched view are charged alike: a caller cannot reach another
  bucket, or an exemption, by changing anything else.\<close>

lemma same_bucket:
  assumes "vouched rq = vouched rq'"
  shows "fst (snd (rate_limit_middleware check env config extract_key none next_run rq (l, w))) =
    fst (snd (rate_limit_middleware check env config extract_key none next_run' rq' (l, w)))"
  using unspoofable [OF assms]
  by (auto simp: rate_limit_middleware_def Let_def split: option.splits prod.splits)

end

interpretation client_id: rate_limit_key client_id_key lr_subject
  by standard (simp add: client_id_key_def)

interpretation ip_address: rate_limit_key ip_address_key lr_peer_ip
  by standard (simp add: ip_address_key_def)

text \<open>With \<open>h\<close> trusted proxies, the last \<open>h\<close> entries of the header are theirs.\<close>

definition trusted_view :: "nat \<Rightarrow> limited_request \<Rightarrow> string list \<times> string option" where
  "trusted_view h rq =
     (let es = forwarded_entries (rq_headers rq) in (drop (length es - h) es, lr_peer_ip rq))"

lemma forwarded_ip_key_last:
  assumes "1 \<le> h"
  shows "forwarded_ip_key ip_text socket_ip_text h rq =
    (let (es, peer) = trusted_view h rq in
     case Option.bind (if length es = h then Some (hd es) else None) (parse_forwarded_ip ip_text socket_ip_text) of
       Some ip \<Rightarrow> Some ip | None \<Rightarrow> peer)"
proof -
  define es where "es = forwarded_entries (rq_headers rq)"
  have v: "trusted_view h rq = (drop (length es - h) es, lr_peer_ip rq)"
    by (simp add: trusted_view_def es_def Let_def)
  show ?thesis
  proof (cases "h \<le> length es")
    case True
    then have "length es - h < length es" using assms by simp
    then have "hd (drop (length es - h) es) = es ! (length es - h)" by (rule hd_drop_conv_nth)
    with True \<open>length es - h < length es\<close> show ?thesis
      unfolding v by (simp add: forwarded_ip_key_def Let_def flip: es_def)
  next
    case False
    then show ?thesis unfolding v by (simp add: forwarded_ip_key_def Let_def flip: es_def)
  qed
qed

interpretation forwarded: rate_limit_key
  "forwarded_ip_key ip_text socket_ip_text (forwarded_ip_key_new h)" "trusted_view (forwarded_ip_key_new h)"
  for ip_text socket_ip_text h
proof
  fix rq rq'
  assume "trusted_view (forwarded_ip_key_new h) rq = trusted_view (forwarded_ip_key_new h) rq'"
  moreover have "1 \<le> forwarded_ip_key_new h" by (simp add: forwarded_ip_key_new_def)
  ultimately show "forwarded_ip_key ip_text socket_ip_text (forwarded_ip_key_new h) rq =
      forwarded_ip_key ip_text socket_ip_text (forwarded_ip_key_new h) rq'"
    by (simp only: forwarded_ip_key_last)
qed

text \<open>A header line as the server reads it: \<open>HeaderValue::to_str\<close> gives its text when all bytes are
  printable ASCII or tabs.\<close>

definition to_str_ok :: "string \<Rightarrow> bool" where
  "to_str_ok s \<longleftrightarrow> list_all (\<lambda>c. 32 \<le> byte c \<and> byte c < 127 \<or> byte c = 9) s"

definition header_line :: "string \<Rightarrow> header_value" where
  "header_line s = \<lparr>hv_bytes = s, hv_str = (if to_str_ok s then Some s else None)\<rparr>"

definition address_list :: "string list \<Rightarrow> (nat \<times> string) list \<Rightarrow> string" where
  "address_list forged own = join '','' (forged @ map (\<lambda>(blanks, e). replicate blanks (CHR '' '') @ e) own)"

definition proper_address :: "string \<Rightarrow> bool" where
  "proper_address e \<longleftrightarrow> e \<noteq> [] \<and> trim e = e \<and> CHR '','' \<notin> set e \<and> to_str_ok e"

definition line_entries :: "string \<Rightarrow> string list" where
  "line_entries s = filter (\<lambda>s. s \<noteq> []) (map trim (split_char (CHR '','') s))"

lemma forwarded_entries_lines:
  assumes "hget_all ''x-forwarded-for'' h = map header_line lines"
  shows "forwarded_entries h = concat (map line_entries (filter to_str_ok lines))"
proof -
  have "List.map_filter hv_str (map header_line lines) = filter to_str_ok lines"
    by (induction lines) (auto simp: header_line_def List.map_filter_simps)
  then show ?thesis
    by (simp add: forwarded_entries_def assms filter_concat map_concat comp_def line_entries_def [abs_def])
qed

lemma split_char_join:
  "(\<forall>p \<in> set ps. d \<notin> set p) \<Longrightarrow> ps \<noteq> [] \<Longrightarrow> split_char d (join [d] ps) = ps"
proof (induction ps)
  case (Cons p ps)
  then show ?case by (cases ps) (simp_all add: join_def split_char_single split_char_append_sep)
qed simp

lemma join_append:
  "xs \<noteq> [] \<Longrightarrow> ys \<noteq> [] \<Longrightarrow> join sep (xs @ ys) = join sep xs @ sep @ join sep ys"
  by (cases xs; cases ys) (simp_all add: join_def)

lemma to_str_ok_join: "to_str_ok (join '','' ps) \<longleftrightarrow> list_all to_str_ok ps"
  by (cases ps) (auto simp: join_def to_str_ok_def list_all_iff byte_def)

lemma proper_pieces:
  assumes "list_all (proper_address \<circ> snd) own" and "own \<noteq> []"
  defines "pieces \<equiv> map (\<lambda>(blanks, e). replicate blanks (CHR '' '') @ e) own"
  shows "line_entries (join '','' pieces) = map snd own" and "list_all to_str_ok pieces"
proof -
  have "map trim pieces = map snd own"
    using assms(1) by (auto simp: pieces_def list_all_iff proper_address_def trim_def)
  moreover have "split_char (CHR '','') (join '','' pieces) = pieces"
    using assms by (intro split_char_join) (auto simp: list_all_iff proper_address_def)
  moreover have "filter (\<lambda>s. s \<noteq> []) (map snd own) = map snd own"
    using assms(1) by (auto simp: list_all_iff proper_address_def intro!: filter_True)
  ultimately show "line_entries (join '','' pieces) = map snd own" by (simp add: line_entries_def)
  show "list_all to_str_ok pieces"
    using assms(1) by (fastforce simp: pieces_def list_all_iff proper_address_def to_str_ok_def byte_def)
qed

lemma address_list_entries:
  assumes "list_all (proper_address \<circ> snd) own" and "own \<noteq> []"
  shows "\<exists>before. line_entries (address_list forged own) = before @ map snd own"
    and "to_str_ok (address_list forged own) \<longleftrightarrow> list_all to_str_ok forged"
proof -
  show "\<exists>before. line_entries (address_list forged own) = before @ map snd own"
  proof (cases "forged = []")
    case True
    then show ?thesis using proper_pieces(1) [OF assms] by (simp add: address_list_def)
  next
    case False
    then have "address_list forged own =
        join '','' forged @ '','' @ join '','' (map (\<lambda>(blanks, e). replicate blanks (CHR '' '') @ e) own)"
      unfolding address_list_def using assms(2) by (intro join_append) simp_all
    then have "line_entries (address_list forged own) = line_entries (join '','' forged) @ map snd own"
      using proper_pieces(1) [OF assms] by (simp add: line_entries_def split_char_append_sep)
    then show ?thesis by blast
  qed
  show "to_str_ok (address_list forged own) \<longleftrightarrow> list_all to_str_ok forged"
    using proper_pieces(2) [OF assms] by (simp add: address_list_def to_str_ok_join)
qed

lemma forwarded_ip_key_appended:
  assumes "forwarded_entries (rq_headers rq) = before @ e # es"
  shows "forwarded_ip_key ip_text socket_ip_text (Suc (length es)) rq =
    (case parse_forwarded_ip ip_text socket_ip_text e of Some ip \<Rightarrow> Some ip | None \<Rightarrow> lr_peer_ip rq)"
  using forwarded_ip_key_last [of "Suc (length es)" ip_text socket_ip_text rq]
  by (simp add: trusted_view_def assms Let_def)

section \<open>Properties\<close>

text \<open>a subject is the longest prefix of at most 256 bytes of the given text that ends at a
  character boundary; a shorter text is kept whole.\<close>

theorem subject_bounded:
  "length (subject_new s) \<le> 256 \<and> (\<exists>rest. s = subject_new s @ rest) \<and>
   is_char_boundary s (length (subject_new s)) \<and> (length s \<le> 256 \<longrightarrow> subject_new s = s) \<and>
   (\<forall>i \<le> 256. is_char_boundary s i \<longrightarrow> i \<le> length (subject_new s) \<or> length s < i)"
proof (cases "256 < length s")
  case False
  then show ?thesis
    by (auto simp: subject_new_def MAX_RATE_LIMIT_SUBJECT_LEN_def is_char_boundary_def)
next
  case True
  have zero: "is_char_boundary s 0" by (simp add: is_char_boundary_def)
  define ixs where "ixs = rev [0..<Suc 256]"
  have "find (is_char_boundary s) ixs \<noteq> None"
    unfolding find_None_iff using zero by (simp add: ixs_def del: upt_Suc) (blast intro: zero_less_numeral)
  then obtain cut where cut: "find (is_char_boundary s) ixs = Some cut" by blast
  then obtain k where k: "k < length ixs" "is_char_boundary s (ixs ! k)" "cut = ixs ! k"
    and first: "\<forall>j<k. \<not> is_char_boundary s (ixs ! j)"
    by (auto simp: find_Some_iff)
  have nth: "j < 257 \<Longrightarrow> ixs ! j = 256 - j" for j by (simp add: ixs_def rev_nth del: upt_Suc)
  have len: "length ixs = 257" by (simp add: ixs_def)
  have c: "cut = 256 - k" "k < 257" using k nth len by auto
  have sub: "subject_new s = take cut s"
    using True cut by (simp add: subject_new_def MAX_RATE_LIMIT_SUBJECT_LEN_def ixs_def Let_def)
  have "i \<le> cut" if "i \<le> 256" "is_char_boundary s i" for i
  proof (rule ccontr)
    assume "\<not> i \<le> cut"
    then have "256 - i < k" using that c by simp
    then have "\<not> is_char_boundary s (ixs ! (256 - i))" using first by blast
    moreover have "ixs ! (256 - i) = i" using that nth by simp
    ultimately show False using that by simp
  qed
  moreover have "length (take cut s) = cut" using True c by simp
  ultimately show ?thesis using sub k(2,3) c True by (auto intro: append_take_drop_id [symmetric])
qed

text \<open>C36: behind \<open>h\<close> trusted proxies, whose addresses \<open>own\<close> are the last \<open>h\<close> entries of the last
  \<open>X-Forwarded-For\<close> line, with blanks before them, the middleware works as with one fixed key: the first of those
  addresses, parsed as an address or as an address with a port, and the socket peer when it is
  neither.  What stands before them on the line (\<open>forged\<close>, also with commas) and on earlier lines cannot change it,
  as long as it is printable.  A byte that is not makes the server drop the whole line, the proxies'
  addresses included: then the key is the one of the earlier lines, which may all be the caller's.\<close>

theorem forwarded_key_unspoofable:
  assumes lines: "hget_all ''x-forwarded-for'' (rq_headers rq) = map header_line (lines @ [address_list forged own])"
    and own: "list_all (proper_address \<circ> snd) own" "own \<noteq> []"
  shows "let trusted = forwarded_ip_key ip_text socket_ip_text (forwarded_ip_key_new (length own));
      first = snd (hd own);
      key = (case ip_text first of Some ip \<Rightarrow> Some ip
        | None \<Rightarrow> (case socket_ip_text first of Some ip \<Rightarrow> Some ip | None \<Rightarrow> lr_peer_ip rq));
      earlier = rq\<lparr>rq_headers := map (\<lambda>s. (''x-forwarded-for'', header_line s)) lines\<rparr>
    in if list_all to_str_ok forged
       then rate_limit_middleware check env config trusted none next_run rq s =
         rate_limit_middleware check env config (\<lambda>_. key) none next_run rq s
       else trusted rq = trusted earlier"
proof -
  obtain n e es where es: "own = (n, e) # es" using own(2) by (cases own) auto
  have hops: "forwarded_ip_key_new (length own) = Suc (length (map snd es))"
    by (simp add: forwarded_ip_key_new_def es)
  note entries = forwarded_entries_lines [OF lines]
  show ?thesis
  proof (cases "list_all to_str_ok forged")
    case True
    obtain before where "line_entries (address_list forged own) = before @ e # map snd es"
      using address_list_entries(1) [OF own, of forged] by (auto simp: es)
    then have "forwarded_entries (rq_headers rq) =
        (concat (map line_entries (filter to_str_ok lines)) @ before) @ e # map snd es"
      using True address_list_entries(2) [OF own] by (simp add: entries)
    from forwarded_ip_key_appended [OF this]
    have key: "forwarded_ip_key ip_text socket_ip_text (forwarded_ip_key_new (length own)) rq =
        (case ip_text e of Some ip \<Rightarrow> Some ip
         | None \<Rightarrow> (case socket_ip_text e of Some ip \<Rightarrow> Some ip | None \<Rightarrow> lr_peer_ip rq))"
      using own(1) unfolding hops by (simp add: parse_forwarded_ip_def Let_def es proper_address_def split: option.split)
    have "list_all to_str_ok forged" by (rule True)
    then show ?thesis
      unfolding Let_def by (simp only: if_True) (rule rate_limit_by_key, simp only: key, simp add: es cong: option.case_cong)
  next
    case False
    have "hget_all ''x-forwarded-for'' (map (\<lambda>s. (''x-forwarded-for'', header_line s)) lines) = map header_line lines"
      by (simp add: hget_all_def filter_map comp_def)
    moreover have "lr_peer_ip (rq\<lparr>rq_headers := hs\<rparr>) = lr_peer_ip rq" for hs by (cases rq) simp
    ultimately show ?thesis
      using forwarded_entries_lines False address_list_entries(2) [OF own]
      by (simp add: forwarded_ip_key_def entries Let_def cong: option.case_cong)
  qed
qed

text \<open>One unprintable byte before the comma of the proxy's line, and an address of the caller's choice on
  an earlier one: the caller has chosen the bucket.\<close>

lemma forwarded_key_spoofed:
  assumes "hget_all ''x-forwarded-for'' (rq_headers rq) = map header_line [chosen, forged @ '', 203.0.113.9'']"
    and "proper_address chosen" and "\<not> to_str_ok forged" and "ip_text chosen = Some ip"
  shows "forwarded_ip_key ip_text socket_ip_text (forwarded_ip_key_new 1) rq = Some ip"
proof -
  have "\<not> to_str_ok (forged @ '', 203.0.113.9'')" using assms(3) by (simp add: to_str_ok_def)
  then have "forwarded_entries (rq_headers rq) = [] @ chosen # []"
    using assms(2) by (simp add: forwarded_entries_lines [OF assms(1)] line_entries_def proper_address_def split_char_single)
  from forwarded_ip_key_appended [OF this] show ?thesis
    using assms(2,4) by (simp add: forwarded_ip_key_new_def parse_forwarded_ip_def proper_address_def)
qed

text \<open>the middleware either runs the handler once and hands its response on, or answers 429
  with a positive \<open>Retry-After\<close> without running it; it refuses only an enabled, keyed,
  non-exempt request that the limiter refuses, and charges nobody else.\<close>

theorem rate_limit_middleware_outcomes:
  "rate_limit_middleware check env config extract_key none next_run rq (l, w) =
     (if rl_enabled config \<and> (\<exists>k. extract_key rq = Some k \<and> k \<notin> rl_exempt_keys config) then
        (case check (the (extract_key rq)) l of
           (None, l') \<Rightarrow> (fst (next_run rq w), l', snd (next_run rq w))
         | (Some wait, l') \<Rightarrow> (response.extend (too_many_requests env wait) none, l', w))
      else (fst (next_run rq w), l, snd (next_run rq w))) \<and>
   rs_status (too_many_requests env wait) = 429 \<and>
   hget ''retry-after'' (rs_headers (too_many_requests env wait)) = Some (hv_static (show_nat (retry_after wait))) \<and>
   1 \<le> retry_after wait"
  by (auto simp: rate_limit_middleware_def too_many_requests_def json_response_def retry_after_def
      sat_add64_def u64_max_def Let_def split: option.splits prod.splits)

text \<open>the configuration read from the environment always has a positive rate and burst within
  \<open>u32\<close>, and rate limiting is on unless the variable says one of the five words, in any case
  and with blanks around.\<close>

theorem rate_limit_from_env_valid:
  "(let c = rate_limit_from_env penv in
     1 \<le> rl_requests_per_minute c \<and> rl_requests_per_minute c \<le> u32_max \<and>
     1 \<le> rl_burst_size c \<and> rl_burst_size c \<le> u32_max \<and>
     (rl_enabled c \<longleftrightarrow> (\<forall>v. penv ''RATE_LIMIT_ENABLED'' = Some v \<longrightarrow>
       to_ascii_lowercase (trim v) \<notin> {''false'', ''0'', ''no'', ''off'', ''disabled''})))"
  by (auto simp: rate_limit_from_env_def parse_nonzero_u32_def parse_enabled_def Let_def u32_max_def
      Suc_le_eq Option.bind_eq_Some_conv dest: parse_uint_bound split: option.splits if_splits)

section \<open>Concrete instances\<close>

text \<open>A request through one proxy: the caller's lines, then the line the proxy appended to.\<close>

definition forwarded_request :: "string list \<Rightarrow> limited_request" where
  "forwarded_request lines = \<lparr>rq_method = ''GET'', rq_path = ''/'', rq_path_and_query = None,
     rq_headers = map (\<lambda>s. (''x-forwarded-for'', header_line s)) lines,
     lr_subject = None, lr_peer_ip = Some ''10.0.0.1''\<rparr>"

lemma forwarded_request_lines:
  "hget_all ''x-forwarded-for'' (rq_headers (forwarded_request lines)) = map header_line lines"
  by (simp add: forwarded_request_def hget_all_def filter_map comp_def)

lemma forwarded_key_unspoofable_witness:
  "rate_limit_middleware (\<lambda>k l. (None, k # l)) demo_env rate_limit_config_default
      (forwarded_ip_key Some (\<lambda>_. None) (forwarded_ip_key_new 1)) () (\<lambda>rq w. (json_response 200 [], w))
      (forwarded_request [''6.6.6.6'', ''1.2.3.4, 203.0.113.9'']) ([], ()) =
   (json_response 200 [], [''203.0.113.9''], ())"
proof -
  have line: "''1.2.3.4, 203.0.113.9'' = address_list [''1.2.3.4''] [(1, ''203.0.113.9'')]"
    by (simp add: address_list_def join_def)
  have lines: "hget_all ''x-forwarded-for'' (rq_headers (forwarded_request [''6.6.6.6'', ''1.2.3.4, 203.0.113.9''])) =
      map header_line ([''6.6.6.6''] @ [address_list [''1.2.3.4''] [(1, ''203.0.113.9'')]])"
    unfolding line [symmetric] forwarded_request_lines by simp
  have own: "list_all (proper_address \<circ> snd) [(1, ''203.0.113.9'')]" and ok: "list_all to_str_ok [''1.2.3.4'']"
    by code_simp+
  show ?thesis
    using forwarded_key_unspoofable [OF lines own, where check = "\<lambda>k l. (None, k # l)" and env = demo_env
        and config = rate_limit_config_default and ip_text = Some and socket_ip_text = "\<lambda>_. None" and none = "()"
        and next_run = "\<lambda>rq w. (json_response 200 [], w)" and s = "([], ())"] ok
    by (simp add: Let_def rate_limit_middleware_def rate_limit_config_default_def)
qed

lemma forwarded_key_spoofed_instance:
  "forwarded_ip_key Some (\<lambda>_. None) (forwarded_ip_key_new 1)
     (forwarded_request [''6.6.6.6'', [CHR 0xFF] @ '', 203.0.113.9'']) = Some ''6.6.6.6''"
proof (rule forwarded_key_spoofed [OF forwarded_request_lines])
  show "proper_address ''6.6.6.6''" and "\<not> to_str_ok [CHR 0xFF]" by code_simp+
qed simp

lemma subject_bounded_witness:
  "subject_new ''alice'' = ''alice'' \<and> subject_new (replicate 300 (CHR ''a'')) = replicate 256 (CHR ''a'')"
proof
  show "subject_new ''alice'' = ''alice''" using subject_bounded [of "''alice''"] by simp
  have b: "is_char_boundary (replicate 300 (CHR ''a'')) 256"
    by (simp add: is_char_boundary_def is_cont_def byte_def)
  have l: "length (subject_new (replicate 300 (CHR ''a''))) = 256"
    using subject_bounded [of "replicate 300 (CHR ''a'')"] b by (auto simp del: replicate.simps)
  obtain r where "replicate 300 (CHR ''a'') = subject_new (replicate 300 (CHR ''a'')) @ r"
    using subject_bounded [of "replicate 300 (CHR ''a'')"] by blast
  then have "subject_new (replicate 300 (CHR ''a'')) = take 256 (replicate 300 (CHR ''a''))"
    using l by (metis append_eq_conv_conj)
  then show "subject_new (replicate 300 (CHR ''a'')) = replicate 256 (CHR ''a'')"
    by (simp only: take_replicate) simp
qed

lemma rate_limit_from_env_valid_witness:
  "\<not> rl_enabled (rate_limit_from_env [''RATE_LIMIT_ENABLED'' \<mapsto> '' OFF '']) \<and>
   rl_requests_per_minute (rate_limit_from_env [''RATE_LIMIT_ENABLED'' \<mapsto> '' OFF '']) = 60"
proof
  have "to_ascii_lowercase (trim '' OFF '') = ''off''" by code_simp
  then show "\<not> rl_enabled (rate_limit_from_env [''RATE_LIMIT_ENABLED'' \<mapsto> '' OFF ''])"
    using rate_limit_from_env_valid [of "[''RATE_LIMIT_ENABLED'' \<mapsto> '' OFF '']"] by (simp add: Let_def)
  show "rl_requests_per_minute (rate_limit_from_env [''RATE_LIMIT_ENABLED'' \<mapsto> '' OFF '']) = 60"
    by (simp add: rate_limit_from_env_def parse_nonzero_u32_def)
qed

end
