(* ===== verification/Logging.thy ===== *)
theory Logging
  imports Http
begin

text \<open>
  Request ids and the root span of a request (\<open>observability/request_id.rs\<close>,
  \<open>observability/logging.rs\<close>): the auth summary and its set-once cell, the validation of
  incoming request ids and the logging middleware.

  The rest of the stack is a function of the request id it is scoped to (the request extension
  and the task-local have the same value), the request and the logging cell, which it returns;
  \<open>uuid_new\<close> is the id generated for this request and \<open>elapsed_ms\<close> the clock's answer.
\<close>

record auth_summary =
  as_client_id :: string
  as_client_ip :: string
  as_user_id :: string
  as_auth_method :: string
  as_auth_result :: string
  as_privileged :: bool

definition auth_summary_default :: auth_summary where
  "auth_summary_default =
     \<lparr>as_client_id = [], as_client_ip = [], as_user_id = [], as_auth_method = [], as_auth_result = [],
      as_privileged = False\<rparr>"

text \<open>\<open>AuthSummaryBuilder\<close> starts from the default; each setter replaces one member.\<close>

definition summary_builder :: auth_summary where
  "summary_builder = auth_summary_default"

definition summary_client_id :: "string \<Rightarrow> auth_summary \<Rightarrow> auth_summary" where
  "summary_client_id v b = b\<lparr>as_client_id := v\<rparr>"

definition summary_client_ip :: "string \<Rightarrow> auth_summary \<Rightarrow> auth_summary" where
  "summary_client_ip v b = b\<lparr>as_client_ip := v\<rparr>"

definition summary_user_id :: "string \<Rightarrow> auth_summary \<Rightarrow> auth_summary" where
  "summary_user_id v b = b\<lparr>as_user_id := v\<rparr>"

definition summary_auth_method :: "string \<Rightarrow> auth_summary \<Rightarrow> auth_summary" where
  "summary_auth_method v b = b\<lparr>as_auth_method := v\<rparr>"

definition summary_auth_result :: "string \<Rightarrow> auth_summary \<Rightarrow> auth_summary" where
  "summary_auth_result v b = b\<lparr>as_auth_result := v\<rparr>"

definition summary_privileged :: "bool \<Rightarrow> auth_summary \<Rightarrow> auth_summary" where
  "summary_privileged v b = b\<lparr>as_privileged := v\<rparr>"

lemmas summary_setters =
  summary_builder_def summary_client_id_def summary_client_ip_def summary_user_id_def
  summary_auth_method_def summary_auth_result_def summary_privileged_def auth_summary_default_def

text \<open>\<open>OnceLock\<close>: the first \<open>set\<close> wins.\<close>

type_synonym logging_context = "auth_summary option"

definition logging_context_new :: logging_context where
  "logging_context_new = None"

definition logging_context_set :: "auth_summary \<Rightarrow> logging_context \<Rightarrow> logging_context" where
  "logging_context_set s c = (case c of None \<Rightarrow> Some s | Some _ \<Rightarrow> c)"

definition logging_context_get :: "logging_context \<Rightarrow> auth_summary option" where
  "logging_context_get c = c"

definition MAX_REQUEST_ID_LEN :: nat where "MAX_REQUEST_ID_LEN = 128"

definition is_valid_request_id :: "string \<Rightarrow> bool" where
  "is_valid_request_id s \<longleftrightarrow>
     s \<noteq> [] \<and> length s \<le> MAX_REQUEST_ID_LEN \<and>
     list_all (\<lambda>b. is_ascii_alphanumeric b \<or> b = CHR ''.'' \<or> b = CHR ''_'' \<or> b = CHR ''-'') s"

definition get_or_generate_request_id :: "string \<Rightarrow> headers \<Rightarrow> string" where
  "get_or_generate_request_id uuid_new h =
     (case hget_str ''x-request-id'' h of
        Some s \<Rightarrow> if is_valid_request_id s then s else uuid_new
      | None \<Rightarrow> uuid_new)"

definition detect_env :: "(string \<Rightarrow> string option) \<Rightarrow> string" where
  "detect_env penv =
     (case penv ''GASKET_ENV'' of
        Some e \<Rightarrow> e
      | None \<Rightarrow> (case penv ''DEPLOYMENT_ENV'' of Some e \<Rightarrow> e | None \<Rightarrow> ''local''))"

record request_span =
  sp_request_id :: string
  sp_method :: string
  sp_path :: string
  sp_matched_path :: string
  sp_auth :: "auth_summary option"
  sp_status :: nat
  sp_duration_ms :: nat
  sp_env :: string
  sp_user_agent :: string

text \<open>\<open>HeaderValue::from_str\<close>: visible ASCII, blanks and tabs.\<close>

definition header_from_str :: "string \<Rightarrow> header_value option" where
  "header_from_str s =
     (if list_all (\<lambda>c. 32 \<le> byte c \<and> byte c < 127 \<or> byte c = 9) s then Some (hv_static s) else None)"

definition logging_middleware ::
  "string \<Rightarrow> string \<Rightarrow> string option \<Rightarrow> nat \<Rightarrow>
   (string \<Rightarrow> 'z request_scheme \<Rightarrow> logging_context \<Rightarrow> 'w \<Rightarrow> 'r response_scheme \<times> logging_context \<times> 'w) \<Rightarrow>
   'z request_scheme \<Rightarrow> 'w \<Rightarrow> 'r response_scheme \<times> request_span \<times> 'w" where
  "logging_middleware uuid_new env_name matched elapsed_ms next_run rq w =
     (let request_id = get_or_generate_request_id uuid_new (rq_headers rq);
          user_agent = (case hget_str ''user-agent'' (rq_headers rq) of Some a \<Rightarrow> a | None \<Rightarrow> []);
          (rs, ctx, w) = next_run request_id rq logging_context_new w;
          rs = (case header_from_str request_id of
                  Some v \<Rightarrow> rs\<lparr>rs_headers := hinsert ''x-request-id'' v (rs_headers rs)\<rparr>
                | None \<Rightarrow> rs);
          span = \<lparr>sp_request_id = request_id, sp_method = rq_method rq, sp_path = rq_path rq,
            sp_matched_path = (case matched of Some m \<Rightarrow> m | None \<Rightarrow> ''unknown''),
            sp_auth = logging_context_get ctx, sp_status = rs_status rs, sp_duration_ms = min elapsed_ms u64_max,
            sp_env = env_name, sp_user_agent = user_agent\<rparr>
      in (rs, span, w))"

section \<open>Properties\<close>

lemma logging_context_set_once [simp]:
  "logging_context_set s (logging_context_set t c) = logging_context_set t c"
  by (simp add: logging_context_set_def split: option.splits)

lemma valid_id_char:
  "is_ascii_alphanumeric b \<or> b = CHR ''.'' \<or> b = CHR ''_'' \<or> b = CHR ''-'' \<Longrightarrow> 32 \<le> byte b \<and> byte b < 127"
  by (auto simp: byte_class) (auto simp: byte_def)

lemma header_from_valid_id: "is_valid_request_id s \<Longrightarrow> header_from_str s = Some (hv_static s)"
  unfolding is_valid_request_id_def header_from_str_def
  using valid_id_char by (auto simp: list_all_iff)

lemma get_or_generate_valid:
  "is_valid_request_id uuid_new \<Longrightarrow> is_valid_request_id (get_or_generate_request_id uuid_new h)"
  by (auto simp: get_or_generate_request_id_def split: option.splits)

text \<open>every request has one id of at most 128 safe characters: the caller's when it is such, else a
  generated one; the handlers run under it, the span carries it, and the response returns it in its
  only \<open>X-Request-ID\<close> header, whatever they put there.\<close>

theorem request_id_echoed:
  assumes "is_valid_request_id uuid_new"
    and "rid = (case hget_str ''x-request-id'' (rq_headers rq) of
        Some s \<Rightarrow> if is_valid_request_id s then s else uuid_new | None \<Rightarrow> uuid_new)"
    and "next_run rid rq None w = (rs0, ctx, w')"
  shows "\<exists>rs span. logging_middleware uuid_new env_name matched elapsed_ms next_run rq w = (rs, span, w') \<and>
    is_valid_request_id rid \<and> hget_all ''x-request-id'' (rs_headers rs) = [hv_static rid] \<and>
    rs_status rs = rs_status rs0 \<and> rs_body rs = rs_body rs0 \<and>
    sp_request_id span = rid \<and> sp_auth span = ctx \<and> sp_status span = rs_status rs0"
proof -
  have rid: "get_or_generate_request_id uuid_new (rq_headers rq) = rid"
    by (simp add: assms(2) get_or_generate_request_id_def)
  then have valid: "is_valid_request_id rid" using get_or_generate_valid [OF assms(1)] by metis
  show ?thesis
    using valid by (simp add: logging_middleware_def logging_context_new_def logging_context_get_def rid assms(3)
        header_from_valid_id [OF valid] Let_def)
qed

section \<open>Concrete instances\<close>

definition plain_request :: "headers \<Rightarrow> request" where
  "plain_request h = \<lparr>rq_method = ''GET'', rq_path = ''/'', rq_path_and_query = None, rq_headers = h\<rparr>"

definition echo_id :: "string \<Rightarrow> request \<Rightarrow> logging_context \<Rightarrow> unit \<Rightarrow> response \<times> logging_context \<times> unit" where
  "echo_id rid rq c w = (\<lparr>rs_status = 200, rs_headers = [], rs_body = Some rid\<rparr>, c, w)"

lemma request_id_echoed_witness:
  "\<exists>rs span. logging_middleware ''fresh-1'' ''local'' None 3 echo_id
      (plain_request [(''x-request-id'', hv_static ''a b'')]) () = (rs, span, ()) \<and>
    rs_body rs = Some ''fresh-1'' \<and> hget_all ''x-request-id'' (rs_headers rs) = [hv_static ''fresh-1'']"
proof -
  let ?rq = "plain_request [(''x-request-id'', hv_static ''a b'')]"
  have valid: "is_valid_request_id ''fresh-1''" by code_simp
  have rid: "''fresh-1'' = (case hget_str ''x-request-id'' (rq_headers ?rq) of
      Some s \<Rightarrow> if is_valid_request_id s then s else ''fresh-1'' | None \<Rightarrow> ''fresh-1'')"
    by code_simp
  have run: "echo_id ''fresh-1'' ?rq None () =
      (\<lparr>rs_status = 200, rs_headers = [], rs_body = Some ''fresh-1''\<rparr>, None, ())"
    by (simp add: echo_id_def)
  from request_id_echoed [where next_run = echo_id and w = "()" and env_name = "''local''" and matched = None
      and elapsed_ms = 3, OF valid rid run]
  show ?thesis by auto
qed

end
