(* ===== verification/Auth_Middleware.thy ===== *)
theory Auth_Middleware
  imports Auth_Core Rate_Limit Logging
begin

text \<open>
  The auth middleware and what handlers see of it (\<open>auth/middleware.rs\<close>, \<open>auth/context.rs\<close>,
  \<open>auth/audit.rs\<close>, \<open>auth/extractors.rs\<close>, \<open>auth/policy.rs\<close>).

  The extensions a request carries are fields of the record \<open>auth_request\<close>; the middleware
  threads the backends' state, the audit log, the logging cell and the rest of the service's
  state.  The rest of the stack is the argument \<open>next_run\<close>.
\<close>

section \<open>Context\<close>

definition MAX_FAILED_REASON_LEN :: nat where "MAX_FAILED_REASON_LEN = 512"

text \<open>\<open>char::is_control\<close>: U+0000 to U+001F and U+007F to U+009F, on the UTF-8 bytes of one
  scalar value.\<close>

fun is_control_char :: "string \<Rightarrow> bool" where
  "is_control_char [a] \<longleftrightarrow> byte a < 32 \<or> byte a = 127"
| "is_control_char [a, b] \<longleftrightarrow> byte a = 194 \<and> 128 \<le> byte b \<and> byte b < 160"
| "is_control_char _ \<longleftrightarrow> False"

fun sanitize_chars :: "string \<Rightarrow> string list \<Rightarrow> string" where
  "sanitize_chars acc [] = acc"
| "sanitize_chars acc (ch # cs) =
     (if MAX_FAILED_REASON_LEN < length acc + length ch then acc
      else sanitize_chars (if is_control_char ch then acc else acc @ ch) cs)"

definition failed_reason_new :: "string \<Rightarrow> string" where
  "failed_reason_new raw =
     (case utf8_chars raw of Some cs \<Rightarrow> sanitize_chars [] cs | None \<Rightarrow> [])"

datatype auth_result = AuthOk string | Anonymous | Failed string

fun auth_result_category :: "auth_result \<Rightarrow> string" where
  "auth_result_category (AuthOk _) = ''authenticated''"
| "auth_result_category Anonymous = ''anonymous''"
| "auth_result_category (Failed _) = ''failed''"

fun failure_reason :: "auth_result \<Rightarrow> string option" where
  "failure_reason (Failed r) = Some r"
| "failure_reason _ = None"

fun auth_result_text :: "auth_result \<Rightarrow> string" where
  "auth_result_text (AuthOk m) = ''authenticated:'' @ m"
| "auth_result_text Anonymous = ''anonymous''"
| "auth_result_text (Failed _) = ''failed''"

record 'x auth_context =
  ctx_identity :: "'x identity option"
  ctx_client_ip :: string
  ctx_request_id :: string
  ctx_auth_result :: auth_result

section \<open>Audit events\<close>

datatype audit_outcome = AuditSuccess | AuditAnonymous | AuditDenied string | AuditError string

record audit_event =
  ev_request_id :: string
  ev_client_ip :: string
  ev_auth_method :: "string option"
  ev_subject :: "string option"
  ev_outcome :: audit_outcome

definition audit_event_new :: "string \<Rightarrow> string \<Rightarrow> audit_outcome \<Rightarrow> audit_event" where
  "audit_event_new request_id client_ip outcome =
     \<lparr>ev_request_id = request_id, ev_client_ip = client_ip, ev_auth_method = None, ev_subject = None,
      ev_outcome = outcome\<rparr>"

definition with_auth_method :: "string \<Rightarrow> audit_event \<Rightarrow> audit_event" where
  "with_auth_method x ev = ev\<lparr>ev_auth_method := Some x\<rparr>"

definition with_subject :: "string \<Rightarrow> audit_event \<Rightarrow> audit_event" where
  "with_subject x b = b\<lparr>ev_subject := Some x\<rparr>"

text \<open>The line \<open>TracingAuditLogger\<close> writes: its level, fields and message.\<close>

datatype tracing_level = LevelError | LevelWarn | LevelInfo | LevelDebug
datatype field_value = FieldText string | FieldOption "string option"

definition tracing_audit_line :: "audit_event \<Rightarrow> tracing_level \<times> (string \<times> field_value) list \<times> string" where
  "tracing_audit_line ev =
     (let ids = [(''request_id'', FieldText (ev_request_id ev)), (''client_ip'', FieldText (ev_client_ip ev))];
          who = [(''auth_method'', FieldOption (ev_auth_method ev)), (''subject'', FieldOption (ev_subject ev))]
      in case ev_outcome ev of
           AuditSuccess \<Rightarrow> (LevelInfo, ids @ who, ''auth.success'')
         | AuditAnonymous \<Rightarrow> (LevelDebug, ids, ''auth.anonymous'')
         | AuditDenied reason \<Rightarrow> (LevelWarn, ids @ who @ [(''reason'', FieldText reason)], ''auth.denied'')
         | AuditError e \<Rightarrow> (LevelError, ids @ [(''error'', FieldText e)], ''auth.error''))"

section \<open>The middleware\<close>

record 'x auth_request = limited_request +
  ar_query :: "string option"
  ar_request_id :: "string option"
  ar_logging :: bool
  ar_context :: "'x auth_context option"

record 'x auth_response = response +
  ars_context :: "'x auth_context option"

record ('s, 'w) auth_world =
  aw_backends :: 's
  aw_audit :: "audit_event list"
  aw_logging :: logging_context
  aw_rest :: 'w

record ('s, 'x) auth_state =
  am_chain :: "('s, 'x) auth_chain"
  am_audit_logger :: bool

definition auth_state_new :: "('s, 'x) auth_chain \<Rightarrow> ('s, 'x) auth_state" where
  "auth_state_new c = \<lparr>am_chain = c, am_audit_logger = False\<rparr>"

definition with_audit_logger :: "('s, 'x) auth_state \<Rightarrow> ('s, 'x) auth_state" where
  "with_audit_logger a = a\<lparr>am_audit_logger := True\<rparr>"

definition log_auth_event :: "bool \<Rightarrow> audit_event \<Rightarrow> ('s, 'w) auth_world \<Rightarrow> ('s, 'w) auth_world" where
  "log_auth_event audit ev w = (if audit then w\<lparr>aw_audit := aw_audit w @ [ev]\<rparr> else w)"

definition nonempty_trim :: "string option \<Rightarrow> string option" where
  "nonempty_trim v = Option.bind v (\<lambda>s. if trim s = [] then None else Some (trim s))"

definition extract_client_ip :: "'z limited_request_scheme \<Rightarrow> string" where
  "extract_client_ip rq =
     (case nonempty_trim (hget_str ''x-real-ip'' (rq_headers rq)) of
        Some ip \<Rightarrow> ip
      | None \<Rightarrow>
          (case nonempty_trim (map_option (\<lambda>v. hd (split_char (CHR '','') v)) (hget_str ''x-forwarded-for'' (rq_headers rq))) of
             Some ip \<Rightarrow> ip
           | None \<Rightarrow> (case lr_peer_ip rq of Some ip \<Rightarrow> ip | None \<Rightarrow> ''unknown'')))"

definition populate_logging_context ::
  "'x auth_request \<Rightarrow> auth_summary \<Rightarrow> ('s, 'w) auth_world \<Rightarrow> ('s, 'w) auth_world" where
  "populate_logging_context rq summary w =
     (if ar_logging rq then w\<lparr>aw_logging := logging_context_set summary (aw_logging w)\<rparr> else w)"

definition audit_success_or_anonymous ::
  "bool \<Rightarrow> string \<Rightarrow> string \<Rightarrow> 'x identity option \<Rightarrow> ('s, 'w) auth_world \<Rightarrow> ('s, 'w) auth_world" where
  "audit_success_or_anonymous audit request_id client_ip identity w =
     (if \<not> audit then w
      else let ev = (case identity of
             Some i \<Rightarrow> \<lparr>ev_request_id = request_id, ev_client_ip = client_ip,
               ev_auth_method = Some (id_auth_method i), ev_subject = Some (id_subject i), ev_outcome = AuditSuccess\<rparr>
           | None \<Rightarrow> \<lparr>ev_request_id = request_id, ev_client_ip = client_ip, ev_auth_method = None,
               ev_subject = None, ev_outcome = AuditAnonymous\<rparr>)
      in log_auth_event True ev w)"

definition build_success_summary :: "string \<Rightarrow> 'x identity option \<Rightarrow> auth_summary" where
  "build_success_summary client_ip identity =
     (case identity of
        Some i \<Rightarrow>
          (summary_privileged (id_privileged i) \<circ> summary_auth_result (''authenticated:'' @ id_auth_method i) \<circ>
           summary_auth_method (id_auth_method i) \<circ> summary_user_id (id_subject i) \<circ>
           summary_client_ip client_ip \<circ> summary_client_id (id_subject i)) summary_builder
      | None \<Rightarrow>
          (summary_auth_result ''anonymous'' \<circ> summary_auth_method ''none'' \<circ> summary_user_id ''anonymous'' \<circ>
           summary_client_ip client_ip) summary_builder)"

definition handle_auth_failure ::
  "error_env \<Rightarrow> bool \<Rightarrow> 'x auth_request \<Rightarrow> string \<Rightarrow> string \<Rightarrow> auth_error \<Rightarrow> ('s, 'w) auth_world \<Rightarrow>
   'x auth_response \<times> ('s, 'w) auth_world" where
  "handle_auth_failure env audit rq request_id client_ip err w =
     (let reason = auth_error_text err;
          category = auth_error_category err;
          outcome = (case err of
              BackendError _ \<Rightarrow> AuditError reason
            | Configuration _ \<Rightarrow> AuditError reason
            | _ \<Rightarrow> AuditDenied reason);
          w = log_auth_event audit \<lparr>ev_request_id = request_id, ev_client_ip = client_ip,
                ev_auth_method = None, ev_subject = None, ev_outcome = outcome\<rparr> w;
          w = populate_logging_context rq 
                ((summary_auth_result (''failed:'' @ category) \<circ> summary_auth_method ''unknown'' \<circ>
                  summary_user_id ''unknown'' \<circ> summary_client_ip client_ip) summary_builder) w;
          ctx = \<lparr>ctx_identity = None, ctx_client_ip = client_ip, ctx_request_id = request_id,
                ctx_auth_result = Failed (failed_reason_new reason)\<rparr>
      in (response.extend (auth_error_response env err) \<lparr>ars_context = Some ctx\<rparr>, w))"

definition request_uri :: "'x auth_request \<Rightarrow> uri" where
  "request_uri rq = \<lparr>uri_path = rq_path rq, uri_query = ar_query rq\<rparr>"

definition auth_middleware ::
  "error_env \<Rightarrow> ('s, 'x) auth_state \<Rightarrow>
   ('x auth_request \<Rightarrow> ('s, 'w) auth_world \<Rightarrow> 'x auth_response \<times> ('s, 'w) auth_world) \<Rightarrow>
   'x auth_request \<Rightarrow> ('s, 'w) auth_world \<Rightarrow> 'x auth_response \<times> ('s, 'w) auth_world" where
  "auth_middleware env st next_run rq w =
     (let request_id = (case ar_request_id rq of Some r \<Rightarrow> r | None \<Rightarrow> []);
          client_ip = extract_client_ip rq;
          (r, s) = chain_authenticate (am_chain st) (rq_headers rq) (request_uri rq) (aw_backends w);
          w = w\<lparr>aw_backends := s\<rparr>
      in case r of
           Err e \<Rightarrow> handle_auth_failure env (am_audit_logger st) rq request_id client_ip e w
         | Ok identity \<Rightarrow>
             (let w = audit_success_or_anonymous (am_audit_logger st) request_id client_ip identity w;
                  w = populate_logging_context rq (build_success_summary client_ip identity) w;
                  rq = (case identity of
                      Some i \<Rightarrow> rq\<lparr>lr_subject := Some (subject_new (id_subject i))\<rparr>
                    | None \<Rightarrow> rq);
                  auth_result = (case identity of Some i \<Rightarrow> AuthOk (id_auth_method i) | None \<Rightarrow> Anonymous);
                  rq = rq\<lparr>ar_context := Some \<lparr>ctx_identity = identity, ctx_client_ip = client_ip,
                    ctx_request_id = request_id, ctx_auth_result = auth_result\<rparr>\<rparr>
              in next_run rq w))"

section \<open>Extractors\<close>

definition auth_required :: "error_env \<Rightarrow> response" where
  "auth_required env = quick_error_response env 401 ''AUTHENTICATION_REQUIRED''
     ''Missing or invalid credentials. Authentication is required for this endpoint.''"

definition authorization_required :: "error_env \<Rightarrow> string \<Rightarrow> string \<Rightarrow> response" where
  "authorization_required env code message = quick_error_response env 403 code message"

definition authenticated :: "error_env \<Rightarrow> 'x auth_context option \<Rightarrow> (response, 'x identity) result" where
  "authenticated env ctx =
     (case Option.bind ctx ctx_identity of Some i \<Rightarrow> Ok i | None \<Rightarrow> Err (auth_required env))"

definition optional_identity :: "'x auth_context option \<Rightarrow> 'x identity option" where
  "optional_identity ctx = Option.bind ctx ctx_identity"

definition missing_scope_message :: "string \<Rightarrow> string" where
  "missing_scope_message scope =
     ''Missing required scope '' @ [char_of (39 :: nat)] @ scope @ [char_of (39 :: nat)] @ ''.''"

definition require_scope :: "error_env \<Rightarrow> string \<Rightarrow> 'x auth_context option \<Rightarrow> (response, 'x identity) result" where
  "require_scope env scope ctx =
     (case authenticated env ctx of
        Err rs \<Rightarrow> Err rs
      | Ok i \<Rightarrow> if has_scope i scope then Ok i
               else Err (authorization_required env ''MISSING_SCOPE'' (missing_scope_message scope)))"

definition service_account :: "error_env \<Rightarrow> 'x auth_context option \<Rightarrow> (response, 'x identity) result" where
  "service_account env ctx =
     (case authenticated env ctx of
        Err rs \<Rightarrow> Err rs
      | Ok i \<Rightarrow> if id_service_account i then Ok i
               else Err (authorization_required env ''SERVICE_ACCOUNT_REQUIRED''
                      ''This endpoint requires a service account.''))"

definition superuser_only :: "error_env \<Rightarrow> 'x auth_context option \<Rightarrow> (response, 'x identity) result" where
  "superuser_only env ctx =
     (case authenticated env ctx of
        Err rs \<Rightarrow> Err rs
      | Ok i \<Rightarrow> if id_privileged i then Ok i
               else Err (authorization_required env ''SUPERUSER_REQUIRED''
                      ''This endpoint requires a privileged identity.''))"

section \<open>Scope policies\<close>

datatype scope_match_mode = MatchAll | MatchAny
datatype authz_decision = Allow | Deny string

record scope_policy =
  sp_required_scopes :: "string list"
  sp_match_mode :: scope_match_mode

definition require_all :: "string list \<Rightarrow> scope_policy" where
  "require_all scopes = \<lparr>sp_required_scopes = scopes, sp_match_mode = MatchAll\<rparr>"

definition require_any :: "string list \<Rightarrow> scope_policy" where
  "require_any scopes = \<lparr>sp_required_scopes = scopes, sp_match_mode = MatchAny\<rparr>"

definition authorize :: "scope_policy \<Rightarrow> 'x identity option \<Rightarrow> (auth_error, authz_decision) result" where
  "authorize p identity =
     (case identity of
        None \<Rightarrow> Ok (Deny ''Authentication required'')
      | Some i \<Rightarrow>
          (let satisfied = (case sp_match_mode p of
               MatchAll \<Rightarrow> list_all (\<lambda>s. s \<in> id_scopes i) (sp_required_scopes p)
             | MatchAny \<Rightarrow> list_ex (\<lambda>s. s \<in> id_scopes i) (sp_required_scopes p))
           in if satisfied then Ok Allow
              else Ok (Deny (''Missing required scopes: '' @
                join '', '' (filter (\<lambda>s. s \<notin> id_scopes i) (sp_required_scopes p))))))"

section \<open>Properties\<close>

lemma sanitize_chars_prefix:
  "\<exists>n. sanitize_chars acc cs = acc @ concat (filter (\<lambda>c. \<not> is_control_char c) (take n cs))"
proof (induction cs arbitrary: acc)
  case (Cons c cs)
  show ?case
  proof (cases "MAX_FAILED_REASON_LEN < length acc + length c")
    case True
    then show ?thesis by (auto intro: exI [of _ 0])
  next
    case False
    obtain n where "sanitize_chars (if is_control_char c then acc else acc @ c) cs =
        (if is_control_char c then acc else acc @ c) @ concat (filter (\<lambda>c. \<not> is_control_char c) (take n cs))"
      using Cons.IH by blast
    with False show ?thesis by (auto intro: exI [of _ "Suc n"])
  qed
qed simp

lemma sanitize_chars_length:
  "length acc \<le> MAX_FAILED_REASON_LEN \<Longrightarrow> length (sanitize_chars acc cs) \<le> MAX_FAILED_REASON_LEN"
  by (induction acc cs rule: sanitize_chars.induct) auto

lemma failed_reason_form:
  "\<exists>kept. utf8_chars (failed_reason_new s) = Some kept \<and> list_all (\<lambda>c. \<not> is_control_char c) kept \<and>
     length (failed_reason_new s) \<le> 512"
proof (cases "utf8_chars s")
  case None
  then show ?thesis by (simp add: failed_reason_new_def utf8_chars.simps)
next
  case (Some cs)
  obtain n where n: "sanitize_chars [] cs = concat (filter (\<lambda>c. \<not> is_control_char c) (take n cs))"
    using sanitize_chars_prefix [of "[]" cs] by auto
  have "list_all utf8_single (filter (\<lambda>c. \<not> is_control_char c) (take n cs))"
    using utf8_chars_single [OF Some] by (auto simp: list_all_iff dest: in_set_takeD)
  from utf8_chars_concat_singles [OF this] show ?thesis
    using Some n sanitize_chars_length [of "[]" cs]
    by (auto simp: failed_reason_new_def MAX_FAILED_REASON_LEN_def list_all_iff)
qed

text \<open>the reason kept of a failed authentication is at most 512 bytes of well-formed text without
  any control character, so it can neither forge a log line nor amplify the log; and the label of a
  result never contains it.\<close>

theorem failed_reason_safe:
  "(\<exists>kept. utf8_chars (failed_reason_new s) = Some kept \<and> list_all (\<lambda>c. \<not> is_control_char c) kept) \<and>
   length (failed_reason_new s) \<le> 512 \<and>
   auth_result_text (Failed (failed_reason_new s)) = ''failed'' \<and>
   auth_result_category (Failed (failed_reason_new s)) = ''failed''"
  using failed_reason_form [of s] by auto

lemma auth_status_codes: "auth_status_code e \<in> {401, 403, 500}"
  by (cases e) auto

text \<open>What the rest of the stack is called with.\<close>

definition passed_request :: "'x auth_request \<Rightarrow> 'x identity option \<Rightarrow> 'x auth_request" where
  "passed_request rq identity =
     rq\<lparr>lr_subject := (case identity of Some i \<Rightarrow> Some (subject_new (id_subject i)) | None \<Rightarrow> lr_subject rq),
        ar_context := Some
          \<lparr>ctx_identity = identity, ctx_client_ip = extract_client_ip rq,
           ctx_request_id = (case ar_request_id rq of Some r \<Rightarrow> r | None \<Rightarrow> []),
           ctx_auth_result = (case identity of Some i \<Rightarrow> AuthOk (id_auth_method i) | None \<Rightarrow> Anonymous)\<rparr>\<rparr>"

definition passed_world ::
  "bool \<Rightarrow> 'x auth_request \<Rightarrow> 'x identity option \<Rightarrow> ('s, 'w) auth_world \<Rightarrow> ('s, 'w) auth_world" where
  "passed_world audit rq identity w =
     populate_logging_context rq (build_success_summary (extract_client_ip rq) identity)
       (audit_success_or_anonymous audit (case ar_request_id rq of Some r \<Rightarrow> r | None \<Rightarrow> [])
          (extract_client_ip rq) identity w)"

lemma auth_middleware_Ok:
  assumes "chain_authenticate (am_chain st) (rq_headers rq) (request_uri rq) (aw_backends w) = (Ok identity, s)"
  shows "auth_middleware env st next_run rq w =
    next_run (passed_request rq identity) (passed_world (am_audit_logger st) rq identity (w\<lparr>aw_backends := s\<rparr>))"
  using assms by (cases identity) (simp_all add: auth_middleware_def passed_request_def passed_world_def Let_def)

lemma passed_request_simps [simp]:
  "Option.bind (ar_context (passed_request rq identity)) ctx_identity = identity"
  "rq_headers (passed_request rq identity) = rq_headers rq"
  "rq_path (passed_request rq identity) = rq_path rq"
  "map_option ctx_client_ip (ar_context (passed_request rq identity)) = Some (extract_client_ip rq)"
  "lr_subject (passed_request rq identity) =
     (case identity of Some i \<Rightarrow> Some (subject_new (id_subject i)) | None \<Rightarrow> lr_subject rq)"
  by (simp_all add: passed_request_def)

text \<open>What the log is to say of a verdict, member by member.\<close>

definition verdict_summary :: "string \<Rightarrow> (auth_error, 'x identity option) result \<Rightarrow> auth_summary" where
  "verdict_summary client_ip r =
     (case r of
        Err e \<Rightarrow> \<lparr>as_client_id = [], as_client_ip = client_ip, as_user_id = ''unknown'', as_auth_method = ''unknown'',
          as_auth_result = ''failed:'' @ auth_error_category e, as_privileged = False\<rparr>
      | Ok None \<Rightarrow> \<lparr>as_client_id = [], as_client_ip = client_ip, as_user_id = ''anonymous'', as_auth_method = ''none'',
          as_auth_result = ''anonymous'', as_privileged = False\<rparr>
      | Ok (Some i) \<Rightarrow> \<lparr>as_client_id = id_subject i, as_client_ip = client_ip, as_user_id = id_subject i,
          as_auth_method = id_auth_method i, as_auth_result = ''authenticated:'' @ id_auth_method i,
          as_privileged = id_privileged i\<rparr>)"

lemma success_summary_verdict: "build_success_summary ip identity = verdict_summary ip (Ok identity)"
  by (cases identity) (simp_all add: build_success_summary_def verdict_summary_def summary_setters auth_summary_default_def)

lemma populated_cell [simp]:
  "aw_logging (populate_logging_context rq sm w) =
     (if ar_logging rq \<and> aw_logging w = None then Some sm else aw_logging w)"
  by (auto simp: populate_logging_context_def logging_context_set_def split: option.split)

lemma populate_logging_context_other:
  "aw_backends (populate_logging_context rq sm w) = aw_backends w" "aw_rest (populate_logging_context rq sm w) = aw_rest w"
  "aw_audit (populate_logging_context rq sm w) = aw_audit w"
  by (simp_all add: populate_logging_context_def)

lemma passed_world_logging [simp]:
  "aw_logging (passed_world audit rq identity w) =
     (if ar_logging rq \<and> aw_logging w = None then Some (verdict_summary (extract_client_ip rq) (Ok identity)) else aw_logging w)"
  by (cases identity)
    (simp_all add: passed_world_def audit_success_or_anonymous_def log_auth_event_def success_summary_verdict)

text \<open>What an audit event says of the request.\<close>

definition audited :: "audit_event \<Rightarrow> string option \<times> audit_outcome" where
  "audited ev = (ev_subject ev, ev_outcome ev)"

lemma passed_world_simps [simp]:
  "aw_backends (passed_world audit rq identity w) = aw_backends w"
  "aw_rest (passed_world audit rq identity w) = aw_rest w"
  "map audited (drop (length (aw_audit w)) (aw_audit (passed_world audit rq identity w))) =
     (if audit then [(map_option id_subject identity, if identity = None then AuditAnonymous else AuditSuccess)] else [])"
  by (cases identity; simp add: passed_world_def populate_logging_context_def audit_success_or_anonymous_def
      log_auth_event_def audited_def)+

lemma auth_middleware_cases:
  fixes st :: "('s, 'x) auth_state" and w :: "('s, 'w) auth_world"
  assumes "chain_authenticate (am_chain st) (rq_headers rq) (request_uri rq) (aw_backends w) = (r, s)"
  shows "case r of
      Err e \<Rightarrow> (\<exists>rs w'. (\<forall>next_run. auth_middleware env st next_run rq w = (rs, w')) \<and>
        rs_status rs \<in> {401, 403, 500} \<and> response.truncate rs = auth_error_response env e \<and>
        Option.bind (ars_context rs) ctx_identity = None \<and>
        aw_logging w' = (if ar_logging rq \<and> aw_logging w = None then Some (verdict_summary (extract_client_ip rq) r)
          else aw_logging w) \<and>
        aw_backends w' = s \<and> aw_rest w' = aw_rest w \<and>
        map audited (drop (length (aw_audit w)) (aw_audit w')) =
          (if am_audit_logger st
           then [(None, if rs_status rs = 500 then AuditError (auth_error_text e) else AuditDenied (auth_error_text e))] else []))
    | Ok identity \<Rightarrow> (\<exists>rq' w'. (\<forall>next_run. auth_middleware env st next_run rq w = next_run rq' w') \<and>
        Option.bind (ar_context rq') ctx_identity = identity \<and> map_option ctx_client_ip (ar_context rq') = Some (extract_client_ip rq) \<and>
        rq_headers rq' = rq_headers rq \<and> rq_path rq' = rq_path rq \<and>
        lr_subject rq' = (case identity of Some i \<Rightarrow> Some (subject_new (id_subject i)) | None \<Rightarrow> lr_subject rq) \<and>
        aw_logging w' = (if ar_logging rq \<and> aw_logging w = None then Some (verdict_summary (extract_client_ip rq) r)
          else aw_logging w) \<and>
        aw_backends w' = s \<and> aw_rest w' = aw_rest w \<and>
        map audited (drop (length (aw_audit w)) (aw_audit w')) =
          (if am_audit_logger st then [(map_option id_subject identity, if identity = None then AuditAnonymous else AuditSuccess)] else []))"
proof (cases r)
  case (Inl e)
  then show ?thesis
    using assms auth_status_codes [of e]
    by (cases e) (simp_all add: auth_middleware_def handle_auth_failure_def Let_def log_auth_event_def verdict_summary_def summary_setters auth_summary_default_def
        populate_logging_context_other response.defs auth_error_response_def quick_error_response_def audited_def)
next
  case (Inr identity)
  with assms have ok: "chain_authenticate (am_chain st) (rq_headers rq) (request_uri rq) (aw_backends w) = (Ok identity, s)"
    by simp
  have "auth_middleware env st next_run rq w =
      next_run (passed_request rq identity) (passed_world (am_audit_logger st) rq identity (w\<lparr>aw_backends := s\<rparr>))"
    for next_run :: "'x auth_request \<Rightarrow> ('s, 'w) auth_world \<Rightarrow> 'x auth_response \<times> ('s, 'w) auth_world"
    by (rule auth_middleware_Ok [OF ok])
  then have "(\<forall>next_run. auth_middleware env st next_run rq w =
      next_run (passed_request rq identity) (passed_world (am_audit_logger st) rq identity (w\<lparr>aw_backends := s\<rparr>)))"
    by blast
  moreover have aud: "aw_audit (w\<lparr>aw_backends := s\<rparr>) = aw_audit w" by simp
  moreover have "map audited (drop (length (aw_audit w))
      (aw_audit (passed_world (am_audit_logger st) rq identity (w\<lparr>aw_backends := s\<rparr>)))) =
     (if am_audit_logger st then [(map_option id_subject identity, if identity = None then AuditAnonymous else AuditSuccess)] else [])"
    using passed_world_simps(3) [of "w\<lparr>aw_backends := s\<rparr>" "am_audit_logger st" rq identity]
    unfolding aud .
  ultimately show ?thesis
    unfolding Inr sum.case
    by (intro exI [of _ "passed_request rq identity"] conjI
        exI [of _ "passed_world (am_audit_logger st) rq identity (w\<lparr>aw_backends := s\<rparr>)"]) simp_all
qed

text \<open>C7: the auth middleware either answers 401, 403 or 500 itself and never calls the rest of the
  stack, with an error response that shows only the kind of failure, or calls it exactly once, on the
  caller's request with the chain's identity in the context and the caller's subject for the rate
  limiter; and with an audit logger it records exactly one event: that subject's success, an anonymous
  pass, a denial with its reason, or, when the answer is 500, an error.  On every path it writes the summary
  of this verdict into the request's logging cell, where there is one and nothing has been written to it.\<close>

theorem auth_middleware_outcomes:
  assumes "chain_authenticate (am_chain st) (rq_headers rq) (request_uri rq) (aw_backends w) = (r, s)"
  shows "case r of
      Err e \<Rightarrow> (\<exists>rs w'. (\<forall>next_run. auth_middleware env st next_run rq w = (rs, w')) \<and>
        rs_status rs \<in> {401, 403, 500} \<and> response.truncate rs = auth_error_response env e \<and>
        Option.bind (ars_context rs) ctx_identity = None \<and>
        aw_logging w' = (if ar_logging rq \<and> aw_logging w = None then Some (verdict_summary (extract_client_ip rq) r)
          else aw_logging w) \<and>
        aw_backends w' = s \<and> aw_rest w' = aw_rest w \<and>
        map audited (drop (length (aw_audit w)) (aw_audit w')) =
          (if am_audit_logger st
           then [(None, if rs_status rs = 500 then AuditError (auth_error_text e) else AuditDenied (auth_error_text e))] else []))
    | Ok identity \<Rightarrow> (\<exists>rq' w'. (\<forall>next_run. auth_middleware env st next_run rq w = next_run rq' w') \<and>
        Option.bind (ar_context rq') ctx_identity = identity \<and> map_option ctx_client_ip (ar_context rq') = Some (extract_client_ip rq) \<and>
        rq_headers rq' = rq_headers rq \<and> rq_path rq' = rq_path rq \<and>
        lr_subject rq' = (case identity of Some i \<Rightarrow> Some (subject_new (id_subject i)) | None \<Rightarrow> lr_subject rq) \<and>
        aw_logging w' = (if ar_logging rq \<and> aw_logging w = None then Some (verdict_summary (extract_client_ip rq) r)
          else aw_logging w) \<and>
        aw_backends w' = s \<and> aw_rest w' = aw_rest w \<and>
        map audited (drop (length (aw_audit w)) (aw_audit w')) =
          (if am_audit_logger st then [(map_option id_subject identity, if identity = None then AuditAnonymous else AuditSuccess)] else []))"
  by (rule auth_middleware_cases [OF assms])

lemma chain_identity_from_backend:
  assumes "chain_authenticate c h u s = (Ok (Some i), s')"
  shows "\<exists>b \<in> set (ac_backends c). \<exists>s1. abh_authenticate b h u s1 = (Ok (Some i), s')"
  using assms unfolding chain_authenticate_def chain_verdict_iff
  by (auto simp: fallback_result_def split: unauthenticated_policy.splits)

lemma chain_reject_not_anonymous:
  "ac_fallback c = Reject \<Longrightarrow> chain_authenticate c h u s \<noteq> (Ok None, s')"
  unfolding chain_authenticate_def chain_verdict_iff by (auto simp: fallback_result_def)

text \<open>behind a chain that rejects unauthenticated requests, whatever is called sees an identity
  that one of the chain's backends produced for this very request: the \<open>Authenticated\<close> extractor
  cannot fail there, and the rate limiter's client key is that identity's subject.\<close>

theorem protected_handler_has_identity:
  assumes "ac_fallback (am_chain st) = Reject"
  shows "(\<exists>rs w'. (\<forall>next_run. auth_middleware env st next_run rq w = (rs, w')) \<and> 401 \<le> rs_status rs) \<or>
    (\<exists>rq' w' i. (\<forall>next_run. auth_middleware env st next_run rq w = next_run rq' w') \<and>
      authenticated env (ar_context rq') = Ok i \<and>
      client_id_key (limited_request.truncate rq') = Some (subject_new (id_subject i)) \<and>
      (\<exists>b s1 s2. b \<in> set (ac_backends (am_chain st)) \<and>
        abh_authenticate b (rq_headers rq) (request_uri rq) s1 = (Ok (Some i), s2)))"
proof -
  obtain r s where chain: "chain_authenticate (am_chain st) (rq_headers rq) (request_uri rq) (aw_backends w) = (r, s)"
    by fastforce
  show ?thesis
  proof (cases r)
    case (Inl e)
    then show ?thesis using auth_middleware_cases [OF chain, of env] by auto
  next
    case (Inr identity)
    with chain assms obtain i where i: "identity = Some i"
      using chain_reject_not_anonymous [OF assms] by (cases identity) auto
    from Inr i auth_middleware_cases [OF chain, of env] obtain rq' w' where
      run: "\<forall>next_run. auth_middleware env st next_run rq w = next_run rq' w'"
      and ctx: "Option.bind (ar_context rq') ctx_identity = Some i"
      and subj: "lr_subject rq' = Some (subject_new (id_subject i))" by auto
    have "authenticated env (ar_context rq') = Ok i" using ctx by (simp add: authenticated_def)
    moreover have "client_id_key (limited_request.truncate rq') = Some (subject_new (id_subject i))"
      using subj by (simp add: client_id_key_def limited_request.defs)
    moreover obtain b s1 where "b \<in> set (ac_backends (am_chain st))"
      "abh_authenticate b (rq_headers rq) (request_uri rq) s1 = (Ok (Some i), s)"
      using chain_identity_from_backend chain Inr i by metis
    ultimately show ?thesis using run by metis
  qed
qed

text \<open>each guard lets exactly the entitled identities through, answers 401 when there is no
  identity and 403 when there is one without the entitlement; a scope policy allows exactly the
  identities whose scopes contain all (or any) of the required ones.\<close>

theorem guards_exact:
  "(require_scope env scope ctx = Ok i \<longleftrightarrow> optional_identity ctx = Some i \<and> scope \<in> id_scopes i) \<and>
   (service_account env ctx = Ok i \<longleftrightarrow> optional_identity ctx = Some i \<and> id_service_account i) \<and>
   (superuser_only env ctx = Ok i \<longleftrightarrow> optional_identity ctx = Some i \<and> id_privileged i) \<and>
   (case require_scope env scope ctx of Ok _ \<Rightarrow> True
    | Err rs \<Rightarrow> rs_status rs = (if optional_identity ctx = None then 401 else 403)) \<and>
   (authorize p identity = Ok Allow \<longleftrightarrow>
      (\<exists>j. identity = Some j \<and>
        (case sp_match_mode p of MatchAll \<Rightarrow> set (sp_required_scopes p) \<subseteq> id_scopes j
         | MatchAny \<Rightarrow> set (sp_required_scopes p) \<inter> id_scopes j \<noteq> {})))"
  by (cases "Option.bind ctx ctx_identity"; cases identity; cases "sp_match_mode p")
    (auto simp: require_scope_def service_account_def superuser_only_def authenticated_def
      optional_identity_def has_scope_def auth_required_def authorization_required_def
      quick_error_response_def authorize_def list_all_iff list_ex_iff)

section \<open>Concrete instances\<close>

definition demo_chain :: "(unit, unit) auth_chain" where
  "demo_chain = backend_handle \<lparr>abh_name = ''static-bearer'',
     abh_authenticate = static_bearer_authenticate (static_bearer_new ''t0ken'')\<rparr> auth_chain_new"

definition demo_request :: "string \<Rightarrow> unit auth_request" where
  "demo_request authorization = \<lparr>rq_method = ''GET'', rq_path = ''/'', rq_path_and_query = None,
     rq_headers = [(''authorization'', hv_static authorization)], lr_subject = None, lr_peer_ip = None,
     ar_query = None, ar_request_id = None, ar_logging = False, ar_context = None\<rparr>"

definition demo_world :: "(unit, nat) auth_world" where
  "demo_world = \<lparr>aw_backends = (), aw_audit = [], aw_logging = None, aw_rest = 0\<rparr>"

lemma demo_chain_verdicts:
  "chain_authenticate demo_chain (rq_headers (demo_request ''bearer t0ken'')) (request_uri (demo_request ''bearer t0ken'')) () =
     (Ok (Some (identity_new ''static-bearer'' ''static-bearer'')), ())"
  "chain_authenticate demo_chain (rq_headers (demo_request ''Bearer wrong'')) (request_uri (demo_request ''Bearer wrong'')) () =
     (Err (InvalidCredentials ''static bearer token mismatch''), ())"
proof -
  have "extract_bearer_token ''bearer t0ken'' = Some ''t0ken''" "extract_bearer_token ''Bearer wrong'' = Some ''wrong''"
    by code_simp+
  then show "chain_authenticate demo_chain (rq_headers (demo_request ''bearer t0ken'')) (request_uri (demo_request ''bearer t0ken'')) () =
     (Ok (Some (identity_new ''static-bearer'' ''static-bearer'')), ())"
    "chain_authenticate demo_chain (rq_headers (demo_request ''Bearer wrong'')) (request_uri (demo_request ''Bearer wrong'')) () =
     (Err (InvalidCredentials ''static bearer token mismatch''), ())"
    by (simp_all add: chain_authenticate_def demo_chain_def backend_handle_def auth_chain_new_def demo_request_def
        static_bearer_by_credential bearer_credential_def hget_def hv_static_def static_bearer_new_def
        static_bearer_identity_def with_privileged_def with_service_account_def identity_new_def)
qed

lemma auth_middleware_outcomes_witness:
  "\<exists>rs w'. auth_middleware demo_env (with_audit_logger (auth_state_new demo_chain))
      (\<lambda>rq w. (undefined, w\<lparr>aw_rest := 1\<rparr>)) (demo_request ''Bearer wrong'') demo_world = (rs, w') \<and>
    rs_status rs \<in> {401, 403, 500} \<and> aw_rest w' = 0"
proof -
  have c: "am_chain (with_audit_logger (auth_state_new demo_chain)) = demo_chain"
    by (simp add: with_audit_logger_def auth_state_new_def)
  have "chain_authenticate (am_chain (with_audit_logger (auth_state_new demo_chain)))
      (rq_headers (demo_request ''Bearer wrong'')) (request_uri (demo_request ''Bearer wrong'')) (aw_backends demo_world) =
      (Err (InvalidCredentials ''static bearer token mismatch''), ())"
    using demo_chain_verdicts(2) by (simp add: c)
  from auth_middleware_outcomes [OF this, of demo_env] show ?thesis by (auto simp: demo_world_def)
qed

lemma protected_handler_has_identity_witness:
  "\<exists>rq' w' i. (\<forall>next_run. auth_middleware demo_env (auth_state_new demo_chain) next_run
      (demo_request ''bearer t0ken'') demo_world = next_run rq' w') \<and> authenticated demo_env (ar_context rq') = Ok i"
proof -
  let ?mw = "\<lambda>next_run. auth_middleware demo_env (auth_state_new demo_chain) next_run
      (demo_request ''bearer t0ken'') demo_world"
  have rej: "ac_fallback (am_chain (auth_state_new demo_chain)) = Reject"
    by (simp add: auth_state_new_def demo_chain_def backend_handle_def auth_chain_new_def)
  have verdict: "chain_authenticate (am_chain (auth_state_new demo_chain)) (rq_headers (demo_request ''bearer t0ken''))
      (request_uri (demo_request ''bearer t0ken'')) (aw_backends demo_world) =
     (Ok (Some (identity_new ''static-bearer'' ''static-bearer'')), ())"
    using demo_chain_verdicts(1) by (simp add: auth_state_new_def)
  have "\<not> (\<exists>rs w'. (\<forall>next_run. ?mw next_run = (rs, w')) \<and> 401 \<le> rs_status rs)"
  proof
    assume "\<exists>rs w'. (\<forall>next_run. ?mw next_run = (rs, w')) \<and> 401 \<le> rs_status rs"
    then obtain rs w' where "\<And>next_run. ?mw next_run = (rs, w')" by blast
    from this [of "\<lambda>_ _. (rs, demo_world)"]
      this [of "\<lambda>_ _. (rs, demo_world\<lparr>aw_rest := 1\<rparr>)"]
    show False unfolding auth_middleware_Ok [OF verdict] by (auto simp: demo_world_def dest: arg_cong [of _ _ aw_rest])
  qed
  with protected_handler_has_identity [OF rej, of demo_env "demo_request ''bearer t0ken''" demo_world]
  show ?thesis by blast
qed

end
