(* ===== verification/Request_Path.thy ===== *)
theory Request_Path
  imports Plugin_Engine Auth_Middleware
begin

text \<open>
  A request on its way through a built application: the middleware stacks \<open>build_router\<close> installs
  (\<open>plugin/engine.rs\<close>) executed with the models of \<open>logging_middleware\<close> and \<open>auth_middleware\<close>.

  A service is a function of the request and the world of the auth middleware.  The body limit and
  the layers of plugins are arbitrary transformers of services; the id the logging middleware
  generates for this request, the matched path and the clock's answer are the other fields of
  \<open>serving\<close>.  Inside the logging middleware the task-local request id is the request's id.
\<close>

section \<open>Running a stack\<close>

type_synonym ('s, 'x, 'w) service =
  "'x auth_request \<Rightarrow> ('s, 'w) auth_world \<Rightarrow> 'x auth_response \<times> ('s, 'w) auth_world"

record ('s, 'x, 'w, 'p) serving =
  sv_uuid :: string
  sv_env_name :: string
  sv_matched :: "string option"
  sv_elapsed_ms :: nat
  sv_body_limit :: "nat \<Rightarrow> ('s, 'x, 'w) service \<Rightarrow> ('s, 'x, 'w) service"
  sv_plugin :: "'p \<Rightarrow> ('s, 'x, 'w) service \<Rightarrow> ('s, 'x, 'w) service"

text \<open>The logging middleware as a layer: it creates the logging cell, puts it and the request id
  into the request's extensions and reads the cell when the response is back.\<close>

definition logged_request ::
  "('s, 'x, 'w, 'p) serving \<Rightarrow> (string \<Rightarrow> ('s, 'x, 'w) service) \<Rightarrow>
   'x auth_request \<Rightarrow> ('s, 'w) auth_world \<Rightarrow> 'x auth_response \<times> request_span \<times> ('s, 'w) auth_world" where
  "logged_request sv next_run rq w =
     logging_middleware (sv_uuid sv) (sv_env_name sv) (sv_matched sv) (sv_elapsed_ms sv)
       (\<lambda>rid rq ctx w.
          let (rs, w) = next_run rid (rq\<lparr>ar_request_id := Some rid, ar_logging := True\<rparr>) (w\<lparr>aw_logging := ctx\<rparr>)
          in (rs, aw_logging w, w)) rq w"

definition logging_layer ::
  "('s, 'x, 'w, 'p) serving \<Rightarrow> (string \<Rightarrow> ('s, 'x, 'w) service) \<Rightarrow> ('s, 'x, 'w) service" where
  "logging_layer sv next_run rq w = (let (rs, span, w') = logged_request sv next_run rq w in (rs, w'))"

fun run_stack ::
  "('s, 'x, 'w, 'p) serving \<Rightarrow> error_env \<Rightarrow> (('s, 'x) auth_state, 'p) middleware list \<Rightarrow>
   ('s, 'x, 'w) service \<Rightarrow> ('s, 'x, 'w) service" where
  "run_stack sv env [] handler = handler"
| "run_stack sv env (LoggingMiddleware # ms) handler =
     logging_layer sv (\<lambda>rid. run_stack sv (env\<lparr>ee_request_id := Some rid\<rparr>) ms handler)"
| "run_stack sv env (BodyLimit n # ms) handler = sv_body_limit sv n (run_stack sv env ms handler)"
| "run_stack sv env (AuthMiddleware st # ms) handler = auth_middleware env st (run_stack sv env ms handler)"
| "run_stack sv env (PluginLayer p # ms) handler = sv_plugin sv p (run_stack sv env ms handler)"

section \<open>What reaches the handler\<close>

text \<open>Two services that cannot be told apart by requests whose auth context satisfies \<open>P\<close>; and a
  layer that calls the service it wraps only with such contexts when it is called with one.\<close>

definition agree_on :: "('x auth_context option \<Rightarrow> bool) \<Rightarrow> ('s, 'x, 'w) service \<Rightarrow> ('s, 'x, 'w) service \<Rightarrow> bool" where
  "agree_on P f g \<longleftrightarrow> (\<forall>rq w. P (ar_context rq) \<longrightarrow> f rq w = g rq w)"

definition keeps_context :: "(('s, 'x, 'w) service \<Rightarrow> ('s, 'x, 'w) service) \<Rightarrow> bool" where
  "keeps_context layer \<longleftrightarrow> (\<forall>P f g. agree_on P f g \<longrightarrow> agree_on P (layer f) (layer g))"

lemma agree_onD: "agree_on P f g \<Longrightarrow> P (ar_context rq) \<Longrightarrow> f rq w = g rq w"
  by (simp add: agree_on_def)

lemma keeps_contextD: "keeps_context layer \<Longrightarrow> agree_on P f g \<Longrightarrow> agree_on P (layer f) (layer g)"
  by (simp add: keeps_context_def)

lemma run_stack_plugins_agree:
  assumes "\<And>p. p \<in> set ps \<Longrightarrow> keeps_context (sv_plugin sv p)" and "agree_on P f g"
  shows "agree_on P (run_stack sv env (map PluginLayer ps) f) (run_stack sv env (map PluginLayer ps) g)"
  using assms by (induction ps) (auto intro: keeps_contextD)

lemma run_stack_append:
  assumes "\<And>env. run_stack sv env ms f = run_stack sv env ms g"
  shows "run_stack sv env (outer @ ms) f = run_stack sv env (outer @ ms) g"
proof (induction outer arbitrary: env)
  case Nil
  show ?case using assms by simp
next
  case (Cons m outer)
  show ?case by (cases m) (simp_all add: Cons.IH)
qed

text \<open>An identity that a backend of the chain vouches for.\<close>

definition vouched_identity :: "('s, 'x) auth_chain \<Rightarrow> 'x identity \<Rightarrow> bool" where
  "vouched_identity c i \<longleftrightarrow>
     (\<exists>b h u s s'. b \<in> set (ac_backends c) \<and> abh_authenticate b h u s = (Ok (Some i), s'))"

definition vouched_context :: "('s, 'x) auth_chain \<Rightarrow> 'x auth_context option \<Rightarrow> bool" where
  "vouched_context c ctx \<longleftrightarrow> (\<exists>i. optional_identity ctx = Some i \<and> vouched_identity c i)"

lemma auth_middleware_agree:
  fixes f g :: "('s, 'x, 'w) service"
  assumes "ac_fallback (am_chain st) = Reject" and agree: "agree_on (vouched_context (am_chain st)) f g"
  shows "auth_middleware env st f = auth_middleware env st g"
proof (intro ext)
  fix rq :: "'x auth_request" and w :: "('s, 'w) auth_world"
  obtain r s where chain: "chain_authenticate (am_chain st) (rq_headers rq) (request_uri rq) (aw_backends w) = (r, s)"
    by fastforce
  show "auth_middleware env st f rq w = auth_middleware env st g rq w"
  proof (cases r)
    case (Inl e)
    then show ?thesis using chain by (simp add: auth_middleware_def Let_def)
  next
    case (Inr identity)
    with chain chain_reject_not_anonymous [OF assms(1)] obtain i where i: "identity = Some i"
      by (cases identity) auto
    then have "vouched_identity (am_chain st) i"
      using chain_identity_from_backend [of "am_chain st"] chain Inr by (fastforce simp: vouched_identity_def)
    then have "vouched_context (am_chain st) (ar_context (passed_request rq identity))"
      by (simp add: vouched_context_def optional_identity_def i)
    then show ?thesis
      using agree_onD [OF agree] chain by (simp add: Inr auth_middleware_Ok)
  qed
qed

text \<open>What a chain let pass: the verdict the handler sees is that of the chain on exactly the headers and the URI
  the handler sees, ending in the state of the backends that the handler finds.\<close>

definition admitted ::
  "('s, 'x) auth_chain \<Rightarrow> headers \<Rightarrow> uri \<Rightarrow> 'x auth_context option \<Rightarrow> 's \<Rightarrow> bool" where
  "admitted c h u ctx s' \<longleftrightarrow> ctx \<noteq> None \<and> (\<exists>s. chain_authenticate c h u s = (Ok (optional_identity ctx), s'))"

text \<open>Two services that cannot be told apart by requests with such credentials, context and state, and a layer
  that leaves these four alone.\<close>

definition agree_at ::
  "(headers \<Rightarrow> uri \<Rightarrow> 'x auth_context option \<Rightarrow> 's \<Rightarrow> bool) \<Rightarrow> ('s, 'x, 'w) service \<Rightarrow> ('s, 'x, 'w) service \<Rightarrow> bool" where
  "agree_at Q f g \<longleftrightarrow>
     (\<forall>rq w. Q (rq_headers rq) (request_uri rq) (ar_context rq) (aw_backends w) \<longrightarrow> f rq w = g rq w)"

definition keeps_credentials :: "(('s, 'x, 'w) service \<Rightarrow> ('s, 'x, 'w) service) \<Rightarrow> bool" where
  "keeps_credentials layer \<longleftrightarrow> (\<forall>Q f g. agree_at Q f g \<longrightarrow> agree_at Q (layer f) (layer g))"

lemma run_stack_plugins_agree_at:
  assumes "\<And>p. p \<in> set ps \<Longrightarrow> keeps_credentials (sv_plugin sv p)" and "agree_at Q f g"
  shows "agree_at Q (run_stack sv env (map PluginLayer ps) f) (run_stack sv env (map PluginLayer ps) g)"
  using assms by (induction ps) (auto simp: keeps_credentials_def)

lemma chain_anonymous_deferred:
  "chain_authenticate c h u s = (Ok None, s') \<Longrightarrow>
   ac_fallback c = AllowAnonymous \<and> defer_all (ac_backends c) h u s = Some s'"
  unfolding chain_authenticate_def chain_verdict_iff by (auto simp: fallback_result_def split: unauthenticated_policy.splits)

lemma auth_middleware_agree_at:
  fixes f g :: "('s, 'x, 'w) service"
  assumes agree: "agree_at (admitted (am_chain st)) f g"
  shows "auth_middleware env st f = auth_middleware env st g"
proof (intro ext)
  fix rq :: "'x auth_request" and w :: "('s, 'w) auth_world"
  obtain r s where chain: "chain_authenticate (am_chain st) (rq_headers rq) (request_uri rq) (aw_backends w) = (r, s)"
    by fastforce
  show "auth_middleware env st f rq w = auth_middleware env st g rq w"
  proof (cases r)
    case (Inl e)
    then show ?thesis using chain by (simp add: auth_middleware_def Let_def)
  next
    case (Inr identity)
    let ?rq = "passed_request rq identity" and ?w = "passed_world (am_audit_logger st) rq identity (w\<lparr>aw_backends := s\<rparr>)"
    have "request_uri ?rq = request_uri rq" by (simp add: passed_request_def request_uri_def)
    with chain Inr have "admitted (am_chain st) (rq_headers ?rq) (request_uri ?rq) (ar_context ?rq) (aw_backends ?w)"
      by (auto simp: admitted_def optional_identity_def) (simp add: passed_request_def)
    with agree have "f ?rq ?w = g ?rq ?w" unfolding agree_at_def by blast
    then show ?thesis using chain by (simp add: Inr auth_middleware_Ok)
  qed
qed

lemma protected_with_stack:
  assumes laws: "router_laws ops stacks" and layers: "layers_law stacks lp (collect_layers app)"
    and order: "\<And>xs. set (hash_order xs) = set xs" and built: "build_router hash_order ops app = Ok router"
    and route: "t \<in> set (collect_routes app)" "tr_group t = ProtectedWith name" "(rt, map PluginLayer inner) \<in> stacks (tr_router t)"
  shows "\<exists>st stack outer ps. ga_named_auth app name = Some st \<and> (rt, stack) \<in> stacks router \<and>
    stack = outer @ LoggingMiddleware # AuthMiddleware st # map PluginLayer ps \<and>
    set ps \<subseteq> set inner \<union> lp ` {l \<in> set (collect_layers app). tl_slot l \<notin> {TransportSecurity, AuthenticationSlot}}"
proof -
  note spec = build_router_spec [OF laws layers order, unfolded built sum.case]
  with route obtain st where st: "ga_named_auth app name = Some st" by blast
  let ?stack = "group_stack lp app (ProtectedWith name) @ map PluginLayer inner"
  let ?ps = "map lp (filter (\<lambda>l. tl_slot l \<noteq> AuthenticationSlot)
        (filter (\<lambda>l. tl_slot l \<noteq> TransportSecurity) (collect_layers app))) @ inner"
  have served: "(rt, ?stack) \<in> stacks router"
    unfolding conjunct2 [OF spec] wrap_def
    by (rule UN_I [OF route(1)], rule image_eqI [OF _ route(3)]) (simp add: route(2))
  have "\<exists>outer. ?stack = outer @ LoggingMiddleware # AuthMiddleware st # map PluginLayer ?ps"
    by (simp add: group_stack_def transport_stack_def st Let_def)
  moreover have "set ?ps \<subseteq> set inner \<union>
      lp ` {l \<in> set (collect_layers app). tl_slot l \<notin> {TransportSecurity, AuthenticationSlot}}" by auto
  ultimately show ?thesis using st served by blast
qed

text \<open>C4: a request reaches the handler of a \<open>ProtectedWith\<close> route of a built application only with the
  verdict of exactly the chain registered under that name, reached on the very headers and URI the handler sees:
  two handlers that agree on such requests cannot be told apart through the whole stack, whatever the
  transport layers and the body limit do, provided the plugin layers inside the authentication leave headers,
  URI, context and backends alone.  Under a chain that rejects, the default, that verdict is always an identity
  one of the chain's backends vouched for on these credentials; a chain that was set to allow anonymous requests
  lets a request without one through when every backend defers on it.\<close>

theorem protected_with_needs_vouched_identity:
  assumes laws: "router_laws ops stacks" and layers: "layers_law stacks lp (collect_layers app)"
    and order: "\<And>xs. set (hash_order xs) = set xs" and built: "build_router hash_order ops app = Ok router"
    and route: "t \<in> set (collect_routes app)" "tr_group t = ProtectedWith name" "(rt, map PluginLayer inner) \<in> stacks (tr_router t)"
    and plugins: "\<And>p. p \<in> set inner \<union> lp ` {l \<in> set (collect_layers app).
        tl_slot l \<notin> {TransportSecurity, AuthenticationSlot}} \<Longrightarrow> keeps_credentials (sv_plugin sv p)"
  shows "\<exists>st stack. ga_named_auth app name = Some st \<and> (rt, stack) \<in> stacks router \<and>
    (\<forall>f g. agree_at (admitted (am_chain st)) f g \<longrightarrow> run_stack sv env stack f = run_stack sv env stack g) \<and>
    (\<forall>h u ctx s'. admitted (am_chain st) h u ctx s' \<longrightarrow>
       (case optional_identity ctx of
          Some i \<Rightarrow> \<exists>b \<in> set (ac_backends (am_chain st)). \<exists>s. abh_authenticate b h u s = (Ok (Some i), s')
        | None \<Rightarrow> ac_fallback (am_chain st) = AllowAnonymous \<and>
            (\<exists>s. defer_all (ac_backends (am_chain st)) h u s = Some s')))"
proof -
  obtain st stack outer ps where st: "ga_named_auth app name = Some st" and stack: "(rt, stack) \<in> stacks router"
    and form: "stack = outer @ LoggingMiddleware # AuthMiddleware st # map PluginLayer ps"
    and ps: "set ps \<subseteq> set inner \<union> lp ` {l \<in> set (collect_layers app). tl_slot l \<notin> {TransportSecurity, AuthenticationSlot}}"
    using protected_with_stack [OF laws layers order built route] by blast
  have "run_stack sv env stack f = run_stack sv env stack g" if "agree_at (admitted (am_chain st)) f g" for f g
    unfolding form
  proof (rule run_stack_append)
    fix env
    have "agree_at (admitted (am_chain st)) (run_stack sv env (map PluginLayer ps) f) (run_stack sv env (map PluginLayer ps) g)" for env
      by (rule run_stack_plugins_agree_at [OF _ that]) (use plugins ps in blast)
    from auth_middleware_agree_at [OF this]
    show "run_stack sv env (LoggingMiddleware # AuthMiddleware st # map PluginLayer ps) f =
        run_stack sv env (LoggingMiddleware # AuthMiddleware st # map PluginLayer ps) g" by simp
  qed
  moreover have "case optional_identity ctx of
      Some i \<Rightarrow> \<exists>b \<in> set (ac_backends (am_chain st)). \<exists>s. abh_authenticate b h u s = (Ok (Some i), s')
    | None \<Rightarrow> ac_fallback (am_chain st) = AllowAnonymous \<and>
        (\<exists>s. defer_all (ac_backends (am_chain st)) h u s = Some s')"
    if "admitted (am_chain st) h u ctx s'" for h u ctx s'
  proof -
    from that obtain s where "chain_authenticate (am_chain st) h u s = (Ok (optional_identity ctx), s')"
      unfolding admitted_def by blast
    then show ?thesis
      using chain_identity_from_backend [of "am_chain st" h u s] chain_anonymous_deferred [of "am_chain st" h u s s']
      by (cases "optional_identity ctx") auto
  qed
  ultimately show ?thesis using st stack by blast
qed

section \<open>One request id everywhere\<close>

lemma logging_layer_run:
  assumes "is_valid_request_id (sv_uuid sv)"
    and "rid = get_or_generate_request_id (sv_uuid sv) (rq_headers rq)"
    and "next_run rid (rq\<lparr>ar_request_id := Some rid, ar_logging := True\<rparr>) (w\<lparr>aw_logging := None\<rparr>) = (rs, w')"
  shows "logging_layer sv next_run rq w =
    (rs\<lparr>rs_headers := hinsert ''x-request-id'' (hv_static rid) (rs_headers rs)\<rparr>, w')"
  using assms header_from_valid_id [OF get_or_generate_valid [OF assms(1)], of "rq_headers rq"]
  by (simp add: logging_layer_def logged_request_def logging_middleware_def logging_context_new_def Let_def)

lemma request_uri_extensions [simp]:
  "request_uri (rq\<lparr>ar_request_id := r, ar_logging := l\<rparr>) = request_uri rq"
  by (simp add: request_uri_def)

lemma passed_world_request_ids:
  "map ev_request_id (drop (length (aw_audit w)) (aw_audit (passed_world audit rq identity w))) =
     (if audit then [case ar_request_id rq of Some r \<Rightarrow> r | None \<Rightarrow> []] else [])"
  by (cases identity; simp add: passed_world_def populate_logging_context_def audit_success_or_anonymous_def
      log_auth_event_def)

text \<open>A refusal shows its error's status, public message and correlation id, and is audited under the
  request's id.\<close>

lemma handle_auth_failure_ids:
  assumes "handle_auth_failure env audit rq request_id client_ip e w = (rs, w')" and "cid = correlation_id env"
  shows "rs_status rs = auth_status_code e \<and>
    hget_all ''x-correlation-id'' (rs_headers rs) = [hv_static cid] \<and>
    rs_body rs = Some (ee_render env (error_response_new (auth_error_code e) (auth_client_message e) cid)) \<and>
    map ev_request_id (drop (length (aw_audit w)) (aw_audit w')) = (if audit then [request_id] else [])"
  using assms
  by (auto simp: handle_auth_failure_def Let_def log_auth_event_def populate_logging_context_def
      auth_error_response_def quick_error_response_def response.defs error_response_new_def
      finalize_error_response_def json_response_def)


section \<open>Concrete instances\<close>

text \<open>One \<open>ProtectedWith\<close> route behind the static bearer chain; the only plugin layer counts requests.\<close>

type_synonym served_mw = "((unit, unit) auth_state, string) middleware"

definition push_plugin :: "(unit, unit, unit, (string, served_mw) stack_router, unit, unit) plugin_handle" where
  "push_plugin = (default_plugin ''routes'')
     \<lparr>pl_layers := \<lambda>_. [\<lparr>tl_slot = CustomSlot, tl_layer = ro_layer stack_ops (PluginLayer ''count'')\<rparr>],
      pl_routes := \<lambda>_. [\<lparr>tr_group = ProtectedWith ''push'', tr_router = [(''/push'', [])]\<rparr>]\<rparr>"

definition push_app :: "(unit, unit, unit, (string, served_mw) stack_router, unit, unit, (unit, unit) auth_state) gasket_app" where
  "push_app = \<lparr>ga_plugins = [push_plugin], ga_actions = Map.empty,
     ga_config = ga_config demo_app, ga_extensions = (), ga_body_limit = 8,
     ga_named_auth = [''push'' \<mapsto> with_audit_logger (auth_state_new demo_chain)]\<rparr>"

definition push_serving :: "(unit, unit, nat, string) serving" where
  "push_serving = \<lparr>sv_uuid = ''generated-1'', sv_env_name = ''local'', sv_matched = Some ''/push'', sv_elapsed_ms = 1,
     sv_body_limit = (\<lambda>n next_run. next_run),
     sv_plugin = (\<lambda>p next_run rq w. next_run rq (w\<lparr>aw_rest := Suc (aw_rest w)\<rparr>))\<rparr>"

lemma push_plugins_keep: "keeps_credentials (sv_plugin push_serving p)"
  by (simp add: keeps_credentials_def agree_at_def push_serving_def)

definition strict_handler :: "(unit, unit, nat) service" where
  "strict_handler rq w = (\<lparr>rs_status = 200, rs_headers = [], rs_body = Some [], ars_context = None\<rparr>, w)"

definition lax_handler :: "(unit, unit, nat) service" where
  "lax_handler rq w =
     (if optional_identity (ar_context rq) = None
      then (\<lparr>rs_status = 200, rs_headers = [], rs_body = Some ''secret'', ars_context = None\<rparr>, w)
      else strict_handler rq w)"

lemma push_app_route:
  "\<exists>router t. build_router (\<lambda>xs. xs) stack_ops push_app = Ok router \<and> layers_law set (\<lambda>_. ''count'') (collect_layers push_app) \<and>
     t \<in> set (collect_routes push_app) \<and> tr_group t = ProtectedWith ''push'' \<and> (''/push'', map PluginLayer []) \<in> set (tr_router t)"
proof -
  have laws: "layers_law set (\<lambda>_. ''count'') (collect_layers push_app)"
    by (auto simp: layers_law_def collect_layers_def push_app_def push_plugin_def default_plugin_def stack_ops_def wrap_def)
  obtain router where built: "build_router (\<lambda>xs. xs) stack_ops push_app = Ok router"
    using build_router_spec [OF stack_ops_laws laws, of "\<lambda>xs. xs"]
    by (cases "build_router (\<lambda>xs. xs) stack_ops push_app")
      (auto simp: collect_routes_def push_app_def push_plugin_def default_plugin_def)
  let ?t = "\<lparr>tr_group = ProtectedWith ''push'', tr_router = [(''/push'', [])]\<rparr> :: (string, served_mw) stack_router tagged_route"
  have route: "?t \<in> set (collect_routes push_app)" "tr_group ?t = ProtectedWith ''push''"
      "(''/push'', map PluginLayer []) \<in> set (tr_router ?t)"
    by (simp_all add: collect_routes_def push_app_def push_plugin_def default_plugin_def)
  from built laws route show ?thesis by blast
qed

lemma protected_with_needs_vouched_identity_witness:
  "\<exists>router stack. build_router (\<lambda>xs. xs) stack_ops push_app = Ok router \<and> (''/push'', stack) \<in> set router \<and>
     run_stack push_serving demo_env stack lax_handler = run_stack push_serving demo_env stack strict_handler"
proof -
  obtain router t where built: "build_router (\<lambda>xs. xs) stack_ops push_app = Ok router"
    and laws: "layers_law set (\<lambda>_. ''count'') (collect_layers push_app)"
    and route: "t \<in> set (collect_routes push_app)" "tr_group t = ProtectedWith ''push''" "(''/push'', map PluginLayer []) \<in> set (tr_router t)"
    using push_app_route by blast
  from protected_with_needs_vouched_identity [OF stack_ops_laws laws refl built route push_plugins_keep, where env = demo_env]
  obtain st stack where st: "ga_named_auth push_app ''push'' = Some st" and stack: "(''/push'', stack) \<in> set router"
    and same: "\<forall>f g. agree_at (admitted (am_chain st)) f g \<longrightarrow>
      run_stack push_serving demo_env stack f = run_stack push_serving demo_env stack g"
    and verdict: "\<forall>h u ctx s'. admitted (am_chain st) h u ctx s' \<longrightarrow>
       (case optional_identity ctx of
          Some i \<Rightarrow> \<exists>b \<in> set (ac_backends (am_chain st)). \<exists>s. abh_authenticate b h u s = (Ok (Some i), s')
        | None \<Rightarrow> ac_fallback (am_chain st) = AllowAnonymous \<and> (\<exists>s. defer_all (ac_backends (am_chain st)) h u s = Some s'))"
    by (elim exE conjE)
  have "ac_fallback (am_chain st) \<noteq> AllowAnonymous"
    using st by (auto simp: push_app_def with_audit_logger_def auth_state_new_def demo_chain_def backend_handle_def auth_chain_new_def)
  then have "optional_identity ctx \<noteq> None" if "admitted (am_chain st) h u ctx s'" for h u ctx s'
    using verdict [rule_format, OF that] by (cases "optional_identity ctx") simp_all
  then have "agree_at (admitted (am_chain st)) lax_handler strict_handler"
    by (fastforce simp: agree_at_def lax_handler_def)
  with same built stack show ?thesis by blast
qed


end
