(* ===== verification/Transport_Layers.thy ===== *)
theory Transport_Layers
  imports Request_Path Builtin_Plugins
begin

text \<open>
  The middleware plugins the framework ships (\<open>middleware.rs\<close>) as plugin handles: each contributes one
  layer in the outermost slot.  The layers of tower-http are names with their settings, what they do is an
  argument; the secure-headers layer runs the model of its middleware.  The property is about every response
  of an application that has the secure-headers plugin.
\<close>

section \<open>The plugins\<close>

datatype ('cors, 'o) shipped_layer =
    CorsLayer 'cors
  | CompressionLayer
  | SecureHeadersLayer
  | TimeoutLayer nat nat        \<comment> \<open>status of the answer, duration\<close>
  | OtherLayer 'o

definition transport_plugin ::
  "('r, ('auth, ('cors, 'o) shipped_layer) middleware) router_ops \<Rightarrow> string \<Rightarrow> ('cors, 'o) shipped_layer \<Rightarrow>
   ('x, 'addr, 'act, 'r, 'e, 'w) plugin_handle" where
  "transport_plugin ops name l = (default_plugin name)
     \<lparr>pl_ordering := before_server,
      pl_layers := \<lambda>_. [\<lparr>tl_slot = TransportSecurity, tl_layer = ro_layer ops (PluginLayer l)\<rparr>]\<rparr>"

definition cors_plugin ::
  "('r, ('auth, ('cors, 'o) shipped_layer) middleware) router_ops \<Rightarrow> 'cors \<Rightarrow> ('x, 'addr, 'act, 'r, 'e, 'w) plugin_handle" where
  "cors_plugin ops layer = transport_plugin ops ''gasket:cors'' (CorsLayer layer)"

text \<open>\<open>cors_permissive\<close> and \<open>cors_new\<close> stand for the constructors of \<open>CorsLayer\<close>.\<close>

definition cors_permissive_for_local_development ::
  "'cors \<Rightarrow> ('r, ('auth, ('cors, 'o) shipped_layer) middleware) router_ops \<Rightarrow> ('x, 'addr, 'act, 'r, 'e, 'w) plugin_handle" where
  "cors_permissive_for_local_development cors_permissive ops = cors_plugin ops cors_permissive"

definition cors_plugin_default ::
  "'cors \<Rightarrow> ('r, ('auth, ('cors, 'o) shipped_layer) middleware) router_ops \<Rightarrow> ('x, 'addr, 'act, 'r, 'e, 'w) plugin_handle" where
  "cors_plugin_default cors_new ops = cors_plugin ops cors_new"

definition compression_plugin ::
  "('r, ('auth, ('cors, 'o) shipped_layer) middleware) router_ops \<Rightarrow> ('x, 'addr, 'act, 'r, 'e, 'w) plugin_handle" where
  "compression_plugin ops = transport_plugin ops ''gasket:compression'' CompressionLayer"

definition secure_headers_plugin ::
  "('r, ('auth, ('cors, 'o) shipped_layer) middleware) router_ops \<Rightarrow> ('x, 'addr, 'act, 'r, 'e, 'w) plugin_handle" where
  "secure_headers_plugin ops = transport_plugin ops ''gasket:secure-headers'' SecureHeadersLayer"

definition timeout_plugin ::
  "('r, ('auth, ('cors, 'o) shipped_layer) middleware) router_ops \<Rightarrow> nat \<Rightarrow> ('x, 'addr, 'act, 'r, 'e, 'w) plugin_handle" where
  "timeout_plugin ops timeout = transport_plugin ops ''gasket:timeout'' (TimeoutLayer 408 timeout)"

definition timeout_plugin_from_secs ::
  "('r, ('auth, ('cors, 'o) shipped_layer) middleware) router_ops \<Rightarrow> nat \<Rightarrow> ('x, 'addr, 'act, 'r, 'e, 'w) plugin_handle" where
  "timeout_plugin_from_secs ops seconds = timeout_plugin ops (seconds * 10 ^ 9)"

definition timeout_plugin_default ::
  "('r, ('auth, ('cors, 'o) shipped_layer) middleware) router_ops \<Rightarrow> ('x, 'addr, 'act, 'r, 'e, 'w) plugin_handle" where
  "timeout_plugin_default ops = timeout_plugin_from_secs ops 30"

text \<open>What the layers do, with tower-http's and other plugins' as arguments.\<close>

fun serve_layer ::
  "('cors \<Rightarrow> ('s, 'x, 'w) service \<Rightarrow> ('s, 'x, 'w) service) \<Rightarrow> (('s, 'x, 'w) service \<Rightarrow> ('s, 'x, 'w) service) \<Rightarrow>
   (nat \<Rightarrow> nat \<Rightarrow> ('s, 'x, 'w) service \<Rightarrow> ('s, 'x, 'w) service) \<Rightarrow>
   ('o \<Rightarrow> ('s, 'x, 'w) service \<Rightarrow> ('s, 'x, 'w) service) \<Rightarrow>
   ('cors, 'o) shipped_layer \<Rightarrow> ('s, 'x, 'w) service \<Rightarrow> ('s, 'x, 'w) service" where
  "serve_layer cors compress timeout other (CorsLayer c) next_run = cors c next_run"
| "serve_layer cors compress timeout other CompressionLayer next_run = compress next_run"
| "serve_layer cors compress timeout other SecureHeadersLayer next_run = secure_headers_middleware next_run"
| "serve_layer cors compress timeout other (TimeoutLayer status d) next_run = timeout status d next_run"
| "serve_layer cors compress timeout other (OtherLayer l) next_run = other l next_run"

section \<open>Security headers on every response\<close>

definition security_headers :: "string list" where
  "security_headers = [''x-content-type-options'', ''x-frame-options'', ''referrer-policy'']"

definition has_security_headers :: "('s, 'x, 'w) service \<Rightarrow> bool" where
  "has_security_headers f \<longleftrightarrow>
     (\<forall>rq w. list_all (\<lambda>n. hcontains n (rs_headers (fst (f rq w)))) security_headers)"

lemma hcontains_insert_if_missing: "hcontains m (insert_if_missing n v h) \<longleftrightarrow> m = n \<or> hcontains m h"
  by (auto simp: insert_if_missing_def)

lemma secure_headers_present: "has_security_headers (secure_headers_middleware next_run)"
  by (simp add: has_security_headers_def security_headers_def secure_headers_middleware_def Let_def split_beta
      hcontains_insert_if_missing)

lemma outer_layers_keep:
  assumes "\<And>p f. p \<in> set ps \<Longrightarrow> has_security_headers f \<Longrightarrow> has_security_headers (sv_plugin sv p f)"
    and "\<And>env. has_security_headers (run_stack sv env ms handler)"
  shows "has_security_headers (run_stack sv env (map PluginLayer ps @ ms) handler)"
  using assms by (induction ps) simp_all

text \<open>The transport layers in front of the first secure-headers layer.\<close>

definition outside_secure_headers ::
  "('r tagged_layer \<Rightarrow> ('cors, 'o) shipped_layer) \<Rightarrow> ('x, 'addr, 'act, 'r, 'e, 'w, 'auth) gasket_app \<Rightarrow>
   ('cors, 'o) shipped_layer list" where
  "outside_secure_headers lp app =
     takeWhile (\<lambda>p. p \<noteq> SecureHeadersLayer) (map lp (filter (\<lambda>l. tl_slot l = TransportSecurity) (collect_layers app)))"

lemma secure_layer_found:
  assumes laws: "router_laws ops stacks" and layers: "layers_law stacks lp (collect_layers app)"
    and "secure_headers_plugin ops \<in> set (ga_plugins app)" and "stacks r \<noteq> {}"
  shows "SecureHeadersLayer \<in> set (map lp (filter (\<lambda>l. tl_slot l = TransportSecurity) (collect_layers app)))"
proof -
  define l where "l = \<lparr>tl_slot = TransportSecurity, tl_layer = ro_layer ops (PluginLayer SecureHeadersLayer)\<rparr>"
  have "l \<in> set (pl_layers (secure_headers_plugin ops) (layer_context app))"
    by (simp add: secure_headers_plugin_def transport_plugin_def l_def)
  then have l: "l \<in> set (collect_layers app)" using assms(3) by (auto simp: collect_layers_def)
  obtain rt st where "(rt, st) \<in> stacks r" using assms(4) by auto
  moreover have "wrap [PluginLayer (lp l)] (stacks r) = wrap [PluginLayer SecureHeadersLayer] (stacks r)"
    using layers l laws by (auto simp: layers_law_def router_laws_def l_def)
  ultimately have "(rt, PluginLayer (lp l) # st) \<in> wrap [PluginLayer SecureHeadersLayer] (stacks r)"
    by (force simp: wrap_def)
  then have "lp l = SecureHeadersLayer" by (auto simp: wrap_def)
  with l show ?thesis by (force simp: l_def)
qed

text \<open>C13: In an application with the secure-headers plugin every response of every route outside the bare
  group, be it the handler's, a refusal of the authentication or the answer of a layer further in, carries
  the three security headers, whatever the handler, the other plugins and their order, provided the transport
  layers that plugins put in front of it do not take them away.\<close>

theorem security_headers_everywhere:
  assumes laws: "router_laws ops stacks" and layers: "layers_law stacks lp (collect_layers app)"
    and order: "\<And>xs. set (hash_order xs) = set xs" and built: "build_router hash_order ops app = Ok router"
    and plugin: "secure_headers_plugin ops \<in> set (ga_plugins app)"
    and route: "t \<in> set (collect_routes app)" "tr_group t \<noteq> Bare" "(rt, inner) \<in> stacks (tr_router t)"
    and serve: "sv_plugin sv = serve_layer cors compress timeout other"
    and outer: "\<And>p f. p \<in> set (outside_secure_headers lp app) \<Longrightarrow> has_security_headers f \<Longrightarrow>
      has_security_headers (sv_plugin sv p f)"
  shows "\<exists>stack. (rt, stack) \<in> stacks router \<and> (\<forall>handler. has_security_headers (run_stack sv env stack handler))"
proof -
  note spec = build_router_spec [OF laws layers order, unfolded built sum.case]
  let ?stack = "group_stack lp app (tr_group t) @ inner"
  have served: "(rt, ?stack) \<in> stacks router"
    unfolding conjunct2 [OF spec] wrap_def by (rule UN_I [OF route(1)], rule image_eqI [OF _ route(3)]) simp
  obtain rest where rest: "?stack = transport_stack lp app @ rest"
    using route(2) by (cases "tr_group t") (simp_all add: group_stack_def Let_def)
  let ?ps = "map lp (filter (\<lambda>l. tl_slot l = TransportSecurity) (collect_layers app))"
  have "SecureHeadersLayer \<in> set ?ps" using secure_layer_found [OF laws layers plugin] route(3) by blast
  then obtain after where ps: "?ps = outside_secure_headers lp app @ SecureHeadersLayer # after"
    unfolding outside_secure_headers_def by (metis (mono_tags, lifting) dropWhile_eq_Cons_conv dropWhile_eq_Nil_conv
      list.exhaust takeWhile_dropWhile_id)
  have "transport_stack lp app = map PluginLayer ?ps @ [BodyLimit (ga_body_limit app), LoggingMiddleware]"
    by (simp add: transport_stack_def)
  then have form: "?stack = map PluginLayer (outside_secure_headers lp app) @ PluginLayer SecureHeadersLayer #
      map PluginLayer after @ [BodyLimit (ga_body_limit app), LoggingMiddleware] @ rest"
    unfolding rest ps by simp
  have "has_security_headers (run_stack sv env ?stack handler)" for handler
    unfolding form
  proof (rule outer_layers_keep)
    show "has_security_headers (sv_plugin sv p f)" if "p \<in> set (outside_secure_headers lp app)" "has_security_headers f" for p f
      by (rule outer [OF that])
    fix env
    show "has_security_headers (run_stack sv env (PluginLayer SecureHeadersLayer #
        map PluginLayer after @ [BodyLimit (ga_body_limit app), LoggingMiddleware] @ rest) handler)"
      by (simp add: serve secure_headers_present)
  qed
  with served show ?thesis by blast
qed

text \<open>A layer in front that answers by itself, as a timeout does, keeps them off its answer.\<close>

lemma timeout_outside_unprotected:
  assumes "\<And>status d next_run rq w. timeout status d next_run rq w =
      (\<lparr>rs_status = status, rs_headers = [], rs_body = Some [], ars_context = None\<rparr>, w)"
    and "sv_plugin sv = serve_layer cors compress timeout other"
  shows "\<not> has_security_headers (run_stack sv env (PluginLayer (TimeoutLayer 408 d) # PluginLayer SecureHeadersLayer # ms) handler)"
  using assms by (simp add: has_security_headers_def security_headers_def hcontains_def)

section \<open>Witness\<close>

type_synonym shipped_mw = "((unit, unit) auth_state, (unit, unit) shipped_layer) middleware"

definition shipped_routes :: "(unit, unit, unit, (string, shipped_mw) stack_router, unit, unit) plugin_handle" where
  "shipped_routes = (default_plugin ''routes'')
     \<lparr>pl_routes := \<lambda>_. [\<lparr>tr_group = Public, tr_router = [(''/status'', [])]\<rparr>]\<rparr>"

definition shipped_app :: "(unit, unit, unit, (string, shipped_mw) stack_router, unit, unit, (unit, unit) auth_state) gasket_app" where
  "shipped_app = \<lparr>ga_plugins = [secure_headers_plugin stack_ops, timeout_plugin_default stack_ops, shipped_routes],
     ga_actions = Map.empty, ga_config = ga_config demo_app, ga_extensions = (), ga_body_limit = 8, ga_named_auth = Map.empty\<rparr>"

definition shipped_serving :: "(unit, unit, nat, (unit, unit) shipped_layer) serving" where
  "shipped_serving = \<lparr>sv_uuid = ''generated-1'', sv_env_name = ''local'', sv_matched = Some ''/status'', sv_elapsed_ms = 1,
     sv_body_limit = (\<lambda>n next_run. next_run), sv_plugin = serve_layer (\<lambda>_ f. f) (\<lambda>f. f) (\<lambda>_ _ f. f) (\<lambda>_ f. f)\<rparr>"

definition shipped_layer_of :: "(string, shipped_mw) stack_router tagged_layer \<Rightarrow> (unit, unit) shipped_layer" where
  "shipped_layer_of l = (case tl_layer l [(''/'', [])] of (_, PluginLayer p # _) # _ \<Rightarrow> p | _ \<Rightarrow> CompressionLayer)"

lemma security_headers_everywhere_witness:
  "\<exists>router stack. build_router (\<lambda>xs. xs) stack_ops shipped_app = Ok router \<and> (''/status'', stack) \<in> set router \<and>
     has_security_headers (run_stack shipped_serving demo_env stack strict_handler)"
proof -
  have layers: "collect_layers shipped_app =
      [\<lparr>tl_slot = TransportSecurity, tl_layer = ro_layer stack_ops (PluginLayer SecureHeadersLayer)\<rparr>,
       \<lparr>tl_slot = TransportSecurity, tl_layer = ro_layer stack_ops (PluginLayer (TimeoutLayer 408 (30 * 10 ^ 9)))\<rparr>]"
    by (simp add: collect_layers_def shipped_app_def secure_headers_plugin_def timeout_plugin_default_def
        timeout_plugin_from_secs_def timeout_plugin_def transport_plugin_def shipped_routes_def default_plugin_def)
  have law: "layers_law set shipped_layer_of (collect_layers shipped_app)"
    by (auto simp: layers layers_law_def shipped_layer_of_def stack_ops_def wrap_def)
  obtain router where built: "build_router (\<lambda>xs. xs) stack_ops shipped_app = Ok router"
    using build_router_spec [OF stack_ops_laws law, of "\<lambda>xs. xs"]
    by (cases "build_router (\<lambda>xs. xs) stack_ops shipped_app")
      (auto simp: collect_routes_def shipped_app_def shipped_routes_def secure_headers_plugin_def timeout_plugin_default_def
        timeout_plugin_from_secs_def timeout_plugin_def transport_plugin_def default_plugin_def)
  let ?t = "\<lparr>tr_group = Public, tr_router = [(''/status'', [])]\<rparr> :: (string, shipped_mw) stack_router tagged_route"
  have route: "?t \<in> set (collect_routes shipped_app)" "tr_group ?t \<noteq> Bare" "(''/status'', []) \<in> set (tr_router ?t)"
    by (simp_all add: collect_routes_def shipped_app_def shipped_routes_def)
  have plugin: "secure_headers_plugin stack_ops \<in> set (ga_plugins shipped_app)" by (simp add: shipped_app_def)
  have serve: "sv_plugin shipped_serving = serve_layer (\<lambda>_ f. f) (\<lambda>f. f) (\<lambda>_ _ f. f) (\<lambda>_ f. f)"
    by (simp add: shipped_serving_def)
  have "outside_secure_headers shipped_layer_of shipped_app = []"
    by (simp add: outside_secure_headers_def layers shipped_layer_of_def stack_ops_def)
  then have "\<exists>stack. (''/status'', stack) \<in> set router \<and>
      (\<forall>handler. has_security_headers (run_stack shipped_serving demo_env stack handler))"
    by (intro security_headers_everywhere [OF stack_ops_laws law refl built plugin route serve]) simp
  with built show ?thesis by blast
qed

end
