(* ===== verification/Request_Quota.thy ===== *)
theory Request_Quota
  imports Request_Path
begin

text \<open>
  Rate limiting by client behind authentication: \<open>auth_middleware\<close> around \<open>rate_limit_middleware\<close> with
  the \<open>ClientIdKey\<close> strategy (\<open>auth/middleware.rs\<close>, \<open>rate_limit.rs\<close>), as the slots of the pipeline nest
  them, over a sequence of requests.  The limiter is \<open>governor\<close>'s: a function of the time and the key; what is
  assumed of it is that a key is charged and judged by its own bucket alone.
\<close>

section \<open>The layer\<close>

text \<open>The limiter is shared state that no handler touches: the first part of the service's state.\<close>

definition inner_world :: "('s, 'l \<times> 'v) auth_world \<Rightarrow> ('s, 'v) auth_world" where
  "inner_world w = \<lparr>aw_backends = aw_backends w, aw_audit = aw_audit w, aw_logging = aw_logging w, aw_rest = snd (aw_rest w)\<rparr>"

definition outer_world :: "'l \<Rightarrow> ('s, 'v) auth_world \<Rightarrow> ('s, 'l \<times> 'v) auth_world" where
  "outer_world l w = \<lparr>aw_backends = aw_backends w, aw_audit = aw_audit w, aw_logging = aw_logging w, aw_rest = (l, aw_rest w)\<rparr>"

abbreviation limiter_of :: "('s, 'l \<times> 'v) auth_world \<Rightarrow> 'l" where
  "limiter_of w \<equiv> fst (aw_rest w)"

definition rate_limit_layer ::
  "(string \<Rightarrow> 'l \<Rightarrow> nat option \<times> 'l) \<Rightarrow> error_env \<Rightarrow> rate_limit_config \<Rightarrow> ('x auth_request \<Rightarrow> string option) \<Rightarrow>
   ('s, 'x, 'v) service \<Rightarrow> ('s, 'x, 'l \<times> 'v) service" where
  "rate_limit_layer check env config strategy next_run rq w =
     (let (rs, l, w') = rate_limit_middleware check env config strategy \<lparr>ars_context = None\<rparr> next_run rq
            (limiter_of w, inner_world w)
      in (rs, outer_world l w'))"

definition limited_path ::
  "(string \<Rightarrow> 'l \<Rightarrow> nat option \<times> 'l) \<Rightarrow> error_env \<Rightarrow> ('s, 'x) auth_state \<Rightarrow> rate_limit_config \<Rightarrow>
   ('s, 'x, 'v) service \<Rightarrow> ('s, 'x, 'l \<times> 'v) service" where
  "limited_path check env st config handler =
     auth_middleware env st (rate_limit_layer check env config client_id_key handler)"

text \<open>The key a request is charged to, if any: the subject of the identity the chain vouches for, or what is
  left in the extensions of an anonymous request.\<close>

definition charged_key ::
  "('s, 'x) auth_state \<Rightarrow> rate_limit_config \<Rightarrow> 'x auth_request \<Rightarrow> ('s, 'w) auth_world \<Rightarrow> string option" where
  "charged_key st config rq w =
     (case fst (chain_authenticate (am_chain st) (rq_headers rq) (request_uri rq) (aw_backends w)) of
        Err e \<Rightarrow> None
      | Ok identity \<Rightarrow>
          (case (case identity of Some i \<Rightarrow> Some (subject_new (id_subject i)) | None \<Rightarrow> lr_subject rq) of
             None \<Rightarrow> None
           | Some k \<Rightarrow> if rl_enabled config \<and> k \<notin> rl_exempt_keys config then Some k else None))"

section \<open>A sequence of requests\<close>

record 'x quota_entry =
  qe_time :: nat
  qe_key :: "string option"
  qe_wait :: "nat option"
  qe_response :: "'x auth_response"

fun serve_all ::
  "(nat \<Rightarrow> string \<Rightarrow> 'l \<Rightarrow> nat option \<times> 'l) \<Rightarrow> ('s, 'x) auth_state \<Rightarrow> rate_limit_config \<Rightarrow> ('s, 'x, 'v) service \<Rightarrow>
   (nat \<times> error_env \<times> 'x auth_request) list \<Rightarrow> ('s, 'l \<times> 'v) auth_world \<Rightarrow>
   'x quota_entry list \<times> ('s, 'l \<times> 'v) auth_world" where
  "serve_all check st config handler [] w = ([], w)"
| "serve_all check st config handler ((t, env, rq) # items) w =
     (let (rs, w1) = limited_path (check t) env st config handler rq w;
          key = charged_key st config rq w;
          wait = Option.bind key (\<lambda>k. fst (check t k (limiter_of w)));
          (entries, w2) = serve_all check st config handler items w1
      in (\<lparr>qe_time = t, qe_key = key, qe_wait = wait, qe_response = rs\<rparr> # entries, w2))"

text \<open>What the limiter answers one client who is alone with it.\<close>

fun replay_charges :: "(nat \<Rightarrow> 'l \<Rightarrow> nat option \<times> 'l) \<Rightarrow> nat list \<Rightarrow> 'l \<Rightarrow> nat option list" where
  "replay_charges check [] l = []"
| "replay_charges check (t # ts) l = (let (wait, l) = check t l in wait # replay_charges check ts l)"

definition keyed_limiter :: "(nat \<Rightarrow> string \<Rightarrow> 'l \<Rightarrow> nat option \<times> 'l) \<Rightarrow> ('l \<Rightarrow> string \<Rightarrow> 'b) \<Rightarrow> bool" where
  "keyed_limiter check bucket \<longleftrightarrow>
     (\<forall>t k k' l. k' \<noteq> k \<longrightarrow> bucket (snd (check t k l)) k' = bucket l k') \<and>
     (\<forall>t k l l'. bucket l k = bucket l' k \<longrightarrow>
        fst (check t k l) = fst (check t k l') \<and> bucket (snd (check t k l)) k = bucket (snd (check t k l')) k)"

lemma keyed_others: "keyed_limiter check bucket \<Longrightarrow> k' \<noteq> k \<Longrightarrow> bucket (snd (check t k l)) k' = bucket l k'"
  by (simp add: keyed_limiter_def)

lemma keyed_own:
  assumes "keyed_limiter check bucket" and "bucket l k = bucket l' k"
  shows "fst (check t k l) = fst (check t k l')" "bucket (snd (check t k l)) k = bucket (snd (check t k l')) k"
  using assms unfolding keyed_limiter_def by blast+

section \<open>One request\<close>

lemma worlds [simp]:
  "limiter_of (outer_world l w) = l" "inner_world (outer_world l w) = w" "aw_backends (inner_world v) = aw_backends v"
  by (simp_all add: inner_world_def outer_world_def)

lemma passed_world_rest [simp]: "aw_rest (passed_world audit rq i w) = aw_rest w"
  by (cases i) (simp_all add: passed_world_def populate_logging_context_def audit_success_or_anonymous_def log_auth_event_def)

lemma handle_auth_failure_rest:
  "aw_rest (snd (handle_auth_failure env audit rq request_id client_ip e w)) = aw_rest w"
  by (simp add: handle_auth_failure_def Let_def populate_logging_context_def log_auth_event_def)

text \<open>The limiter's part in one request: a charge of the caller's own key, or nothing.\<close>

lemma limited_path_limiter:
  assumes "limited_path check env st config handler rq w = (rs, w')"
  shows "case charged_key st config rq w of
      None \<Rightarrow> limiter_of w' = limiter_of w
    | Some k \<Rightarrow> limiter_of w' = snd (check k (limiter_of w)) \<and>
        (case fst (check k (limiter_of w)) of
           None \<Rightarrow> \<exists>rq' w1 w2. handler rq' w1 = (rs, w2) \<and> w' = outer_world (limiter_of w') w2
         | Some wait \<Rightarrow> rs_status rs = 429 \<and> snd (aw_rest w') = snd (aw_rest w))"
proof -
  obtain r s where chain: "chain_authenticate (am_chain st) (rq_headers rq) (request_uri rq) (aw_backends w) = (r, s)"
    by fastforce
  show ?thesis
  proof (cases r)
    case (Inl e)
    then have "limiter_of w' = limiter_of w"
      using assms chain handle_auth_failure_rest [of env "am_audit_logger st" rq _ _ e "w\<lparr>aw_backends := s\<rparr>"]
      by (auto simp: limited_path_def auth_middleware_def Let_def) (metis fst_conv snd_conv)
    then show ?thesis by (simp add: charged_key_def chain Inl)
  next
    case (Inr identity)
    let ?rq = "passed_request rq identity" and ?w = "passed_world (am_audit_logger st) rq identity (w\<lparr>aw_backends := s\<rparr>)"
    have layer: "rate_limit_layer check env config client_id_key handler ?rq ?w = (rs, w')"
      using assms auth_middleware_Ok [OF chain [unfolded Inr]] by (simp add: limited_path_def)
    define k where "k = client_id_key ?rq"
    have k: "k = (case identity of Some i \<Rightarrow> Some (subject_new (id_subject i)) | None \<Rightarrow> lr_subject rq)"
      by (simp add: k_def client_id_key_def)
    have charged: "charged_key st config rq w = (case k of None \<Rightarrow> None
        | Some k \<Rightarrow> if rl_enabled config \<and> k \<notin> rl_exempt_keys config then Some k else None)"
      unfolding k by (simp add: charged_key_def chain Inr)
    obtain rs1 w1 where handled: "handler ?rq (inner_world ?w) = (rs1, w1)" by fastforce
    have lim: "limiter_of ?w = limiter_of w" by simp
    show ?thesis
    proof (cases "charged_key st config rq w")
      case None
      then have "limiter_of w' = limiter_of w"
        using layer handled lim charged
        by (auto simp: rate_limit_layer_def rate_limit_middleware_def k_def [symmetric] Let_def split: option.splits if_splits)
      then show ?thesis using None by simp
    next
      case (Some key)
      then have key: "k = Some key" "rl_enabled config" "key \<notin> rl_exempt_keys config"
        using charged by (auto split: option.splits if_splits)
      obtain wait l where check: "check key (limiter_of w) = (wait, l)" by fastforce
      show ?thesis
      proof (cases wait)
        case None
        then have "rs = rs1" "w' = outer_world l w1"
          using layer handled key check by (auto simp: rate_limit_layer_def rate_limit_middleware_def k_def [symmetric] Let_def)
        then show ?thesis using Some check None handled by auto
      next
        case (Some secs)
        then have "rs = response.extend (too_many_requests env secs) \<lparr>ars_context = None\<rparr>"
            "w' = outer_world l (inner_world ?w)"
          using layer key check by (auto simp: rate_limit_layer_def rate_limit_middleware_def k_def [symmetric] Let_def)
        then show ?thesis using \<open>charged_key st config rq w = Some key\<close> check Some
          by (simp add: too_many_requests_def json_response_def response.defs inner_world_def outer_world_def)
      qed
    qed
  qed
qed

lemma charged_key_vouched:
  assumes "charged_key st config rq w = Some k" and "lr_subject rq = None"
  shows "\<exists>i. vouched_identity (am_chain st) i \<and> k = subject_new (id_subject i)"
proof -
  obtain r s where chain: "chain_authenticate (am_chain st) (rq_headers rq) (request_uri rq) (aw_backends w) = (r, s)"
    by fastforce
  then obtain i where i: "r = Ok (Some i)" "k = subject_new (id_subject i)"
    using assms by (auto simp: charged_key_def split: sum.splits option.splits if_splits)
  then have "vouched_identity (am_chain st) i"
    using chain_identity_from_backend [of "am_chain st"] chain by (fastforce simp: vouched_identity_def)
  with i show ?thesis by blast
qed

section \<open>All requests\<close>

abbreviation charged_to :: "string \<Rightarrow> 'x quota_entry list \<Rightarrow> 'x quota_entry list" where
  "charged_to k entries \<equiv> filter (\<lambda>e. qe_key e = Some k) entries"

lemma serve_all_replay:
  assumes keyed: "keyed_limiter check bucket"
    and "serve_all check st config handler items w = (entries, w')" and "bucket (limiter_of w) k = bucket l k"
  shows "map qe_wait (charged_to k entries) = replay_charges (\<lambda>t. check t k) (map qe_time (charged_to k entries)) l"
  using assms(2,3)
proof (induction items arbitrary: w entries w' l)
  case (Cons item items)
  obtain t env rq where item: "item = (t, env, rq)" by (cases item)
  obtain rs w1 where run: "limited_path (check t) env st config handler rq w = (rs, w1)" by fastforce
  obtain more w2 where rest: "serve_all check st config handler items w1 = (more, w2)" by fastforce
  define key where "key = charged_key st config rq w"
  let ?wait = "Option.bind key (\<lambda>k. fst (check t k (limiter_of w)))"
  have entries: "entries = \<lparr>qe_time = t, qe_key = key, qe_wait = ?wait, qe_response = rs\<rparr> # more"
    using Cons.prems(1) run rest by (simp add: item key_def Let_def)
  note lim = limited_path_limiter [OF run, folded key_def]
  show ?case
  proof (cases "key = Some k")
    case True
    have "limiter_of w1 = snd (check t k (limiter_of w))" using lim True by simp
    then have own: "fst (check t k (limiter_of w)) = fst (check t k l)"
      "bucket (limiter_of w1) k = bucket (snd (check t k l)) k"
      using keyed_own [OF keyed Cons.prems(2), of t] by simp_all
    from Cons.IH [OF rest own(2)] show ?thesis by (simp add: entries True own(1) split_beta)
  next
    case False
    have "bucket (limiter_of w1) k = bucket (limiter_of w) k"
      using lim False keyed_others [OF keyed, of k] by (cases key) auto
    with Cons.prems(2) have "bucket (limiter_of w1) k = bucket l k" by simp
    from Cons.IH [OF rest this] show ?thesis using False by (simp add: entries)
  qed
qed simp

lemma serve_all_entries:
  assumes "serve_all check st config handler items w = (entries, w')"
    and "list_all (\<lambda>(t, env, rq). lr_subject rq = None) items"
  shows "list_all (\<lambda>e. (case qe_key e of None \<Rightarrow> qe_wait e = None
        | Some k \<Rightarrow> \<exists>i. vouched_identity (am_chain st) i \<and> k = subject_new (id_subject i)) \<and>
      (case qe_wait e of None \<Rightarrow> True | Some wait \<Rightarrow> rs_status (qe_response e) = 429)) entries"
  using assms
proof (induction items arbitrary: w entries w')
  case (Cons item items)
  obtain t env rq where item: "item = (t, env, rq)" by (cases item)
  obtain rs w1 where run: "limited_path (check t) env st config handler rq w = (rs, w1)" by fastforce
  obtain more w2 where rest: "serve_all check st config handler items w1 = (more, w2)" by fastforce
  have entries: "entries = \<lparr>qe_time = t, qe_key = charged_key st config rq w,
      qe_wait = Option.bind (charged_key st config rq w) (\<lambda>k. fst (check t k (limiter_of w))), qe_response = rs\<rparr> # more"
    using Cons.prems(1) run rest by (simp add: item Let_def)
  have fresh: "lr_subject rq = None" "list_all (\<lambda>(t, env, rq). lr_subject rq = None) items"
    using Cons.prems(2) by (simp_all add: item)
  show ?case
    using Cons.IH [OF rest fresh(2)] limited_path_limiter [OF run] charged_key_vouched [OF _ fresh(1)]
    by (cases "charged_key st config rq w") (auto simp: entries split: option.splits)
qed simp

text \<open>C14: Behind authentication, with a limiter that keeps one bucket per key, quotas are isolated: over any
  sequence of requests the limiter answers the requests charged to a key exactly as if they had been alone
  with it, no matter what was sent by or in the name of others; a key is only ever charged for an identity
  that a backend of the chain vouched for, which no header can change; and who is over quota is answered 429.\<close>

theorem quotas_isolated:
  assumes "keyed_limiter check bucket" and "serve_all check st config handler items w = (entries, w')"
    and "list_all (\<lambda>(t, env, rq). lr_subject rq = None) items"
  shows "map qe_wait (charged_to k entries) =
      replay_charges (\<lambda>t. check t k) (map qe_time (charged_to k entries)) (limiter_of w) \<and>
    list_all (\<lambda>e. (case qe_key e of None \<Rightarrow> qe_wait e = None
        | Some k \<Rightarrow> \<exists>i. vouched_identity (am_chain st) i \<and> k = subject_new (id_subject i)) \<and>
      (case qe_wait e of None \<Rightarrow> True | Some wait \<Rightarrow> rs_status (qe_response e) = 429)) entries"
  using serve_all_replay [OF assms(1,2) refl] serve_all_entries [OF assms(2,3)] by blast

section \<open>Witness\<close>

text \<open>A limiter that lets every key pass once.\<close>

definition once_per_key :: "nat \<Rightarrow> string \<Rightarrow> string set \<Rightarrow> nat option \<times> string set" where
  "once_per_key t k l = (if k \<in> l then Some 5 else None, insert k l)"

definition quota_items :: "(nat \<times> error_env \<times> unit auth_request) list" where
  "quota_items = [(1, demo_env, demo_request ''bearer t0ken''), (2, demo_env, demo_request ''Bearer wrong''),
     (3, demo_env, demo_request ''bearer t0ken'')]"

definition quota_world :: "(unit, string set \<times> nat) auth_world" where
  "quota_world = \<lparr>aw_backends = (), aw_audit = [], aw_logging = None, aw_rest = ({}, 0)\<rparr>"

lemma quotas_isolated_witness:
  "\<exists>entries w'. serve_all once_per_key (auth_state_new demo_chain) rate_limit_config_default strict_handler quota_items quota_world =
      (entries, w') \<and>
    map qe_wait (charged_to ''static-bearer'' entries) =
      replay_charges (\<lambda>t. once_per_key t ''static-bearer'') (map qe_time (charged_to ''static-bearer'' entries)) {}"
proof -
  obtain entries w' where run: "serve_all once_per_key (auth_state_new demo_chain) rate_limit_config_default strict_handler
      quota_items quota_world = (entries, w')" by fastforce
  have keyed: "keyed_limiter once_per_key (\<lambda>l k. k \<in> l)" by (simp add: keyed_limiter_def once_per_key_def)
  have fresh: "list_all (\<lambda>(t, env, rq). lr_subject rq = None) quota_items" by (simp add: quota_items_def demo_request_def)
  from quotas_isolated [OF keyed run fresh, of "''static-bearer''"] run show ?thesis by (simp add: quota_world_def)
qed

end
