(* ===== verification/Access_Log.thy ===== *)
theory Access_Log
  imports Request_Path
begin

text \<open>
  What the access log says of a request: the root span that \<open>logging_middleware\<close>
  (\<open>observability/logging.rs\<close>) records behind the auth middleware (\<open>auth/middleware.rs\<close>), whatever the
  handler and the layers behind it do.

  The logging cell is a \<open>OnceLock\<close>: the code outside the framework can read it and set it while it is
  empty.  A service that obeys this keeps a cell that is set, \<open>cell_kept\<close>.
\<close>

section \<open>Services that cannot overwrite the cell\<close>

definition cell_kept :: "('s, 'x, 'w) service \<Rightarrow> bool" where
  "cell_kept f \<longleftrightarrow> (\<forall>rq w. aw_logging w \<noteq> None \<longrightarrow> aw_logging (snd (f rq w)) = aw_logging w)"

definition keeps_cell :: "(('s, 'x, 'w) service \<Rightarrow> ('s, 'x, 'w) service) \<Rightarrow> bool" where
  "keeps_cell layer \<longleftrightarrow> (\<forall>f. cell_kept f \<longrightarrow> cell_kept (layer f))"

lemma cell_keptD: "cell_kept f \<Longrightarrow> aw_logging w = Some sm \<Longrightarrow> aw_logging (snd (f rq w)) = Some sm"
  by (simp add: cell_kept_def)

text \<open>A handler that sets the cell, as far as the cell lets it.\<close>

lemma cell_kept_set: "cell_kept (\<lambda>rq w. (rs, populate_logging_context rq sm w))"
  by (auto simp: cell_kept_def populate_logging_context_def logging_context_set_def)

lemma run_plugins_cell_kept:
  assumes "\<And>p. p \<in> set ps \<Longrightarrow> keeps_cell (sv_plugin sv p)" and "cell_kept handler"
  shows "cell_kept (run_stack sv env (map PluginLayer ps) handler)"
  using assms by (induction ps) (auto simp: keeps_cell_def)

section \<open>The span states the verdict\<close>

lemma extract_client_ip_extensions [simp]:
  "extract_client_ip (rq\<lparr>ar_request_id := r, ar_logging := l\<rparr>) = extract_client_ip rq"
  by (simp add: extract_client_ip_def cong: option.case_cong)

lemma auth_failure_cell:
  assumes "ar_logging rq" and "aw_logging w = None"
    and "handle_auth_failure env audit rq rid ip e w = (rs, w')"
  shows "aw_logging w' = Some (verdict_summary ip (Err e)) \<and> rs_status rs = auth_status_code e"
  using assms handle_auth_failure_ids [OF assms(3) refl]
  by (auto simp: handle_auth_failure_def Let_def log_auth_event_def verdict_summary_def summary_setters
      auth_summary_default_def)

lemma logged_request_run:
  assumes "next_run (get_or_generate_request_id (sv_uuid sv) (rq_headers rq))
      (rq\<lparr>ar_request_id := Some (get_or_generate_request_id (sv_uuid sv) (rq_headers rq)), ar_logging := True\<rparr>)
      (w\<lparr>aw_logging := None\<rparr>) = (rs0, w')"
  shows "\<exists>rs span. logged_request sv next_run rq w = (rs, span, w') \<and> rs_status rs = rs_status rs0 \<and>
    sp_status span = rs_status rs0 \<and> sp_auth span = aw_logging w'"
  using assms by (auto simp: logged_request_def logging_middleware_def logging_context_new_def
      logging_context_get_def Let_def split: option.split)

lemma behind_auth_states_verdict:
  fixes rq :: "'x auth_request" and w :: "('s, 'w) auth_world"
  assumes chain: "chain_authenticate (am_chain st) (rq_headers rq) (request_uri rq) (aw_backends w) = (r, s)"
    and inner: "\<And>env. cell_kept (run_stack sv env inner handler)"
  shows "\<exists>rs span w'.
    logged_request sv (\<lambda>rid. run_stack sv (env\<lparr>ee_request_id := Some rid\<rparr>) (AuthMiddleware st # inner) handler)
      rq w = (rs, span, w') \<and>
    run_stack sv env (LoggingMiddleware # AuthMiddleware st # inner) handler rq w = (rs, w') \<and>
    sp_status span = rs_status rs \<and> sp_auth span = Some (verdict_summary (extract_client_ip rq) r) \<and>
    (case r of Err e \<Rightarrow> rs_status rs = auth_status_code e | _ \<Rightarrow> True)"
proof -
  let ?rid = "get_or_generate_request_id (sv_uuid sv) (rq_headers rq)"
  let ?rq = "rq\<lparr>ar_request_id := Some ?rid, ar_logging := True\<rparr>" and ?w = "w\<lparr>aw_logging := None\<rparr>"
  let ?env = "env\<lparr>ee_request_id := Some ?rid\<rparr>" and ?ip = "extract_client_ip rq"
  let ?next = "\<lambda>rid. run_stack sv (env\<lparr>ee_request_id := Some rid\<rparr>) (AuthMiddleware st # inner) handler"
  have chain': "chain_authenticate (am_chain st) (rq_headers ?rq) (request_uri ?rq) (aw_backends ?w) = (r, s)"
    using chain by simp
  obtain rs0 w' where run: "auth_middleware ?env st (run_stack sv ?env inner handler) ?rq ?w = (rs0, w')" by fastforce
  obtain rs span where log: "logged_request sv ?next rq w = (rs, span, w')" "rs_status rs = rs_status rs0"
      "sp_status span = rs_status rs0" "sp_auth span = aw_logging w'"
    using logged_request_run [of ?next sv rq w rs0 w'] run by auto
  have stack: "run_stack sv env (LoggingMiddleware # AuthMiddleware st # inner) handler rq w = (rs, w')"
    using log(1) by (simp add: logging_layer_def)
  have "aw_logging w' = Some (verdict_summary ?ip r) \<and> (case r of Err e \<Rightarrow> rs_status rs0 = auth_status_code e | _ \<Rightarrow> True)"
  proof (cases r)
    case (Inl e)
    have "handle_auth_failure ?env (am_audit_logger st) ?rq ?rid ?ip e (?w\<lparr>aw_backends := s\<rparr>) = (rs0, w')"
      using chain' run by (simp add: auth_middleware_def Inl Let_def)
    from auth_failure_cell [OF _ _ this] show ?thesis by (simp add: Inl)
  next
    case (Inr identity)
    have "aw_logging (passed_world (am_audit_logger st) ?rq identity (?w\<lparr>aw_backends := s\<rparr>)) =
        Some (verdict_summary ?ip (Ok identity))" by simp
    from cell_keptD [OF inner this] show ?thesis
      using run unfolding auth_middleware_Ok [OF chain' [unfolded Inr]] Inr by (metis snd_conv sum.case(2))
  qed
  with log stack show ?thesis by (cases r; simp del: run_stack.simps)
qed

text \<open>C16: on a \<open>ProtectedWith\<close> route of a built application the one auth summary in the span of a request is
  the verdict of the chain registered under the route's name: the subject, the method and the privilege of the
  identity it returned, an anonymous pass, or the category of the refusal, with the caller's address; and the
  span's status is the one that was answered.  No handler and no layer behind the authentication can make it
  say anything else: the cell is written once, as its \<open>OnceLock\<close> makes it (they keep a cell that is written), and
  there the named chain writes first.\<close>

theorem access_log_states_verdict:
  fixes stacks :: "'r \<Rightarrow> ('route \<times> (('s, 'x) auth_state, 'p) middleware list) set"
  assumes laws: "router_laws ops stacks" and layers: "layers_law stacks lp (collect_layers app)"
    and order: "\<And>xs. set (hash_order xs) = set xs" and built: "build_router hash_order ops app = Ok router"
    and route: "t \<in> set (collect_routes app)" "tr_group t = ProtectedWith name" "(rt, map PluginLayer inner) \<in> stacks (tr_router t)"
    and plugins: "\<And>p. keeps_cell (sv_plugin sv p)" and handler: "cell_kept handler"
  shows "\<exists>st outer rest. ga_named_auth app name = Some st \<and> (rt, outer @ LoggingMiddleware # rest) \<in> stacks router \<and>
    (\<forall>rq w. \<exists>rs span w'.
       logged_request sv (\<lambda>rid. run_stack sv (env\<lparr>ee_request_id := Some rid\<rparr>) rest handler) rq w = (rs, span, w') \<and>
       run_stack sv env (LoggingMiddleware # rest) handler rq w = (rs, w') \<and> sp_status span = rs_status rs \<and>
       (let r = fst (chain_authenticate (am_chain st) (rq_headers rq) (request_uri rq) (aw_backends w)) in
          sp_auth span = Some (verdict_summary (extract_client_ip rq) r) \<and>
          (case r of Err e \<Rightarrow> rs_status rs = auth_status_code e | Ok _ \<Rightarrow> True)))"
proof -
  obtain st stack outer ps where st: "ga_named_auth app name = Some st" and stack: "(rt, stack) \<in> stacks router"
    and form: "stack = outer @ LoggingMiddleware # AuthMiddleware st # map PluginLayer ps"
    using protected_with_stack [OF laws layers order built route] by blast
  have inner: "cell_kept (run_stack sv env (map PluginLayer ps) handler)" for env
    by (rule run_plugins_cell_kept [OF plugins handler])
  have "\<exists>rs span w'.
       logged_request sv (\<lambda>rid. run_stack sv (env\<lparr>ee_request_id := Some rid\<rparr>) (AuthMiddleware st # map PluginLayer ps) handler)
         rq w = (rs, span, w') \<and>
       run_stack sv env (LoggingMiddleware # AuthMiddleware st # map PluginLayer ps) handler rq w = (rs, w') \<and>
       sp_status span = rs_status rs \<and>
       (let r = fst (chain_authenticate (am_chain st) (rq_headers rq) (request_uri rq) (aw_backends w)) in
          sp_auth span = Some (verdict_summary (extract_client_ip rq) r) \<and>
          (case r of Err e \<Rightarrow> rs_status rs = auth_status_code e | Ok _ \<Rightarrow> True))" for rq and w
  proof -
    obtain r s where chain: "chain_authenticate (am_chain st) (rq_headers rq) (request_uri rq) (aw_backends w) = (r, s)"
      by fastforce
    from behind_auth_states_verdict [OF chain inner, of env] show ?thesis by (simp add: chain Let_def del: run_stack.simps)
  qed
  with st stack [unfolded form] show ?thesis by blast
qed

text \<open>On a plain \<open>Protected\<close> route the authentication is itself a layer of a plugin, and a layer in the logging
  slot runs before it: what that layer writes into the cell stays, whatever the verdict is.\<close>

lemma earlier_layer_writes_first:
  assumes "sv_plugin sv p = (\<lambda>next_run rq w. next_run rq (populate_logging_context rq sm w))"
    and inner: "\<And>env. cell_kept (run_stack sv env inner handler)"
  shows "\<exists>rs span w'. logged_request sv (\<lambda>rid. run_stack sv (env\<lparr>ee_request_id := Some rid\<rparr>)
      (PluginLayer p # inner) handler) rq w = (rs, span, w') \<and> sp_auth span = Some sm"
proof -
  let ?rid = "get_or_generate_request_id (sv_uuid sv) (rq_headers rq)"
  let ?next = "\<lambda>rid. run_stack sv (env\<lparr>ee_request_id := Some rid\<rparr>) (PluginLayer p # inner) handler"
  let ?rq = "rq\<lparr>ar_request_id := Some ?rid, ar_logging := True\<rparr>" and ?w = "w\<lparr>aw_logging := None\<rparr>"
  obtain rs0 w' where run: "?next ?rid ?rq ?w = (rs0, w')" by fastforce
  have "aw_logging (populate_logging_context ?rq sm ?w) = Some sm" by simp
  from cell_keptD [OF inner [of "env\<lparr>ee_request_id := Some ?rid\<rparr>"] this, of ?rq] have "aw_logging w' = Some sm"
    using arg_cong [OF run, of snd] by (simp add: assms(1))
  with logged_request_run [of ?next sv rq w rs0 w'] run show ?thesis by (auto simp del: run_stack.simps)
qed

section \<open>A concrete instance\<close>

text \<open>A handler that tries to write another summary.\<close>

definition forging_handler :: "(unit, unit, nat) service" where
  "forging_handler rq w =
     (\<lparr>rs_status = 200, rs_headers = [], rs_body = Some [], ars_context = None\<rparr>,
      populate_logging_context rq (summary_user_id ''somebody-else'' summary_builder) w)"

lemma access_log_states_verdict_witness:
  "\<exists>router outer rest rs span w'. build_router (\<lambda>xs. xs) stack_ops push_app = Ok router \<and>
     (''/push'', outer @ LoggingMiddleware # rest) \<in> set router \<and>
     logged_request push_serving (\<lambda>rid. run_stack push_serving (demo_env\<lparr>ee_request_id := Some rid\<rparr>) rest forging_handler)
       (demo_request ''Bearer wrong'') demo_world = (rs, span, w') \<and>
     sp_auth span = Some (verdict_summary ''unknown'' (Err (InvalidCredentials ''static bearer token mismatch'') :: (auth_error, unit identity option) result))"
proof -
  obtain router t where built: "build_router (\<lambda>xs. xs) stack_ops push_app = Ok router"
    and laws: "layers_law set (\<lambda>_. ''count'') (collect_layers push_app)"
    and route: "t \<in> set (collect_routes push_app)" "tr_group t = ProtectedWith ''push''" "(''/push'', map PluginLayer []) \<in> set (tr_router t)"
    using push_app_route by blast
  have plugins: "keeps_cell (sv_plugin push_serving p)" for p
    by (simp add: keeps_cell_def cell_kept_def push_serving_def)
  have handler: "cell_kept forging_handler"
    unfolding forging_handler_def by (rule cell_kept_set)
  from access_log_states_verdict [OF stack_ops_laws laws refl built route plugins handler, of demo_env]
  obtain st outer rest where st: "ga_named_auth push_app ''push'' = Some st" "(''/push'', outer @ LoggingMiddleware # rest) \<in> set router"
    and all: "\<And>rq w. \<exists>rs span w'. logged_request push_serving
        (\<lambda>rid. run_stack push_serving (demo_env\<lparr>ee_request_id := Some rid\<rparr>) rest forging_handler) rq w = (rs, span, w') \<and>
       run_stack push_serving demo_env (LoggingMiddleware # rest) forging_handler rq w = (rs, w') \<and> sp_status span = rs_status rs \<and>
       (let r = fst (chain_authenticate (am_chain st) (rq_headers rq) (request_uri rq) (aw_backends w)) in
          sp_auth span = Some (verdict_summary (extract_client_ip rq) r) \<and>
          (case r of Err e \<Rightarrow> rs_status rs = auth_status_code e | Ok _ \<Rightarrow> True))"
    by (elim exE conjE) blast
  have "am_chain st = demo_chain" using st(1) by (auto simp: push_app_def with_audit_logger_def auth_state_new_def)
  then have "fst (chain_authenticate (am_chain st) (rq_headers (demo_request ''Bearer wrong''))
      (request_uri (demo_request ''Bearer wrong'')) (aw_backends demo_world)) = Err (InvalidCredentials ''static bearer token mismatch'')"
    using demo_chain_verdicts(2) by simp
  moreover have "extract_client_ip (demo_request ''Bearer wrong'') = ''unknown''" by code_simp
  ultimately obtain rs span w' where run: "logged_request push_serving
      (\<lambda>rid. run_stack push_serving (demo_env\<lparr>ee_request_id := Some rid\<rparr>) rest forging_handler)
      (demo_request ''Bearer wrong'') demo_world = (rs, span, w')"
    "sp_auth span = Some (verdict_summary ''unknown'' (Err (InvalidCredentials ''static bearer token mismatch'') :: (auth_error, unit identity option) result))"
    using all [of "demo_request ''Bearer wrong''" demo_world] unfolding Let_def by metis
  show ?thesis by (intro exI conjI) (rule built st(2) run)+
qed

end
