(* ===== verification/Database.thy ===== *)
theory Database
  imports Errors
begin

text \<open>
  The database component (\<open>db/config.rs\<close>, \<open>db/transaction.rs\<close>, \<open>db/extractor.rs\<close>, \<open>db/plugin.rs\<close>):
  configuration from the environment, backend detection, redaction of connection URLs, the
  transaction of a request and the pool's life cycle.

  SQLx is the record \<open>sql_env\<close> over a database state \<open>'d\<close>: beginning a transaction, executing a
  statement with one bound value, rolling back a dropped transaction, committing, connecting and
  closing.  \<open>lower\<close> is \<open>str::to_lowercase\<close> with its Unicode tables.
\<close>

section \<open>Configuration\<close>

datatype database_backend = Auto | ForcePostgres | ForceMySql
datatype resolved_backend = Postgres | MySql

datatype db_config_error = MissingEnvVar string | UnknownUrlScheme string | InvalidBackend string

fun db_config_error_text :: "db_config_error \<Rightarrow> string" where
  "db_config_error_text (MissingEnvVar v) = ''Required environment variable not set: '' @ v"
| "db_config_error_text (UnknownUrlScheme u) = ''Failed to determine database backend from URL scheme: '' @ u"
| "db_config_error_text (InvalidBackend b) =
     ''Unknown database backend: '' @ [char_of (39 :: nat)] @ b @ [char_of (39 :: nat)] @
     '' (expected: postgres, mysql, or auto)''"

fun resolved_backend_text :: "resolved_backend \<Rightarrow> string" where
  "resolved_backend_text Postgres = ''postgres''"
| "resolved_backend_text MySql = ''mysql''"

text \<open>\<open>url.split("://").next()\<close>: the text before the first occurrence, or the whole.\<close>

definition before_scheme_end :: "string \<Rightarrow> string" where
  "before_scheme_end url = (case find_sub ''://'' url of Some i \<Rightarrow> take i url | None \<Rightarrow> url)"

fun resolve_backend :: "database_backend \<Rightarrow> string \<Rightarrow> (db_config_error, resolved_backend) result" where
  "resolve_backend ForcePostgres url = Ok Postgres"
| "resolve_backend ForceMySql url = Ok MySql"
| "resolve_backend Auto url =
     (let l = to_ascii_lowercase url in
      if starts_with l ''postgres://'' \<or> starts_with l ''postgresql://'' then Ok Postgres
      else if starts_with l ''mysql://'' then Ok MySql
      else Err (UnknownUrlScheme (before_scheme_end url @ ''://...'')))"

record database_config =
  dc_url :: string
  dc_backend :: database_backend
  dc_max_connections :: nat
  dc_min_connections :: nat
  dc_run_migrations :: bool
  dc_acquire_timeout_secs :: nat

definition database_config_default :: database_config where
  "database_config_default =
     \<lparr>dc_url = [], dc_backend = Auto, dc_max_connections = 32, dc_min_connections = 0,
      dc_run_migrations = True, dc_acquire_timeout_secs = 5\<rparr>"

definition redact_url_userinfo :: "string \<Rightarrow> string" where
  "redact_url_userinfo url =
     (case find_sub ''://'' url of
        None \<Rightarrow> url
      | Some scheme_end \<Rightarrow>
          (let after_scheme = scheme_end + 3;
               rest = drop after_scheme url;
               authority = takeWhile (\<lambda>c. c \<noteq> CHR ''/'') rest
           in if CHR ''@'' \<in> set authority
              then take after_scheme url @ ''***'' @ drop (length (takeWhile (\<lambda>c. c \<noteq> CHR ''@'') authority)) rest
              else url))"

definition backend_from_env :: "(string \<Rightarrow> string) \<Rightarrow> string option \<Rightarrow> (db_config_error, database_backend) result" where
  "backend_from_env lower v =
     (case v of
        None \<Rightarrow> Ok Auto
      | Some v \<Rightarrow>
          (let l = lower v in
           if l = ''postgres'' \<or> l = ''postgresql'' then Ok ForcePostgres
           else if l = ''mysql'' then Ok ForceMySql
           else if l = ''auto'' then Ok Auto
           else Err (InvalidBackend l)))"

definition uint_or :: "nat \<Rightarrow> string option \<Rightarrow> nat \<Rightarrow> nat" where
  "uint_or mx v dflt = (case Option.bind v (parse_uint mx) of Some n \<Rightarrow> n | None \<Rightarrow> dflt)"

definition database_from_env ::
  "(string \<Rightarrow> string) \<Rightarrow> (string \<Rightarrow> string option) \<Rightarrow> (db_config_error, database_config) result" where
  "database_from_env lower penv =
     (case penv ''DATABASE_URL'' of
        None \<Rightarrow> Err (MissingEnvVar ''DATABASE_URL'')
      | Some url \<Rightarrow>
          (case backend_from_env lower (penv ''DB_BACKEND'') of
             Err e \<Rightarrow> Err e
           | Ok backend \<Rightarrow> Ok
               \<lparr>dc_url = url, dc_backend = backend,
                dc_max_connections = uint_or u32_max (penv ''DB_MAX_CONNECTIONS'') 32,
                dc_min_connections = uint_or u32_max (penv ''DB_MIN_CONNECTIONS'') 0,
                dc_run_migrations = (case penv ''DB_RUN_MIGRATIONS'' of
                    None \<Rightarrow> True | Some v \<Rightarrow> v \<noteq> ''false'' \<and> v \<noteq> ''0''),
                dc_acquire_timeout_secs = uint_or u64_max (penv ''DB_ACQUIRE_TIMEOUT_SECS'') 5\<rparr>))"

section \<open>Transactions\<close>

record ('tx, 'pool, 'd) sql_env =
  sq_begin :: "'d \<Rightarrow> (string, 'tx) result \<times> 'd"
  sq_execute :: "'tx \<Rightarrow> string \<Rightarrow> string \<Rightarrow> 'd \<Rightarrow> string option \<times> 'd"
  sq_rollback :: "'tx \<Rightarrow> 'd \<Rightarrow> 'd"
  sq_commit :: "'tx \<Rightarrow> 'd \<Rightarrow> string option \<times> 'd"
  sq_connect :: "nat \<Rightarrow> nat \<Rightarrow> nat \<Rightarrow> string \<Rightarrow> 'd \<Rightarrow> (string, 'pool) result \<times> 'd"
  sq_close :: "'pool \<Rightarrow> 'd \<Rightarrow> 'd"

text \<open>The characters kept are ASCII, so filtering bytes is filtering characters.\<close>

definition sanitize_request_id :: "string \<Rightarrow> string" where
  "sanitize_request_id rid = take 55 (filter (\<lambda>c. is_ascii_alphanumeric c \<or> c = CHR ''-'') rid)"

definition correlation_value :: "string \<Rightarrow> string" where
  "correlation_value request_id = ''gasket|'' @ sanitize_request_id request_id"

fun correlation_statement :: "resolved_backend \<Rightarrow> string" where
  "correlation_statement Postgres =
     ''SELECT set_config('' @ [char_of (39 :: nat)] @ ''application_name'' @ [char_of (39 :: nat)] @ '', $1, true)''"
| "correlation_statement MySql = ''SET @gasket_request_id = ?''"

definition begin_tracked_transaction ::
  "('tx, 'pool, 'd) sql_env \<Rightarrow> string \<Rightarrow> resolved_backend \<Rightarrow> 'd \<Rightarrow> (string, 'tx) result \<times> 'd" where
  "begin_tracked_transaction sq request_id backend d =
     (case sq_begin sq d of
        (Err e, d) \<Rightarrow> (Err e, d)
      | (Ok tx, d) \<Rightarrow>
          (case sq_execute sq tx (correlation_statement backend) (correlation_value request_id) d of
             (Some e, d) \<Rightarrow> (Err e, sq_rollback sq tx d)
           | (None, d) \<Rightarrow> (Ok tx, d)))"

text \<open>The shared cell in the request's extensions: a mutex around the transaction.\<close>

record 'tx request_transaction =
  rt_inner :: "'tx option"
  rt_poisoned :: bool

definition request_transaction_new :: "'tx \<Rightarrow> 'tx request_transaction" where
  "request_transaction_new tx = \<lparr>rt_inner = Some tx, rt_poisoned = False\<rparr>"

definition request_transaction_take :: "'tx request_transaction \<Rightarrow> 'tx option \<times> 'tx request_transaction" where
  "request_transaction_take rt =
     (if rt_poisoned rt then (None, rt) else (rt_inner rt, rt\<lparr>rt_inner := None\<rparr>))"

definition db_tx_not_available :: "error_env \<Rightarrow> response" where
  "db_tx_not_available env = quick_error_response env 500 ''DATABASE_TRANSACTION_NOT_AVAILABLE''
     ''Database transaction not available for this request''"

definition extract_db_tx ::
  "error_env \<Rightarrow> 'tx request_transaction option \<Rightarrow> (response, 'tx) result \<times> 'tx request_transaction option" where
  "extract_db_tx env ext =
     (case ext of
        None \<Rightarrow> (Err (db_tx_not_available env), None)
      | Some rt \<Rightarrow>
          (case request_transaction_take rt of
             (Some tx, rt) \<Rightarrow> (Ok tx, Some rt)
           | (None, rt) \<Rightarrow> (Err (db_tx_not_available env), Some rt)))"

text \<open>The rest of the stack gets the cell of the request's extensions.\<close>

definition transaction_middleware ::
  "('tx, 'pool, 'd) sql_env \<Rightarrow> error_env \<Rightarrow> resolved_backend \<Rightarrow> string option \<Rightarrow>
   ('tx request_transaction \<Rightarrow> 'd \<Rightarrow> response \<times> 'd) \<Rightarrow> 'd \<Rightarrow> response \<times> 'd" where
  "transaction_middleware sq env backend request_id next_run d =
     (case begin_tracked_transaction sq (case request_id of Some r \<Rightarrow> r | None \<Rightarrow> []) backend d of
        (Ok tx, d) \<Rightarrow> next_run (request_transaction_new tx) d
      | (Err _, d) \<Rightarrow> (quick_error_response env 503 ''DATABASE_ERROR'' ''Service temporarily unavailable'', d))"

section \<open>The plugin\<close>

text \<open>What the plugin leaves in the extensions: the pool and the backend.\<close>

definition database_prepare ::
  "('tx, 'pool, 'd) sql_env \<Rightarrow> (string \<Rightarrow> string) \<Rightarrow> (string \<Rightarrow> string option) \<Rightarrow> (string, database_config) result option \<Rightarrow>
   'd \<Rightarrow> (string, 'pool \<times> resolved_backend) result \<times> 'd" where
  "database_prepare sq lower penv section d =
     (case (case section of Some r \<Rightarrow> r | None \<Rightarrow> map_sum db_config_error_text id (database_from_env lower penv)) of
        Err e \<Rightarrow> (Err e, d)
      | Ok c \<Rightarrow>
          (case resolve_backend (dc_backend c) (dc_url c) of
             Err e \<Rightarrow> (Err (db_config_error_text e), d)
           | Ok backend \<Rightarrow>
               (case sq_connect sq (dc_max_connections c) (dc_min_connections c) (dc_acquire_timeout_secs c) (dc_url c) d of
                  (Err e, d) \<Rightarrow> (Err (''Failed to connect to '' @ resolved_backend_text backend @ '' database: '' @ e), d)
                | (Ok pool, d) \<Rightarrow> (Ok (pool, backend), d))))"

definition database_shutdown :: "('tx, 'pool, 'd) sql_env \<Rightarrow> 'pool option \<Rightarrow> 'd \<Rightarrow> 'd" where
  "database_shutdown sq pool d = (case pool of Some p \<Rightarrow> sq_close sq p d | None \<Rightarrow> d)"

section \<open>Properties\<close>

lemma find_sub_char_first:
  "CHR '':'' \<notin> set scheme \<Longrightarrow> find_sub ''://'' (scheme @ ''://'' @ r) = Some (length scheme)"
  by (induction scheme) (auto simp: starts_with_def)

lemma takeWhile_stop: "P \<notin> set a \<Longrightarrow> takeWhile (\<lambda>c. c \<noteq> P) (a @ P # r) = a"
  by (induction a) auto

lemma userinfo_redacted:
  assumes "CHR '':'' \<notin> set scheme" and "CHR ''/'' \<notin> set secret" and "CHR ''@'' \<notin> set secret"
  shows "redact_url_userinfo (scheme @ ''://'' @ secret @ ''@'' @ r) = scheme @ ''://***@'' @ r"
proof -
  have a: "takeWhile (\<lambda>c. c \<noteq> CHR ''/'') (secret @ CHR ''@'' # r) =
      secret @ CHR ''@'' # takeWhile (\<lambda>c. c \<noteq> CHR ''/'') r"
    using assms(2) by (subst takeWhile_append2) auto
  show ?thesis
    using find_sub_char_first [OF assms(1), of "secret @ ''@'' @ r"] takeWhile_stop [OF assms(3)]
    by (simp add: redact_url_userinfo_def Let_def a)
qed

lemma slash_not_redacted:
  assumes "CHR '':'' \<notin> set scheme" and "CHR ''/'' \<notin> set secret" and "CHR ''@'' \<notin> set secret"
  shows "redact_url_userinfo (scheme @ ''://'' @ secret @ ''/'' @ r) = scheme @ ''://'' @ secret @ ''/'' @ r"
proof -
  have "takeWhile (\<lambda>c. c \<noteq> CHR ''/'') (secret @ ''/'' @ r) = secret"
    using takeWhile_stop [OF assms(2)] by simp
  then show ?thesis
    using find_sub_char_first [OF assms(1), of "secret @ ''/'' @ r"] assms(3)
    by (simp add: redact_url_userinfo_def Let_def)
qed

text \<open>redaction hides exactly the text between \<open>://\<close> and the first \<open>@\<close> of the authority: what
  follows that \<open>@\<close> stays, also the rest of a password that contains an \<open>@\<close>; and when a slash comes
  first the URL is kept as it is, userinfo included.\<close>

theorem redact_exact:
  assumes "CHR '':'' \<notin> set scheme" and "CHR ''/'' \<notin> set secret" and "CHR ''@'' \<notin> set secret"
  shows "redact_url_userinfo (scheme @ ''://'' @ secret @ ''@'' @ r) = scheme @ ''://***@'' @ r \<and>
    redact_url_userinfo (scheme @ ''://'' @ secret @ ''/'' @ r) = scheme @ ''://'' @ secret @ ''/'' @ r"
  using userinfo_redacted [OF assms] slash_not_redacted [OF assms] by simp

lemma correlation_value_safe:
  "length (correlation_value rid) \<le> 62 \<and>
   list_all (\<lambda>c. is_ascii_alphanumeric c \<or> c = CHR ''-'' \<or> c = CHR ''|'') (correlation_value rid)"
proof -
  have "list_all (\<lambda>c. is_ascii_alphanumeric c \<or> c = CHR ''|'') ''gasket|''" by code_simp
  then show ?thesis
    by (auto simp: correlation_value_def sanitize_request_id_def list_all_iff dest: in_set_takeD)
qed

text \<open>C22: the transaction middleware runs the rest of the stack exactly when a transaction was begun and
  its correlation value, at most 62 harmless bytes, was set; it hands that transaction to the first
  extractor that asks and to no other, which gets a 500.  Otherwise it answers 503, runs nothing, and
  a transaction whose correlation failed is rolled back.\<close>

theorem transaction_single_owner:
  "(case sq_begin sq d of
      (Err e, d1) \<Rightarrow> (\<forall>next_run. transaction_middleware sq env backend rid next_run d =
        (quick_error_response env 503 ''DATABASE_ERROR'' ''Service temporarily unavailable'', d1))
    | (Ok tx, d1) \<Rightarrow>
        (\<exists>v. length v \<le> 62 \<and> list_all (\<lambda>c. is_ascii_alphanumeric c \<or> c = CHR ''-'' \<or> c = CHR ''|'') v \<and>
          (case sq_execute sq tx (correlation_statement backend) v d1 of
             (Some e, d2) \<Rightarrow> (\<forall>next_run. transaction_middleware sq env backend rid next_run d =
               (quick_error_response env 503 ''DATABASE_ERROR'' ''Service temporarily unavailable'', sq_rollback sq tx d2))
           | (None, d2) \<Rightarrow> (\<exists>cell. (\<forall>next_run. transaction_middleware sq env backend rid next_run d = next_run cell d2) \<and>
               (case extract_db_tx env (Some cell) of (first, ext) \<Rightarrow>
                  first = Ok tx \<and> fst (extract_db_tx env ext) = Err (db_tx_not_available env)))))) \<and>
   rs_status (db_tx_not_available env) = 500"
proof -
  let ?v = "correlation_value (case rid of Some r \<Rightarrow> r | None \<Rightarrow> [])"
  have once: "case extract_db_tx env (Some (request_transaction_new tx)) of (first, ext) \<Rightarrow>
      first = Ok tx \<and> fst (extract_db_tx env ext) = Err (db_tx_not_available env)" for tx :: 'a
    by (simp add: extract_db_tx_def request_transaction_take_def request_transaction_new_def)
  have st: "rs_status (db_tx_not_available env) = 500"
    by (simp add: db_tx_not_available_def quick_error_response_def)
  obtain r d1 where b: "sq_begin sq d = (r, d1)" by fastforce
  show ?thesis
  proof (cases r)
    case (Inl e)
    then show ?thesis
      using b st by (simp add: transaction_middleware_def begin_tracked_transaction_def)
  next
    case (Inr tx)
    obtain r2 d2 where x: "sq_execute sq tx (correlation_statement backend) ?v d1 = (r2, d2)" by fastforce
    have run: "transaction_middleware sq env backend rid next_run d =
        (case r2 of Some e \<Rightarrow> (quick_error_response env 503 ''DATABASE_ERROR'' ''Service temporarily unavailable'', sq_rollback sq tx d2)
         | None \<Rightarrow> next_run (request_transaction_new tx) d2)" for next_run
      using b Inr x by (cases r2) (simp_all add: transaction_middleware_def begin_tracked_transaction_def)
    have "case sq_execute sq tx (correlation_statement backend) ?v d1 of
             (Some e, d2) \<Rightarrow> (\<forall>next_run. transaction_middleware sq env backend rid next_run d =
               (quick_error_response env 503 ''DATABASE_ERROR'' ''Service temporarily unavailable'', sq_rollback sq tx d2))
           | (None, d2) \<Rightarrow> (\<exists>cell. (\<forall>next_run. transaction_middleware sq env backend rid next_run d = next_run cell d2) \<and>
               (case extract_db_tx env (Some cell) of (first, ext) \<Rightarrow>
                  first = Ok tx \<and> fst (extract_db_tx env ext) = Err (db_tx_not_available env)))"
      unfolding x using run once [of tx] by (cases r2) auto
    then show ?thesis
      using b Inr st correlation_value_safe [of "case rid of Some r \<Rightarrow> r | None \<Rightarrow> []"] by auto
  qed
qed

section \<open>Concrete instances\<close>

text \<open>The second half of a password with an \<open>@\<close> stays visible.\<close>

lemma redact_exact_witness:
  "redact_url_userinfo ''postgres://app:pa@ss@db/main'' = ''postgres://***@ss@db/main'' \<and>
   redact_url_userinfo ''postgres://app:pa/ss@db/main'' = ''postgres://app:pa/ss@db/main''"
  using redact_exact [of "''postgres''" "''app:pa''" "''ss@db/main''"] by simp

end
