(* ===== verification/Jwt.thy ===== *)
theory Jwt
  imports Auth_Core Config
begin

text \<open>
  The JWT backend (\<open>auth/backends/jwt.rs\<close>): token extraction, claims mapping, the JWKS key store
  with its cache, key resolution, the backend and its builder.

  The \<open>jsonwebtoken\<close>, \<open>reqwest\<close> and \<open>url\<close> crates are the record \<open>jwt_env\<close>: decoding a token
  header, verifying a token with a key and a validation, building keys, parsing a URL and building the
  client.  \<open>algorithm\<close> and \<open>validation\<close> are that crate's public types, with the documented defaults of
  \<open>Validation::new\<close>.  An instant is a number of nanoseconds.
\<close>

section \<open>Types of the token library\<close>

datatype algorithm =
  HS256 | HS384 | HS512 | ES256 | ES384 | RS256 | RS384 | RS512 | PS256 | PS384 | PS512 | EdDSA

fun algorithm_name :: "algorithm \<Rightarrow> string" where
  "algorithm_name HS256 = ''HS256''"
| "algorithm_name HS384 = ''HS384''"
| "algorithm_name HS512 = ''HS512''"
| "algorithm_name ES256 = ''ES256''"
| "algorithm_name ES384 = ''ES384''"
| "algorithm_name RS256 = ''RS256''"
| "algorithm_name RS384 = ''RS384''"
| "algorithm_name RS512 = ''RS512''"
| "algorithm_name PS256 = ''PS256''"
| "algorithm_name PS384 = ''PS384''"
| "algorithm_name PS512 = ''PS512''"
| "algorithm_name EdDSA = ''EdDSA''"

record validation =
  vd_algorithms :: "algorithm list"
  vd_validate_exp :: bool
  vd_validate_nbf :: bool
  vd_leeway :: nat
  vd_required_claims :: "string set"
  vd_audience :: "string set option"
  vd_issuer :: "string set option"

definition validation_new :: "algorithm \<Rightarrow> validation" where
  "validation_new alg =
     \<lparr>vd_algorithms = [alg], vd_validate_exp = True, vd_validate_nbf = False, vd_leeway = 60,
      vd_required_claims = {''exp''}, vd_audience = None, vd_issuer = None\<rparr>"

datatype jwt_error_kind = ExpiredSignature | InvalidToken | InvalidSignature | OtherJwtError

record jwt_error =
  je_kind :: jwt_error_kind
  je_text :: string

record jwk =
  jwk_kid :: "string option"
  jwk_algorithm :: "algorithm option" \<comment> \<open>the \<open>alg\<close> member, when \<open>Algorithm\<close> parses its text\<close>
  jwk_material :: string

record 'key jwt_env =
  jv_decode_header :: "string \<Rightarrow> (string, string option \<times> algorithm) result"
  jv_decode :: "string \<Rightarrow> 'key \<Rightarrow> validation \<Rightarrow> (jwt_error, json) result"
  jv_from_secret :: "string \<Rightarrow> 'key"
  jv_from_rsa_pem :: "string \<Rightarrow> (string, 'key) result"
  jv_from_ec_pem :: "string \<Rightarrow> (string, 'key) result"
  jv_from_jwk :: "jwk \<Rightarrow> (string, 'key) result"
  jv_parse_jwks :: "string \<Rightarrow> (string, jwk list) result"
  jv_url_parse :: "string \<Rightarrow> (string, string \<times> string option) result" \<comment> \<open>scheme and host\<close>
  jv_client_error :: "nat \<Rightarrow> string option"
  jv_debug :: "string \<Rightarrow> string"

section \<open>Tokens\<close>

datatype token_source = BearerHeader | TokenCookie string | TokenHeader string

definition strip_bearer_prefix :: "string \<Rightarrow> string" where
  "strip_bearer_prefix s =
     (let trimmed = trim_start s in
      if 7 \<le> length trimmed \<and> eq_ignore_ascii_case (take 6 trimmed) ''bearer'' \<and>
         (byte (trimmed ! 6) = 32 \<or> byte (trimmed ! 6) = 9)
      then trim_start (drop 7 trimmed)
      else trimmed)"

fun find_cookie :: "string \<Rightarrow> string option \<Rightarrow> string list \<Rightarrow> string option" where
  "find_cookie prefix found [] = found"
| "find_cookie prefix found (pair # pairs) =
     (case strip_prefix (trim pair) prefix of
        None \<Rightarrow> find_cookie prefix found pairs
      | Some v \<Rightarrow> if found \<noteq> None then None else find_cookie prefix (Some v) pairs)"

fun extract_token :: "token_source \<Rightarrow> headers \<Rightarrow> string option" where
  "extract_token BearerHeader h = Option.bind (hget_str ''authorization'' h) extract_bearer_token"
| "extract_token (TokenCookie name) h =
     Option.bind (hget_str ''cookie'' h) (\<lambda>c. find_cookie (name @ ''='') None (split_char (CHR '';'') c))"
| "extract_token (TokenHeader name) h = map_option strip_bearer_prefix (hget_str (to_ascii_lowercase name) h)"

section \<open>Claims\<close>

fun json_get :: "string \<Rightarrow> json \<Rightarrow> json option" where
  "json_get k (JObj xs) = map_of xs k"
| "json_get k _ = None"

fun json_as_str :: "json \<Rightarrow> string option" where
  "json_as_str (JStr s) = Some s"
| "json_as_str _ = None"

text \<open>The typed attribute \<open>OAuthTokenClaims\<close>.\<close>

type_synonym oauth_token_claims = "string option"

definition scope_claims :: "json \<Rightarrow> string list" where
  "scope_claims claims =
     (case Option.bind (json_get ''scope'' claims) json_as_str of
        Some scope \<Rightarrow> split_whitespace scope
      | None \<Rightarrow> [])"

definition map_standard_claims ::
  "json \<Rightarrow> string \<Rightarrow> oauth_token_claims option \<Rightarrow> (auth_error, oauth_token_claims identity) result" where
  "map_standard_claims claims auth_method oauth_claims =
     (case Option.bind (json_get ''sub'' claims) json_as_str of
        None \<Rightarrow> Err (TokenValidation (''Missing '' @ [char_of (39 :: nat)] @ ''sub'' @ [char_of (39 :: nat)] @ '' claim''))
      | Some subject \<Rightarrow>
          (let i = with_scopes (scope_claims claims) (identity_new subject auth_method);
               i = (case Option.bind (json_get ''name'' claims) json_as_str of
                      Some n \<Rightarrow> with_display_name n i | None \<Rightarrow> i);
               i = (case oauth_claims of Some c \<Rightarrow> with_attribute ''OAuthTokenClaims'' c i | None \<Rightarrow> i)
           in Ok i))"

type_synonym claims_mapper = "json \<Rightarrow> (auth_error, oauth_token_claims identity) result"

definition standard_claims_mapper :: claims_mapper where
  "standard_claims_mapper claims = map_standard_claims claims ''jwt'' None"

datatype client_id_claim = IgnoreClientId | PreserveClientId

record oauth_claims_mapper =
  oc_auth_method :: string
  oc_client_id :: client_id_claim

definition oauth_claims_mapper_default :: oauth_claims_mapper where
  "oauth_claims_mapper_default = \<lparr>oc_auth_method = ''oauth-jwt'', oc_client_id = PreserveClientId\<rparr>"

definition mapper_auth_method :: "string \<Rightarrow> oauth_claims_mapper \<Rightarrow> oauth_claims_mapper" where
  "mapper_auth_method x b = b\<lparr>oc_auth_method := x\<rparr>"

definition preserve_client_id :: "oauth_claims_mapper \<Rightarrow> oauth_claims_mapper" where
  "preserve_client_id m = m\<lparr>oc_client_id := PreserveClientId\<rparr>"

definition ignore_client_id :: "oauth_claims_mapper \<Rightarrow> oauth_claims_mapper" where
  "ignore_client_id m = m\<lparr>oc_client_id := IgnoreClientId\<rparr>"

definition oauth_map_claims :: "oauth_claims_mapper \<Rightarrow> claims_mapper" where
  "oauth_map_claims m claims =
     (let client_id = (case oc_client_id m of
            IgnoreClientId \<Rightarrow> None
          | PreserveClientId \<Rightarrow> Option.bind (json_get ''client_id'' claims) json_as_str);
          oauth_claims = (if oc_client_id m = PreserveClientId then Some client_id else None)
      in map_standard_claims claims (oc_auth_method m) oauth_claims)"

section \<open>The JWKS key store\<close>

datatype jwks_error = HttpStatus nat | BodyTooLarge nat | FetchTask string

fun jwks_error_text :: "jwks_error \<Rightarrow> string" where
  "jwks_error_text (HttpStatus status) = ''JWKS endpoint returned HTTP '' @ show_nat status"
| "jwks_error_text (BodyTooLarge max_bytes) =
     ''JWKS response exceeds maximum body size of '' @ show_nat max_bytes @ '' bytes''"
| "jwks_error_text (FetchTask e) = ''JWKS fetch task did not complete: '' @ e"

record 'key prepared_jwks =
  pj_fetched_at :: nat
  pj_keys :: "string \<rightharpoonup> 'key \<times> algorithm"

record jwks_config =
  jc_url :: string
  jc_cache_ttl :: nat
  jc_max_body_size :: nat
  jc_allowed_algorithms :: "algorithm list"
  jc_audience :: "string option"
  jc_issuer :: "string option"
  jc_validate_exp :: bool
  jc_validate_nbf :: bool
  jc_leeway_secs :: nat

record 'key jwks_store =
  js_cached :: "'key prepared_jwks option"
  js_warned :: "string list" \<comment> \<open>the set of warned pairs, in the order they were logged\<close>
  js_fetches :: nat \<comment> \<open>fetch tasks spawned\<close>

datatype 'key cache_lookup = Hit "'key \<times> algorithm" | FreshButMissing | Stale

definition is_control_byte_char :: "string \<Rightarrow> bool" where
  "is_control_byte_char c \<longleftrightarrow>
     (case c of [a] \<Rightarrow> byte a < 32 \<or> byte a = 127
      | [a, b] \<Rightarrow> byte a = 194 \<and> 128 \<le> byte b \<and> byte b < 160
      | _ \<Rightarrow> False)"

definition sanitize_for_log :: "string \<Rightarrow> string" where
  "sanitize_for_log s =
     (case utf8_chars s of
        Some cs \<Rightarrow> concat (take 128 (filter (\<lambda>c. \<not> is_control_byte_char c) cs))
      | None \<Rightarrow> [])"

definition kid_not_found :: "string \<Rightarrow> auth_error" where
  "kid_not_found kid =
     TokenValidation (''Key '' @ [char_of (39 :: nat)] @ sanitize_for_log kid @ [char_of (39 :: nat)] @ '' not found in JWKS'')"

definition warn_once :: "string \<Rightarrow> string \<Rightarrow> string list \<Rightarrow> string list" where
  "warn_once kid reason warned =
     (let key = reason @ '':'' @ kid in if key \<in> set warned then warned else warned @ [key])"

fun prepare_keys ::
  "'key jwt_env \<Rightarrow> jwk list \<Rightarrow> (string \<rightharpoonup> 'key \<times> algorithm) \<Rightarrow> string list \<Rightarrow>
   (string \<rightharpoonup> 'key \<times> algorithm) \<times> string list" where
  "prepare_keys jv [] keys warned = (keys, warned)"
| "prepare_keys jv (k # ks) keys warned =
     (case jwk_kid k of
        None \<Rightarrow> prepare_keys jv ks keys (warn_once ''<no-kid>'' ''no `kid`'' warned)
      | Some kid \<Rightarrow>
          (case jwk_algorithm k of
             None \<Rightarrow> prepare_keys jv ks keys (warn_once kid ''no-usable-alg'' warned)
           | Some alg \<Rightarrow>
               (case jv_from_jwk jv k of
                  Ok key \<Rightarrow> prepare_keys jv ks (keys(kid \<mapsto> (key, alg))) warned
                | Err _ \<Rightarrow> prepare_keys jv ks keys (warn_once kid ''decode-key-failed'' warned))))"

definition cache_lookup :: "nat \<Rightarrow> nat \<Rightarrow> 'key prepared_jwks option \<Rightarrow> string \<Rightarrow> 'key cache_lookup" where
  "cache_lookup ttl now cached kid =
     (case cached of
        None \<Rightarrow> Stale
      | Some p \<Rightarrow>
          if ttl \<le> now - pj_fetched_at p then Stale
          else (case pj_keys p kid of Some k \<Rightarrow> Hit k | None \<Rightarrow> FreshButMissing))"

text \<open>What the endpoint answers: a transport error, or a status and the chunks of the body, of
  which reading may fail.\<close>

datatype jwks_response = SendError string | Answer nat "(string, string) result list"

fun read_body :: "nat \<Rightarrow> string \<Rightarrow> (string, string) result list \<Rightarrow> (auth_error, string) result" where
  "read_body max_body_size body [] = Ok body"
| "read_body max_body_size body (Err e # chunks) = Err (BackendError e)"
| "read_body max_body_size body (Ok chunk # chunks) =
     (if max_body_size < sat_add64 (length body) (length chunk)
      then Err (BackendError (jwks_error_text (BodyTooLarge max_body_size)))
      else read_body max_body_size (body @ chunk) chunks)"

definition fetch_jwks :: "'key jwt_env \<Rightarrow> jwks_config \<Rightarrow> jwks_response \<Rightarrow> (auth_error, jwk list) result" where
  "fetch_jwks jv c answer =
     (case answer of
        SendError e \<Rightarrow> Err (BackendError e)
      | Answer status chunks \<Rightarrow>
          if \<not> is_success status then Err (BackendError (jwks_error_text (HttpStatus status)))
          else (case read_body (jc_max_body_size c) [] chunks of
                  Err e \<Rightarrow> Err e
                | Ok body \<Rightarrow> (case jv_parse_jwks jv body of Ok ks \<Rightarrow> Ok ks | Err e \<Rightarrow> Err (BackendError e))))"

text \<open>The world around one call: the clock at the first lookup, at the second (after the permit of
  the single-flight semaphore was obtained) and after the fetch, what other tasks did to the store in
  between, the endpoint's answer and whether the detached task failed to complete.\<close>

record 'key jwks_world =
  jw_now1 :: nat
  jw_others :: "'key jwks_store \<Rightarrow> 'key jwks_store"
  jw_now2 :: nat
  jw_answer :: jwks_response
  jw_now3 :: nat
  jw_join_error :: "string option"

definition fetch_task :: "'key jwt_env \<Rightarrow> jwks_config \<Rightarrow> 'key jwks_world \<Rightarrow> 'key jwks_store \<Rightarrow>
    (auth_error, 'key prepared_jwks) result \<times> 'key jwks_store" where
  "fetch_task jv c jw st =
     (case fetch_jwks jv c (jw_answer jw) of
        Err e \<Rightarrow> (Err e, st)
      | Ok jwks \<Rightarrow>
          (let (keys, warned) = prepare_keys jv jwks Map.empty (js_warned st);
               prepared = \<lparr>pj_fetched_at = jw_now3 jw, pj_keys = keys\<rparr>
           in (Ok prepared, st\<lparr>js_cached := Some prepared, js_warned := warned\<rparr>)))"

definition find_key :: "'key jwt_env \<Rightarrow> jwks_config \<Rightarrow> 'key jwks_world \<Rightarrow> string \<Rightarrow> 'key jwks_store \<Rightarrow>
    (auth_error, 'key \<times> algorithm) result \<times> 'key jwks_store" where
  "find_key jv c jw kid st =
     (case cache_lookup (jc_cache_ttl c) (jw_now1 jw) (js_cached st) kid of
        Hit k \<Rightarrow> (Ok k, st)
      | FreshButMissing \<Rightarrow> (Err (kid_not_found kid), st)
      | Stale \<Rightarrow>
          (let st = jw_others jw st in
           case cache_lookup (jc_cache_ttl c) (jw_now2 jw) (js_cached st) kid of
             Hit k \<Rightarrow> (Ok k, st)
           | FreshButMissing \<Rightarrow> (Err (kid_not_found kid), st)
           | Stale \<Rightarrow>
               (let st = st\<lparr>js_fetches := Suc (js_fetches st)\<rparr> in
                case jw_join_error jw of
                  Some e \<Rightarrow> (Err (BackendError (jwks_error_text (FetchTask e))), st)
                | None \<Rightarrow>
                    (case fetch_task jv c jw st of
                       (Err e, st) \<Rightarrow> (Err e, st)
                     | (Ok prepared, st) \<Rightarrow>
                         (case pj_keys prepared kid of
                            Some k \<Rightarrow> (Ok k, st)
                          | None \<Rightarrow> (Err (kid_not_found kid), st))))))"

definition apply_settings ::
  "bool \<Rightarrow> bool \<Rightarrow> nat \<Rightarrow> string option \<Rightarrow> string option \<Rightarrow> validation \<Rightarrow> validation" where
  "apply_settings validate_exp validate_nbf leeway aud iss v =
     (let v = v\<lparr>vd_validate_exp := validate_exp, vd_validate_nbf := validate_nbf, vd_leeway := leeway\<rparr>;
          v = (if \<not> validate_exp then v\<lparr>vd_required_claims := vd_required_claims v - {''exp''}\<rparr> else v);
          v = (case aud of Some a \<Rightarrow> v\<lparr>vd_audience := Some {a}\<rparr> | None \<Rightarrow> v)
      in case iss of Some i \<Rightarrow> v\<lparr>vd_issuer := Some {i}\<rparr> | None \<Rightarrow> v)"

definition resolve_key :: "'key jwt_env \<Rightarrow> jwks_config \<Rightarrow> 'key jwks_world \<Rightarrow> string \<Rightarrow> 'key jwks_store \<Rightarrow>
    (auth_error, 'key \<times> validation) result \<times> 'key jwks_store" where
  "resolve_key jv c jw token st =
     (case jv_decode_header jv token of
        Err e \<Rightarrow> (Err (TokenValidation (''Invalid JWT header: '' @ e)), st)
      | Ok (None, alg) \<Rightarrow>
          (Err (TokenValidation (''JWT missing '' @ [char_of (39 :: nat)] @ ''kid'' @ [char_of (39 :: nat)] @ '' header'')), st)
      | Ok (Some kid, alg) \<Rightarrow>
          if alg \<notin> set (jc_allowed_algorithms c)
          then (Err (TokenValidation (''Algorithm '' @ algorithm_name alg @ '' is not in the JWKS allow-list'')), st)
          else (case find_key jv c jw kid st of
                  (Err e, st) \<Rightarrow> (Err e, st)
                | (Ok (key, key_alg), st) \<Rightarrow>
                    if key_alg \<noteq> alg
                    then (Err (TokenValidation (''JWT alg '' @ algorithm_name alg @ '' does not match JWKS key alg '' @
                           algorithm_name key_alg)), st)
                    else (Ok (key, apply_settings (jc_validate_exp c) (jc_validate_nbf c) (jc_leeway_secs c)
                           (jc_audience c) (jc_issuer c) (validation_new key_alg)), st)))"

section \<open>The backend\<close>

datatype 'key key_resolver = StaticKey 'key validation | Jwks jwks_config

record 'key jwt_backend =
  jb_key_resolver :: "'key key_resolver"
  jb_token_source :: token_source
  jb_claims_mapper :: claims_mapper

definition decode_jwt_error :: "jwt_error \<Rightarrow> auth_error" where
  "decode_jwt_error e =
     (case je_kind e of
        ExpiredSignature \<Rightarrow> TokenExpired
      | InvalidToken \<Rightarrow> InvalidCredentials (''Invalid JWT: '' @ je_text e)
      | InvalidSignature \<Rightarrow> InvalidCredentials (''Invalid JWT: '' @ je_text e)
      | OtherJwtError \<Rightarrow> TokenValidation (''JWT validation failed: '' @ je_text e))"

definition jwt_authenticate ::
  "'key jwt_env \<Rightarrow> 'key jwt_backend \<Rightarrow> 'key jwks_world \<Rightarrow> ('key jwks_store, oauth_token_claims) backend_fn" where
  "jwt_authenticate jv b jw h u st =
     (case extract_token (jb_token_source b) h of
        None \<Rightarrow> (Ok None, st)
      | Some token \<Rightarrow>
          (let (resolved, st) = (case jb_key_resolver b of
                 StaticKey key v \<Rightarrow> (Ok (key, v), st)
               | Jwks c \<Rightarrow> resolve_key jv c jw token st)
           in case resolved of
                Err e \<Rightarrow> (Err e, st)
              | Ok (key, v) \<Rightarrow>
                  (case jv_decode jv token key v of
                     Err e \<Rightarrow> (Err (decode_jwt_error e), st)
                   | Ok claims \<Rightarrow>
                       (case jb_claims_mapper b claims of
                          Err e \<Rightarrow> (Err e, st)
                        | Ok i \<Rightarrow> (Ok (Some i), st)))))"

interpretation jwt: definitive_backend "jwt_authenticate jv b jw" "\<lambda>h u. extract_token (jb_token_source b) h"
  for jv b jw
  by standard (auto simp: jwt_authenticate_def Let_def split: prod.splits sum.splits)

section \<open>The builder\<close>

datatype static_key_source = Hmac string | RsaPem string | EcPem string

record jwt_builder =
  bl_static_key :: "static_key_source option"
  bl_jwks_url :: "string option"
  bl_algorithm :: algorithm
  bl_token_source :: token_source
  bl_claims_mapper :: "claims_mapper option"
  bl_audience :: "string option"
  bl_issuer :: "string option"
  bl_validate_exp :: bool
  bl_validate_nbf :: bool
  bl_leeway_secs :: nat
  bl_jwks_cache_ttl :: nat
  bl_jwks_timeout :: nat
  bl_jwks_max_body_size :: nat
  bl_jwks_allowed_algorithms :: "algorithm list option"
  bl_jwks_allow_http :: bool

definition DEFAULT_JWKS_CACHE_TTL :: nat where "DEFAULT_JWKS_CACHE_TTL = 300 * 10 ^ 9"
definition DEFAULT_JWKS_TIMEOUT :: nat where "DEFAULT_JWKS_TIMEOUT = 10 * 10 ^ 9"
definition DEFAULT_JWKS_MAX_BODY_SIZE :: nat where "DEFAULT_JWKS_MAX_BODY_SIZE = 2 ^ 20"

definition jwt_builder_default :: jwt_builder where
  "jwt_builder_default =
     \<lparr>bl_static_key = None, bl_jwks_url = None, bl_algorithm = HS256, bl_token_source = BearerHeader,
      bl_claims_mapper = None, bl_audience = None, bl_issuer = None, bl_validate_exp = True,
      bl_validate_nbf = True, bl_leeway_secs = 0, bl_jwks_cache_ttl = DEFAULT_JWKS_CACHE_TTL,
      bl_jwks_timeout = DEFAULT_JWKS_TIMEOUT, bl_jwks_max_body_size = DEFAULT_JWKS_MAX_BODY_SIZE,
      bl_jwks_allowed_algorithms = None, bl_jwks_allow_http = False\<rparr>"

definition default_jwks_algorithms :: "algorithm list" where
  "default_jwks_algorithms = [RS256, RS384, RS512, PS256, PS384, PS512, ES256, ES384, EdDSA]"

definition set_hmac_secret :: "string \<Rightarrow> jwt_builder \<Rightarrow> jwt_builder" where
  "set_hmac_secret secret b = b\<lparr>bl_static_key := Some (Hmac secret)\<rparr>"

definition set_rsa_pem :: "string \<Rightarrow> jwt_builder \<Rightarrow> jwt_builder" where
  "set_rsa_pem pem b = b\<lparr>bl_static_key := Some (RsaPem pem), bl_algorithm := RS256\<rparr>"

definition set_ec_pem :: "string \<Rightarrow> jwt_builder \<Rightarrow> jwt_builder" where
  "set_ec_pem pem b = b\<lparr>bl_static_key := Some (EcPem pem), bl_algorithm := ES256\<rparr>"

definition set_jwks_url :: "string \<Rightarrow> jwt_builder \<Rightarrow> jwt_builder" where
  "set_jwks_url url b = b\<lparr>bl_jwks_url := Some url\<rparr>"

definition set_jwks_allowed_algorithms :: "algorithm list \<Rightarrow> jwt_builder \<Rightarrow> jwt_builder" where
  "set_jwks_allowed_algorithms algs b = b\<lparr>bl_jwks_allowed_algorithms := Some algs\<rparr>"

definition set_algorithm :: "algorithm \<Rightarrow> jwt_builder \<Rightarrow> jwt_builder" where
  "set_algorithm a b = b\<lparr>bl_algorithm := a\<rparr>"

definition set_audience :: "string \<Rightarrow> jwt_builder \<Rightarrow> jwt_builder" where
  "set_audience a b = b\<lparr>bl_audience := Some a\<rparr>"

definition set_issuer :: "string \<Rightarrow> jwt_builder \<Rightarrow> jwt_builder" where
  "set_issuer i b = b\<lparr>bl_issuer := Some i\<rparr>"

definition set_jwks_cache_ttl :: "nat \<Rightarrow> jwt_builder \<Rightarrow> jwt_builder" where
  "set_jwks_cache_ttl x b = b\<lparr>bl_jwks_cache_ttl := x\<rparr>"

definition set_jwks_timeout :: "nat \<Rightarrow> jwt_builder \<Rightarrow> jwt_builder" where
  "set_jwks_timeout x b = b\<lparr>bl_jwks_timeout := x\<rparr>"

definition set_jwks_max_body_size :: "nat \<Rightarrow> jwt_builder \<Rightarrow> jwt_builder" where
  "set_jwks_max_body_size x b = b\<lparr>bl_jwks_max_body_size := x\<rparr>"

definition set_jwks_allow_http :: "bool \<Rightarrow> jwt_builder \<Rightarrow> jwt_builder" where
  "set_jwks_allow_http x b = b\<lparr>bl_jwks_allow_http := x\<rparr>"

definition set_token_source :: "token_source \<Rightarrow> jwt_builder \<Rightarrow> jwt_builder" where
  "set_token_source x b = b\<lparr>bl_token_source := x\<rparr>"

definition set_claims_mapper :: "claims_mapper \<Rightarrow> jwt_builder \<Rightarrow> jwt_builder" where
  "set_claims_mapper x b = b\<lparr>bl_claims_mapper := Some x\<rparr>"

definition set_validate_exp :: "bool \<Rightarrow> jwt_builder \<Rightarrow> jwt_builder" where
  "set_validate_exp x b = b\<lparr>bl_validate_exp := x\<rparr>"

definition set_validate_nbf :: "bool \<Rightarrow> jwt_builder \<Rightarrow> jwt_builder" where
  "set_validate_nbf x b = b\<lparr>bl_validate_nbf := x\<rparr>"

definition set_leeway_secs :: "nat \<Rightarrow> jwt_builder \<Rightarrow> jwt_builder" where
  "set_leeway_secs x b = b\<lparr>bl_leeway_secs := x\<rparr>"

definition build_validation :: "jwt_builder \<Rightarrow> validation" where
  "build_validation b =
     apply_settings (bl_validate_exp b) (bl_validate_nbf b) (bl_leeway_secs b) (bl_audience b) (bl_issuer b)
       (validation_new (bl_algorithm b))"

definition build_static_resolver ::
  "'key jwt_env \<Rightarrow> static_key_source \<Rightarrow> jwt_builder \<Rightarrow> (auth_error, 'key key_resolver) result" where
  "build_static_resolver jv source b =
     (let v = build_validation b;
          alg = bl_algorithm b;
          incompatible = (\<lambda>what. Err (Configuration (''Algorithm '' @ algorithm_name alg @ '' is incompatible with '' @ what)))
      in case source of
           Hmac secret \<Rightarrow>
             if alg \<notin> {HS256, HS384, HS512} then incompatible ''HMAC secret''
             else Ok (StaticKey (jv_from_secret jv secret) v)
         | RsaPem pem \<Rightarrow>
             if alg \<notin> {RS256, RS384, RS512, PS256, PS384, PS512} then incompatible ''RSA PEM key''
             else (case jv_from_rsa_pem jv pem of
                     Err e \<Rightarrow> Err (Configuration (''Invalid RSA PEM: '' @ e))
                   | Ok key \<Rightarrow> Ok (StaticKey key v))
         | EcPem pem \<Rightarrow>
             if alg \<notin> {ES256, ES384} then incompatible ''EC PEM key''
             else (case jv_from_ec_pem jv pem of
                     Err e \<Rightarrow> Err (Configuration (''Invalid EC PEM: '' @ e))
                   | Ok key \<Rightarrow> Ok (StaticKey key v)))"

definition build_jwks_resolver ::
  "'key jwt_env \<Rightarrow> string \<Rightarrow> jwt_builder \<Rightarrow> (auth_error, 'key key_resolver) result" where
  "build_jwks_resolver jv url b =
     (case jv_url_parse jv url of
        Err e \<Rightarrow> Err (Configuration (''JWKS URL is not a valid absolute URL ('' @ e @ ''); got '' @ jv_debug jv url))
      | Ok (scheme, host) \<Rightarrow>
          if host = None \<or> host = Some [] then Err (Configuration (''JWKS URL has no host: '' @ jv_debug jv url))
          else if scheme = ''http'' \<and> \<not> bl_jwks_allow_http b
          then Err (Configuration (''JWKS URL must use https:// (got '' @ jv_debug jv url @
                 ''); call jwks_allow_http(true) to opt out''))
          else if scheme \<noteq> ''https'' \<and> scheme \<noteq> ''http''
          then Err (Configuration (''JWKS URL scheme must be http or https (got '' @ jv_debug jv scheme @ '')''))
          else (case jv_client_error jv (bl_jwks_timeout b) of
                  Some e \<Rightarrow> Err (Configuration (''Failed to build JWKS HTTP client: '' @ e))
                | None \<Rightarrow>
                    (let allowed = (case bl_jwks_allowed_algorithms b of Some a \<Rightarrow> a | None \<Rightarrow> default_jwks_algorithms) in
                     if allowed = [] then Err (Configuration ''JWKS allowed_algorithms must not be empty'')
                     else Ok (Jwks \<lparr>jc_url = url, jc_cache_ttl = bl_jwks_cache_ttl b,
                       jc_max_body_size = bl_jwks_max_body_size b, jc_allowed_algorithms = allowed,
                       jc_audience = bl_audience b, jc_issuer = bl_issuer b, jc_validate_exp = bl_validate_exp b,
                       jc_validate_nbf = bl_validate_nbf b, jc_leeway_secs = bl_leeway_secs b\<rparr>))))"

definition jwks_store_new :: "'key jwks_store" where
  "jwks_store_new = \<lparr>js_cached = None, js_warned = [], js_fetches = 0\<rparr>"

definition jwt_backend_of :: "jwt_builder \<Rightarrow> 'key key_resolver \<Rightarrow> 'key jwt_backend" where
  "jwt_backend_of b resolver =
     \<lparr>jb_key_resolver = resolver, jb_token_source = bl_token_source b,
      jb_claims_mapper = (case bl_claims_mapper b of Some m \<Rightarrow> m | None \<Rightarrow> standard_claims_mapper)\<rparr>"

definition jwt_build :: "'key jwt_env \<Rightarrow> jwt_builder \<Rightarrow> (auth_error, 'key jwt_backend) result" where
  "jwt_build jv b =
     (case (bl_static_key b, bl_jwks_url b) of
        (None, None) \<Rightarrow> Err (Configuration
          ''JWT key source is required (call hmac_secret, rsa_pem, ec_pem, or jwks_url)'')
      | (Some _, Some _) \<Rightarrow> Err (Configuration ''JWT backend cannot use both a static key and a JWKS URL'')
      | (Some k, None) \<Rightarrow> map_sum id (jwt_backend_of b) (build_static_resolver jv k b)
      | (None, Some url) \<Rightarrow> map_sum id (jwt_backend_of b) (build_jwks_resolver jv url b))"

section \<open>Properties\<close>

subsection \<open>Where keys come from\<close>

text \<open>An entry of a key set can be used: it has a key id, an algorithm this library knows and material
  that makes a key.\<close>

definition usable_as :: "'key jwt_env \<Rightarrow> jwk \<Rightarrow> string \<Rightarrow> 'key \<times> algorithm \<Rightarrow> bool" where
  "usable_as jv j kid k \<longleftrightarrow> jwk_kid j = Some kid \<and> jwk_algorithm j = Some (snd k) \<and> jv_from_jwk jv j = Ok (fst k)"

definition last_usable :: "'key jwt_env \<Rightarrow> jwk list \<Rightarrow> string \<Rightarrow> 'key \<times> algorithm \<Rightarrow> bool" where
  "last_usable jv ks kid k \<longleftrightarrow> (\<exists>before j after. ks = before @ j # after \<and> usable_as jv j kid k \<and>
     (\<forall>j' \<in> set after. \<forall>k'. \<not> usable_as jv j' kid k'))"

text \<open>An answer of the endpoint serves a key: its status is a 2xx, all chunks of its body were read and
  stay within the configured size, the body is a key set, and the last usable entry of that key id
  is the key.\<close>

definition serves_key :: "'key jwt_env \<Rightarrow> jwks_config \<Rightarrow> jwks_response \<Rightarrow> string \<Rightarrow> 'key \<times> algorithm \<Rightarrow> bool" where
  "serves_key jv c answer kid k \<longleftrightarrow>
     (\<exists>status chunks ks. answer = Answer status (map Ok chunks) \<and> 200 \<le> status \<and> status < 300 \<and>
        (length (concat chunks) \<le> jc_max_body_size c \<or> 2 ^ 64 - 1 \<le> jc_max_body_size c) \<and>
        jv_parse_jwks jv (concat chunks) = Ok ks \<and> last_usable jv ks kid k)"

text \<open>The snapshot in the store holds exactly the keys that one of the answers \<open>A\<close> serves.\<close>

definition store_from :: "'key jwt_env \<Rightarrow> jwks_config \<Rightarrow> jwks_response set \<Rightarrow> 'key jwks_store \<Rightarrow> bool" where
  "store_from jv c A st \<longleftrightarrow>
     (case js_cached st of None \<Rightarrow> True
      | Some p \<Rightarrow> \<exists>answer \<in> A. \<forall>kid k. pj_keys p kid = Some k \<longleftrightarrow> serves_key jv c answer kid k)"

lemma last_usable_Nil [simp]: "\<not> last_usable jv [] kid k"
  by (simp add: last_usable_def)

lemma last_usable_Cons:
  "last_usable jv (j # ks) kid k \<longleftrightarrow>
     last_usable jv ks kid k \<or> usable_as jv j kid k \<and> (\<forall>j' \<in> set ks. \<forall>k'. \<not> usable_as jv j' kid k')"
proof
  assume "last_usable jv (j # ks) kid k"
  then obtain before i after where "j # ks = before @ i # after" "usable_as jv i kid k"
    "\<forall>j' \<in> set after. \<forall>k'. \<not> usable_as jv j' kid k'" by (auto simp: last_usable_def)
  then show "last_usable jv ks kid k \<or> usable_as jv j kid k \<and> (\<forall>j' \<in> set ks. \<forall>k'. \<not> usable_as jv j' kid k')"
    by (cases before) (auto simp: last_usable_def, blast)
next
  assume "last_usable jv ks kid k \<or> usable_as jv j kid k \<and> (\<forall>j' \<in> set ks. \<forall>k'. \<not> usable_as jv j' kid k')"
  then show "last_usable jv (j # ks) kid k"
  proof
    assume "last_usable jv ks kid k"
    then obtain before i after where "ks = before @ i # after" "usable_as jv i kid k"
      "\<forall>j' \<in> set after. \<forall>k'. \<not> usable_as jv j' kid k'" by (auto simp: last_usable_def)
    then show ?thesis unfolding last_usable_def by (intro exI [of _ "j # before"]) auto
  next
    assume "usable_as jv j kid k \<and> (\<forall>j' \<in> set ks. \<forall>k'. \<not> usable_as jv j' kid k')"
    then show ?thesis unfolding last_usable_def by (intro exI [of _ "[]"]) auto
  qed
qed

lemma prepare_keys_last:
  "fst (prepare_keys jv ks keys warned) kid = Some k \<longleftrightarrow>
     last_usable jv ks kid k \<or> keys kid = Some k \<and> (\<forall>j \<in> set ks. \<forall>k'. \<not> usable_as jv j kid k')"
proof (induction jv ks keys warned rule: prepare_keys.induct)
  case (2 jv j ks keys warned)
  show ?case
  proof (cases "\<exists>i alg key. jwk_kid j = Some i \<and> jwk_algorithm j = Some alg \<and> jv_from_jwk jv j = Ok key")
    case True
    then obtain i alg key where j: "jwk_kid j = Some i" "jwk_algorithm j = Some alg" "jv_from_jwk jv j = Ok key"
      by blast
    then have "usable_as jv j kid k' \<longleftrightarrow> kid = i \<and> k' = (key, alg)" for k'
      by (auto simp: usable_as_def prod_eq_iff)
    moreover have "fst (prepare_keys jv ks (keys(i \<mapsto> (key, alg))) warned) kid = Some k \<longleftrightarrow>
        last_usable jv ks kid k \<or> (keys(i \<mapsto> (key, alg))) kid = Some k \<and> (\<forall>j \<in> set ks. \<forall>k'. \<not> usable_as jv j kid k')"
      by (rule "2.IH"(4) [OF j])
    ultimately show ?thesis using j by (cases "kid = i") (auto simp: last_usable_Cons)
  next
    case False
    then have "\<not> usable_as jv j kid k'" for k' by (auto simp: usable_as_def)
    then show ?thesis using "2.IH" False by (auto simp: last_usable_Cons split: option.split sum.split)
  qed
qed simp

lemma read_body_chunks:
  "read_body m body chunks = Ok text \<Longrightarrow> \<exists>cs. chunks = map Ok cs \<and> text = body @ concat cs"
proof (induction m body chunks rule: read_body.induct)
  case (3 m body chunk chunks)
  then obtain cs where "chunks = map Ok cs" "text = (body @ chunk) @ concat cs"
    by (auto split: if_splits)
  then show ?case by (intro exI [of _ "chunk # cs"]) simp
qed auto

lemma read_body_bound:
  "read_body m body chunks = Ok text \<Longrightarrow> length body \<le> m \<or> u64_max \<le> m \<Longrightarrow> length text \<le> m \<or> u64_max \<le> m"
  by (induction m body chunks rule: read_body.induct) (auto simp: sat_add64_def split: if_splits)

lemma fetch_jwks_serves:
  assumes "fetch_jwks jv c answer = Ok ks"
  shows "serves_key jv c answer kid k \<longleftrightarrow> last_usable jv ks kid k"
proof -
  obtain status chunks t where a: "answer = Answer status chunks" "200 \<le> status" "status < 300"
    "read_body (jc_max_body_size c) [] chunks = Ok t" "jv_parse_jwks jv t = Ok ks"
    using assms by (auto simp: fetch_jwks_def is_success_def split: jwks_response.splits if_splits sum.splits)
  obtain cs where cs: "chunks = map Ok cs" "t = concat cs"
    using read_body_chunks [OF a(4)] by auto
  have "length (concat cs) \<le> jc_max_body_size c \<or> 2 ^ 64 - 1 \<le> jc_max_body_size c"
    using read_body_bound [OF a(4)] by (simp add: cs u64_max_def)
  moreover have "map Ok cs = (map Ok ds :: (string, string) result list) \<longleftrightarrow> cs = ds" for ds
    by (simp add: inj_map_eq_map inj_def)
  ultimately show ?thesis using a cs by (auto simp: serves_key_def)
qed

lemma fetch_task_from:
  assumes "fetch_task jv c jw st = (r, st')" and "store_from jv c A st"
  shows "store_from jv c (insert (jw_answer jw) A) st' \<and>
    (\<forall>p kid k. r = Ok p \<longrightarrow> pj_keys p kid = Some k \<longrightarrow> serves_key jv c (jw_answer jw) kid k)"
proof (cases "fetch_jwks jv c (jw_answer jw)")
  case (Inl e)
  then show ?thesis using assms by (auto simp: fetch_task_def store_from_def split: option.splits)
next
  case (Inr ks)
  obtain keys warned where k: "prepare_keys jv ks Map.empty (js_warned st) = (keys, warned)" by fastforce
  have "keys kid = Some k \<longleftrightarrow> serves_key jv c (jw_answer jw) kid k" for kid k
    using prepare_keys_last [of jv ks Map.empty "js_warned st" kid k] fetch_jwks_serves [OF Inr] by (simp add: k)
  then show ?thesis using assms(1) Inr k by (auto simp: fetch_task_def store_from_def Let_def)
qed

lemma cache_lookup_from:
  assumes "store_from jv c A st" and "cache_lookup ttl now (js_cached st) kid = Hit k"
  shows "\<exists>answer \<in> A. serves_key jv c answer kid k"
  using assms by (auto simp: store_from_def cache_lookup_def split: option.splits if_splits)

lemma store_from_mono: "store_from jv c A st \<Longrightarrow> A \<subseteq> B \<Longrightarrow> store_from jv c B st"
  by (auto simp: store_from_def split: option.splits)

lemma find_key_from:
  assumes "store_from jv c A st" and "store_from jv c A (jw_others jw st)" and "find_key jv c jw kid st = (r, st')"
  defines "B \<equiv> insert (jw_answer jw) A"
  shows "store_from jv c B st' \<and> (\<forall>k. r = Ok k \<longrightarrow> (\<exists>answer \<in> B. serves_key jv c answer kid k))"
proof -
  define st1 where "st1 = jw_others jw st"
  define st2 where "st2 = st1\<lparr>js_fetches := Suc (js_fetches st1)\<rparr>"
  have from1: "store_from jv c A st1" using assms(2) by (simp add: st1_def)
  then have from2: "store_from jv c A st2" by (simp add: st2_def store_from_def)
  have mono: "store_from jv c B st" "store_from jv c B st1" "store_from jv c B st2"
    using assms(1) from1 from2 by (auto simp: B_def intro: store_from_mono)
  obtain r1 st3 where f: "fetch_task jv c jw st2 = (r1, st3)" by fastforce
  note fetched = fetch_task_from [OF f from2, folded B_def]
  have "jw_answer jw \<in> B" by (simp add: B_def)
  then show ?thesis
    using assms(3) mono fetched
    by (auto simp: find_key_def Let_def f simp flip: st1_def st2_def
        split: cache_lookup.splits option.splits sum.splits) (blast intro: cache_lookup_from)+
qed

text \<open>The validation a key is used with.\<close>

definition configured_validation ::
  "algorithm \<Rightarrow> bool \<Rightarrow> bool \<Rightarrow> nat \<Rightarrow> string option \<Rightarrow> string option \<Rightarrow> validation" where
  "configured_validation alg validate_exp validate_nbf leeway aud iss =
     \<lparr>vd_algorithms = [alg], vd_validate_exp = validate_exp, vd_validate_nbf = validate_nbf, vd_leeway = leeway,
      vd_required_claims = (if validate_exp then {''exp''} else {}),
      vd_audience = map_option (\<lambda>a. {a}) aud, vd_issuer = map_option (\<lambda>i. {i}) iss\<rparr>"

lemma apply_settings_new:
  "apply_settings e n l aud iss (validation_new alg) = configured_validation alg e n l aud iss"
  by (auto simp: apply_settings_def Let_def validation_new_def configured_validation_def split: option.split)

lemma resolve_key_sound:
  assumes "store_from jv c A st" and "store_from jv c A (jw_others jw st)"
    and "resolve_key jv c jw token st = (Ok (key, v), st')"
  shows "\<exists>kid alg. jv_decode_header jv token = Ok (Some kid, alg) \<and> alg \<in> set (jc_allowed_algorithms c) \<and>
    (\<exists>answer \<in> insert (jw_answer jw) A. serves_key jv c answer kid (key, alg)) \<and>
    v = configured_validation alg (jc_validate_exp c) (jc_validate_nbf c) (jc_leeway_secs c) (jc_audience c) (jc_issuer c) \<and>
    store_from jv c (insert (jw_answer jw) A) st'"
proof -
  obtain kid alg where header: "jv_decode_header jv token = Ok (Some kid, alg)"
    and allowed: "alg \<in> set (jc_allowed_algorithms c)"
    using assms(3) by (auto simp: resolve_key_def split: sum.splits option.splits if_splits)
  obtain r st1 where f: "find_key jv c jw kid st = (r, st1)" by fastforce
  obtain k where k: "r = Ok k" using assms(3) header allowed f
    by (cases r) (auto simp: resolve_key_def)
  obtain key1 alg1 where pair: "k = (key1, alg1)" by fastforce
  have "alg1 = alg" "key1 = key" "st1 = st'"
    "v = configured_validation alg (jc_validate_exp c) (jc_validate_nbf c) (jc_leeway_secs c) (jc_audience c) (jc_issuer c)"
    using assms(3) header allowed f k pair by (auto simp: resolve_key_def apply_settings_new split: if_splits)
  with find_key_from [OF assms(1,2) f] k pair header allowed show ?thesis by auto
qed


subsection \<open>How often the endpoint is asked\<close>

definition fresh :: "jwks_config \<Rightarrow> nat \<Rightarrow> 'key jwks_store \<Rightarrow> bool" where
  "fresh c now st \<longleftrightarrow>
     (case js_cached st of None \<Rightarrow> False | Some p \<Rightarrow> now - pj_fetched_at p < jc_cache_ttl c)"

lemma cache_lookup_fresh:
  "(cache_lookup (jc_cache_ttl c) now (js_cached st) kid = Stale) \<longleftrightarrow> \<not> fresh c now st"
  by (auto simp: cache_lookup_def fresh_def split: option.splits)

lemma fetch_task_fetches: "js_fetches (snd (fetch_task jv c jw st)) = js_fetches st"
  by (auto simp: fetch_task_def Let_def split: sum.splits prod.splits)

text \<open>a fresh snapshot answers every key id, known or not, without asking the endpoint, so random
  key ids cause no requests; a stale one is fetched once, after waiting for the permit and finding it
  still stale; and a failed fetch keeps the old snapshot.\<close>

theorem find_key_fetches:
  "let st1 = jw_others jw st; out = find_key jv c jw kid st in
   (if fresh c (jw_now1 jw) st then snd out = st
    else if fresh c (jw_now2 jw) st1 then snd out = st1
    else js_fetches (snd out) = Suc (js_fetches st1) \<and>
      (case fst out of
         Err (BackendError _) \<Rightarrow> js_cached (snd out) = js_cached st1
       | _ \<Rightarrow> (\<exists>p. js_cached (snd out) = Some p \<and> pj_fetched_at p = jw_now3 jw)))"
proof -
  let ?l1 = "cache_lookup (jc_cache_ttl c) (jw_now1 jw) (js_cached st) kid"
  define st1 where "st1 = jw_others jw st"
  let ?l2 = "cache_lookup (jc_cache_ttl c) (jw_now2 jw) (js_cached st1) kid"
  define st2 where "st2 = st1\<lparr>js_fetches := Suc (js_fetches st1)\<rparr>"
  have out: "find_key jv c jw kid st =
     (case ?l1 of Hit k \<Rightarrow> (Ok k, st) | FreshButMissing \<Rightarrow> (Err (kid_not_found kid), st)
      | Stale \<Rightarrow> (case ?l2 of Hit k \<Rightarrow> (Ok k, st1) | FreshButMissing \<Rightarrow> (Err (kid_not_found kid), st1)
        | Stale \<Rightarrow> (case jw_join_error jw of
              Some e \<Rightarrow> (Err (BackendError (jwks_error_text (FetchTask e))), st2)
            | None \<Rightarrow> (case fetch_task jv c jw st2 of (Err e, st) \<Rightarrow> (Err e, st)
                | (Ok prepared, st) \<Rightarrow> (case pj_keys prepared kid of Some k \<Rightarrow> (Ok k, st)
                    | None \<Rightarrow> (Err (kid_not_found kid), st))))))"
    unfolding find_key_def Let_def st1_def st2_def by (rule refl)
  have f1: "fresh c (jw_now1 jw) st \<longleftrightarrow> ?l1 \<noteq> Stale" and f2: "fresh c (jw_now2 jw) st1 \<longleftrightarrow> ?l2 \<noteq> Stale"
    using cache_lookup_fresh by auto
  have body: "read_body m acc ch = Err e \<Longrightarrow> \<exists>t. e = BackendError t" for m acc ch e
    by (induction m acc ch rule: read_body.induct) (auto split: if_splits)
  show ?thesis
  proof (cases "?l1 = Stale \<and> ?l2 = Stale \<and> jw_join_error jw = None")
    case True
    obtain r st3 where f: "fetch_task jv c jw st2 = (r, st3)" by fastforce
    have n: "js_fetches st3 = Suc (js_fetches st1)"
      using fetch_task_fetches [of jv c jw st2] f by (simp add: st2_def)
    have failed: "js_cached st3 = js_cached st1 \<and> (\<exists>t. e = BackendError t)" if "r = Err e" for e
      using f that body
      by (auto simp: fetch_task_def fetch_jwks_def st2_def Let_def split: sum.splits prod.splits jwks_response.splits if_splits)
    have fetched: "js_cached st3 = Some p \<and> pj_fetched_at p = jw_now3 jw" if "r = Ok p" for p
      using f that by (auto simp: fetch_task_def Let_def split: sum.splits prod.splits)
    have out': "find_key jv c jw kid st = (case r of Err e \<Rightarrow> (Err e, st3)
        | Ok p \<Rightarrow> (case pj_keys p kid of Some k \<Rightarrow> (Ok k, st3) | None \<Rightarrow> (Err (kid_not_found kid), st3)))"
      using True f by (simp add: out)
    show ?thesis
      using True n failed fetched
      by (cases r) (auto simp: out' cache_lookup_fresh Let_def kid_not_found_def simp flip: st1_def split: option.splits)
  next
    case False
    then show ?thesis
      by (auto simp: out Let_def st2_def f1 f2 simp flip: st1_def split: cache_lookup.splits option.splits)
  qed
qed

subsection \<open>Cookies and configuration\<close>

lemma find_cookie_Some:
  "find_cookie prefix (Some v) pairs =
     (if List.map_filter (\<lambda>p. strip_prefix (trim p) prefix) pairs = [] then Some v else None)"
  by (induction pairs) (auto simp: List.map_filter_simps split: option.splits)

lemma find_cookie_None:
  "find_cookie prefix None pairs = Some v \<longleftrightarrow> List.map_filter (\<lambda>p. strip_prefix (trim p) prefix) pairs = [v]"
  by (induction pairs) (auto simp: List.map_filter_simps find_cookie_Some split: option.splits)

text \<open>a cookie source yields a token exactly when one and only one pair of the (first) \<open>Cookie\<close>
  header has the name; a shadowed cookie yields none, and then the backend defers: it does not
  answer that credentials are missing.\<close>

theorem cookie_token_unique:
  "(extract_token (TokenCookie name) h = Some v \<longleftrightarrow>
     (\<exists>c. hget_str ''cookie'' h = Some c \<and>
       List.map_filter (\<lambda>p. strip_prefix (trim p) (name @ ''='')) (split_char (CHR '';'') c) = [v])) \<and>
   (case extract_token (TokenCookie name) h of
      None \<Rightarrow> jwt_authenticate jv (b\<lparr>jb_token_source := TokenCookie name\<rparr>) jw h u st = (Ok None, st)
    | Some _ \<Rightarrow> fst (jwt_authenticate jv (b\<lparr>jb_token_source := TokenCookie name\<rparr>) jw h u st) \<noteq> Ok None)"
proof
  show "extract_token (TokenCookie name) h = Some v \<longleftrightarrow>
     (\<exists>c. hget_str ''cookie'' h = Some c \<and>
       List.map_filter (\<lambda>p. strip_prefix (trim p) (name @ ''='')) (split_char (CHR '';'') c) = [v])"
    by (auto simp: bind_eq_Some_conv find_cookie_None)
  show "case extract_token (TokenCookie name) h of
      None \<Rightarrow> jwt_authenticate jv (b\<lparr>jb_token_source := TokenCookie name\<rparr>) jw h u st = (Ok None, st)
    | Some _ \<Rightarrow> fst (jwt_authenticate jv (b\<lparr>jb_token_source := TokenCookie name\<rparr>) jw h u st) \<noteq> Ok None"
    by (cases "extract_token (TokenCookie name) h")
      (simp_all add: jwt.defers jwt.definitive del: extract_token.simps)
qed

lemma build_static_resolver_iff:
  "build_static_resolver jv source b = Ok r \<longleftrightarrow>
     (\<exists>key. (case source of
         Hmac s \<Rightarrow> bl_algorithm b \<in> {HS256, HS384, HS512} \<and> key = jv_from_secret jv s
       | RsaPem p \<Rightarrow> bl_algorithm b \<in> {RS256, RS384, RS512, PS256, PS384, PS512} \<and> jv_from_rsa_pem jv p = Ok key
       | EcPem p \<Rightarrow> bl_algorithm b \<in> {ES256, ES384} \<and> jv_from_ec_pem jv p = Ok key) \<and>
      r = StaticKey key (configured_validation (bl_algorithm b) (bl_validate_exp b) (bl_validate_nbf b)
        (bl_leeway_secs b) (bl_audience b) (bl_issuer b)))"
  by (cases source)
    (simp_all add: build_static_resolver_def Let_def build_validation_def apply_settings_new eq_commute [of r]
      split: sum.split)

lemma build_jwks_resolver_iff:
  "build_jwks_resolver jv url b = Ok r \<longleftrightarrow>
     (\<exists>scheme host. jv_url_parse jv url = Ok (scheme, Some host) \<and> host \<noteq> [] \<and>
        (scheme = ''https'' \<or> scheme = ''http'' \<and> bl_jwks_allow_http b)) \<and>
     jv_client_error jv (bl_jwks_timeout b) = None \<and> bl_jwks_allowed_algorithms b \<noteq> Some [] \<and>
     r = Jwks \<lparr>jc_url = url, jc_cache_ttl = bl_jwks_cache_ttl b, jc_max_body_size = bl_jwks_max_body_size b,
       jc_allowed_algorithms = (case bl_jwks_allowed_algorithms b of Some a \<Rightarrow> a | None \<Rightarrow> default_jwks_algorithms),
       jc_audience = bl_audience b, jc_issuer = bl_issuer b, jc_validate_exp = bl_validate_exp b,
       jc_validate_nbf = bl_validate_nbf b, jc_leeway_secs = bl_leeway_secs b\<rparr>"
proof (cases "jv_url_parse jv url")
  case (Inr sh)
  moreover obtain scheme host where "sh = (scheme, host)" by fastforce
  ultimately show ?thesis
    by (cases host) (auto simp: build_jwks_resolver_def Let_def default_jwks_algorithms_def split: option.split)
qed (simp add: build_jwks_resolver_def)

lemma jwt_backend_of_iff:
  "backend = jwt_backend_of b r \<longleftrightarrow> jb_key_resolver backend = r \<and> jb_token_source backend = bl_token_source b \<and>
     jb_claims_mapper backend = (case bl_claims_mapper b of Some m \<Rightarrow> m | None \<Rightarrow> standard_claims_mapper)"
  by (cases backend) (auto simp: jwt_backend_of_def)

lemma jwt_build_iff:
  "jwt_build jv b = Ok backend \<longleftrightarrow>
     (\<exists>r. backend = jwt_backend_of b r \<and>
       ((\<exists>source. bl_static_key b = Some source \<and> bl_jwks_url b = None \<and> build_static_resolver jv source b = Ok r) \<or>
        (\<exists>url. bl_static_key b = None \<and> bl_jwks_url b = Some url \<and> build_jwks_resolver jv url b = Ok r)))"
proof -
  have "map_sum id f x = Ok y \<longleftrightarrow> (\<exists>r. y = f r \<and> x = Ok r)" for f :: "'a key_resolver \<Rightarrow> 'a jwt_backend"
      and x :: "(auth_error, 'a key_resolver) result" and y
    by (cases x) auto
  then show ?thesis by (auto simp: jwt_build_def split: option.split)
qed

lemma jwt_build_error: "jwt_build jv b = Err e \<Longrightarrow> \<exists>t. e = Configuration t"
  by (auto simp: jwt_build_def build_static_resolver_def build_jwks_resolver_def Let_def map_sum_def
      split: option.splits sum.splits static_key_source.splits if_splits)

text \<open>C37: the builder makes a backend exactly from one key source, and exactly which one.  A static key is
  an HMAC secret, an RSA key or an EC key that parses, with an algorithm of its own family, and is
  used with a validation of that algorithm alone and of the configured times, leeway, audience and
  issuer.  A JWKS URL parses and has a host, is \<open>https\<close> unless plain HTTP was allowed, its client can
  be built, and its allow-list is not empty; the key store works with the configured lifetime, body
  size, allow-list (by default the asymmetric algorithms), times, leeway, audience and issuer.
  Token source and claims mapper are the configured ones.  Every other configuration is refused
  with a configuration error.\<close>

theorem jwt_build_sound:
  "(jwt_build jv b = Ok backend \<longleftrightarrow>
     jb_token_source backend = bl_token_source b \<and>
     jb_claims_mapper backend = (case bl_claims_mapper b of Some m \<Rightarrow> m | None \<Rightarrow> standard_claims_mapper) \<and>
     ((\<exists>source key. bl_static_key b = Some source \<and> bl_jwks_url b = None \<and>
         (case source of
            Hmac s \<Rightarrow> bl_algorithm b \<in> {HS256, HS384, HS512} \<and> key = jv_from_secret jv s
          | RsaPem p \<Rightarrow> bl_algorithm b \<in> {RS256, RS384, RS512, PS256, PS384, PS512} \<and> jv_from_rsa_pem jv p = Ok key
          | EcPem p \<Rightarrow> bl_algorithm b \<in> {ES256, ES384} \<and> jv_from_ec_pem jv p = Ok key) \<and>
         jb_key_resolver backend = StaticKey key
           \<lparr>vd_algorithms = [bl_algorithm b], vd_validate_exp = bl_validate_exp b, vd_validate_nbf = bl_validate_nbf b,
            vd_leeway = bl_leeway_secs b, vd_required_claims = (if bl_validate_exp b then {''exp''} else {}),
            vd_audience = map_option (\<lambda>a. {a}) (bl_audience b), vd_issuer = map_option (\<lambda>i. {i}) (bl_issuer b)\<rparr>) \<or>
      (\<exists>url scheme host. bl_static_key b = None \<and> bl_jwks_url b = Some url \<and>
         jv_url_parse jv url = Ok (scheme, Some host) \<and> host \<noteq> [] \<and>
         (scheme = ''https'' \<or> scheme = ''http'' \<and> bl_jwks_allow_http b) \<and>
         jv_client_error jv (bl_jwks_timeout b) = None \<and> bl_jwks_allowed_algorithms b \<noteq> Some [] \<and>
         jb_key_resolver backend = Jwks
           \<lparr>jc_url = url, jc_cache_ttl = bl_jwks_cache_ttl b, jc_max_body_size = bl_jwks_max_body_size b,
            jc_allowed_algorithms = (case bl_jwks_allowed_algorithms b of Some a \<Rightarrow> a
              | None \<Rightarrow> [RS256, RS384, RS512, PS256, PS384, PS512, ES256, ES384, EdDSA]),
            jc_audience = bl_audience b, jc_issuer = bl_issuer b, jc_validate_exp = bl_validate_exp b,
            jc_validate_nbf = bl_validate_nbf b, jc_leeway_secs = bl_leeway_secs b\<rparr>))) \<and>
   (case jwt_build jv b of Ok _ \<Rightarrow> True | Err e \<Rightarrow> \<exists>t. e = Configuration t)"
proof
  show "case jwt_build jv b of Ok _ \<Rightarrow> True | Err e \<Rightarrow> \<exists>t. e = Configuration t"
    by (auto simp: jwt_build_error split: sum.split)
qed (unfold jwt_build_iff jwt_backend_of_iff build_static_resolver_iff build_jwks_resolver_iff
    configured_validation_def default_jwks_algorithms_def, blast)

text \<open>an identity mapped from standard or OAuth claims has the \<open>sub\<close> claim as subject and the words of
  \<open>scope\<close> as scopes, and is never privileged and never a service account, whatever the claims say.\<close>

theorem mapped_identity_unprivileged:
  assumes "oauth_map_claims m claims = Ok i \<or> standard_claims_mapper claims = Ok i"
  shows "Option.bind (json_get ''sub'' claims) json_as_str = Some (id_subject i) \<and>
    id_scopes i = set (scope_claims claims) \<and> \<not> id_privileged i \<and> \<not> id_service_account i"
proof -
  have "map_standard_claims claims am oc = Ok i \<Longrightarrow> ?thesis" for am oc
    by (auto simp: map_standard_claims_def Let_def with_attribute_def with_display_name_def with_scopes_def
        identity_new_def split: option.splits)
  with assms show ?thesis by (auto simp: oauth_map_claims_def standard_claims_mapper_def Let_def)
qed

section \<open>Concrete instances\<close>

text \<open>Tokens \<open>t\<close> with key id \<open>k1\<close> and algorithm RS256; a key is its material.\<close>

definition demo_jv :: "string jwt_env" where
  "demo_jv = \<lparr>jv_decode_header = (\<lambda>t. Ok (Some ''k1'', RS256)),
     jv_decode = (\<lambda>t key v. Ok (JObj [(''scope'', JStr ''a b''), (''sub'', JStr ''alice'')])),
     jv_from_secret = (\<lambda>s. s), jv_from_rsa_pem = Ok, jv_from_ec_pem = Ok,
     jv_from_jwk = (\<lambda>j. Ok (jwk_material j)),
     jv_parse_jwks = (\<lambda>body. Ok [\<lparr>jwk_kid = Some ''k1'', jwk_algorithm = Some RS256, jwk_material = body\<rparr>]),
     jv_url_parse = (\<lambda>u. Ok (''https'', Some ''auth.example.com'')), jv_client_error = (\<lambda>_. None),
     jv_debug = (\<lambda>s. s)\<rparr>"

definition demo_jw :: "string jwks_world" where
  "demo_jw = \<lparr>jw_now1 = 5, jw_others = (\<lambda>st. st), jw_now2 = 6, jw_answer = Answer 200 [Ok ''pem''],
     jw_now3 = 7, jw_join_error = None\<rparr>"

definition demo_jwks_builder :: jwt_builder where
  "demo_jwks_builder = set_jwks_url ''https://auth.example.com/jwks'' jwt_builder_default"

definition demo_jwks :: jwks_config where
  "demo_jwks = \<lparr>jc_url = ''https://auth.example.com/jwks'', jc_cache_ttl = DEFAULT_JWKS_CACHE_TTL,
     jc_max_body_size = DEFAULT_JWKS_MAX_BODY_SIZE, jc_allowed_algorithms = default_jwks_algorithms,
     jc_audience = None, jc_issuer = None, jc_validate_exp = True, jc_validate_nbf = True, jc_leeway_secs = 0\<rparr>"

definition demo_jwt :: "string jwt_backend" where
  "demo_jwt = \<lparr>jb_key_resolver = Jwks demo_jwks, jb_token_source = BearerHeader, jb_claims_mapper = standard_claims_mapper\<rparr>"

lemma demo_jwt_built: "jwt_build demo_jv demo_jwks_builder = Ok demo_jwt"
  by (simp add: jwt_build_def demo_jwks_builder_def set_jwks_url_def jwt_builder_default_def
      build_jwks_resolver_def demo_jv_def jwt_backend_of_def demo_jwt_def demo_jwks_def
      default_jwks_algorithms_def)

lemma demo_claims:
  "standard_claims_mapper (JObj [(''scope'', JStr ''a b''), (''sub'', JStr ''alice'')]) =
     Ok (with_scopes [''a'', ''b''] (identity_new ''alice'' ''jwt''))"
proof -
  have "split_whitespace ''a b'' = [''a'', ''b'']" by code_simp
  then show ?thesis
    by (simp add: standard_claims_mapper_def map_standard_claims_def scope_claims_def)
qed

lemma mapped_identity_unprivileged_witness:
  "\<exists>i. standard_claims_mapper (JObj [(''scope'', JStr ''a b''), (''sub'', JStr ''alice'')]) = Ok i \<and>
     \<not> id_privileged i \<and> \<not> id_service_account i"
  using mapped_identity_unprivileged [OF disjI2, OF demo_claims] demo_claims by blast


end
