(* ===== verification/Redaction.thy ===== *)
theory Redaction
  imports Database Auth_Middleware Jwt Plugin_Engine Cache_Store
begin

text \<open>
  The \<open>Debug\<close> output of the values that hold secrets or code: configurations (\<open>config.rs\<close>,
  \<open>db/config.rs\<close>), authentication backends (\<open>auth/backends/\<close>), the chain and its state
  (\<open>auth/chain.rs\<close>, \<open>auth/middleware.rs\<close>), and the application with its contexts (\<open>plugin.rs\<close>,
  \<open>plugin/engine.rs\<close>).  It ends up in logs and in panic messages, so it must not depend on a secret.

  \<open>dbg\<close> is the \<open>Debug\<close> of a string (quoted and escaped by the Unicode tables), \<open>dur\<close> that of a
  \<open>Duration\<close>, \<open>hash_keys\<close> the order in which a hash map lists its keys.
\<close>

section \<open>The formatter\<close>

text \<open>\<open>debug_struct\<close> with its fields, ended by \<open>finish\<close> or by \<open>finish_non_exhaustive\<close>; a tuple of one
  field, a list and an option.\<close>

definition debug_fields :: "string \<Rightarrow> (string \<times> string) list \<Rightarrow> string" where
  "debug_fields n fs = n @ '' { '' @ join '', '' (map (\<lambda>(k, v). k @ '': '' @ v) fs)"

definition debug_struct :: "string \<Rightarrow> (string \<times> string) list \<Rightarrow> string" where
  "debug_struct n fs = (if fs = [] then n else debug_fields n fs @ '' }'')"

definition debug_struct_open :: "string \<Rightarrow> (string \<times> string) list \<Rightarrow> string" where
  "debug_struct_open n fs = (if fs = [] then n @ '' { .. }'' else debug_fields n fs @ '', .. }'')"

definition debug_tuple :: "string \<Rightarrow> string \<Rightarrow> string" where
  "debug_tuple n v = n @ ''('' @ v @ '')''"

definition debug_list :: "string list \<Rightarrow> string" where
  "debug_list vs = ''['' @ join '', '' vs @ '']''"

fun debug_option :: "('a \<Rightarrow> string) \<Rightarrow> 'a option \<Rightarrow> string" where
  "debug_option f None = ''None''"
| "debug_option f (Some v) = debug_tuple ''Some'' (f v)"

definition debug_bool :: "bool \<Rightarrow> string" where
  "debug_bool b = (if b then ''true'' else ''false'')"

section \<open>Configuration\<close>

fun debug_environment :: "environment \<Rightarrow> string" where
  "debug_environment Local = ''Local''"
| "debug_environment DevPrivate = ''DevPrivate''"
| "debug_environment Development = ''Development''"
| "debug_environment Test = ''Test''"
| "debug_environment Staging = ''Staging''"
| "debug_environment Production = ''Production''"

definition debug_tls_config :: "(string \<Rightarrow> string) \<Rightarrow> tls_config \<Rightarrow> string" where
  "debug_tls_config dbg t =
     debug_struct ''TlsConfig'' [(''cert_pem'', dbg ''<redacted>''), (''key_pem'', dbg ''<redacted>'')]"

definition debug_server_config :: "(string \<Rightarrow> string) \<Rightarrow> server_config \<Rightarrow> string" where
  "debug_server_config dbg s =
     debug_struct ''ServerConfig''
       [(''host'', dbg (sv_host s)), (''port'', show_nat (sv_port s)), (''tls'', debug_option (debug_tls_config dbg) (sv_tls s))]"

definition debug_app_config_definition :: "(string \<Rightarrow> string) \<Rightarrow> app_config_definition \<Rightarrow> string" where
  "debug_app_config_definition dbg d =
     (let env_names = sorted_list_of_set (dom (df_environments d));
          extra_names = sorted_list_of_set (dom (df_extra d))
      in debug_struct ''AppConfigDefinition''
           [(''name'', dbg (df_name d)), (''env'', debug_option dbg (df_env d)),
            (''server'', debug_server_config dbg (df_server d)),
            (''environments'', debug_list (map dbg env_names)), (''extra'', debug_list (map dbg extra_names))])"

definition debug_app_config :: "(string \<Rightarrow> string) \<Rightarrow> app_config \<Rightarrow> string" where
  "debug_app_config dbg c =
     (let section_names = sorted_list_of_set (dom (ac_sections c))
      in debug_struct ''AppConfig''
           [(''name'', dbg (ac_name c)), (''env'', debug_environment (ac_env c)),
            (''server'', debug_server_config dbg (ac_server c)), (''sections'', debug_list (map dbg section_names))])"

text \<open>\<open>SecretValue\<close>.\<close>

definition debug_secret_value :: "string \<Rightarrow> string" where
  "debug_secret_value v = ''SecretValue(***)''"

fun debug_database_backend :: "database_backend \<Rightarrow> string" where
  "debug_database_backend Auto = ''Auto''"
| "debug_database_backend ForcePostgres = ''Postgres''"
| "debug_database_backend ForceMySql = ''MySql''"

definition debug_database_config :: "(string \<Rightarrow> string) \<Rightarrow> database_config \<Rightarrow> string" where
  "debug_database_config dbg c =
     debug_struct ''DatabaseConfig''
       [(''url'', dbg (redact_url_userinfo (dc_url c))), (''backend'', debug_database_backend (dc_backend c)),
        (''max_connections'', show_nat (dc_max_connections c)), (''min_connections'', show_nat (dc_min_connections c)),
        (''run_migrations'', debug_bool (dc_run_migrations c))]"

section \<open>Authentication\<close>

definition debug_static_bearer :: "(string \<Rightarrow> string) \<Rightarrow> static_bearer \<Rightarrow> string" where
  "debug_static_bearer dbg b =
     debug_struct_open ''StaticBearerBackend''
       [(''subject'', dbg (sb_subject b)), (''service_account'', debug_bool (sb_service_account b)),
        (''privileged'', debug_bool (sb_privileged b))]"

definition debug_basic_auth :: "(string \<Rightarrow> string) \<Rightarrow> basic_auth \<Rightarrow> string" where
  "debug_basic_auth dbg b =
     debug_struct_open ''BasicAuthBackend''
       [(''subject'', dbg (ba_subject b)), (''service_account'', debug_bool (ba_service_account b)),
        (''privileged'', debug_bool (ba_privileged b))]"

fun debug_token_source :: "(string \<Rightarrow> string) \<Rightarrow> token_source \<Rightarrow> string" where
  "debug_token_source dbg BearerHeader = ''BearerHeader''"
| "debug_token_source dbg (TokenCookie n) = debug_tuple ''Cookie'' (dbg n)"
| "debug_token_source dbg (TokenHeader n) = debug_tuple ''Header'' (dbg n)"

definition debug_jwt_backend :: "(string \<Rightarrow> string) \<Rightarrow> 'key jwt_backend \<Rightarrow> string" where
  "debug_jwt_backend dbg b =
     (let mode = (case jb_key_resolver b of StaticKey _ _ \<Rightarrow> ''static'' | Jwks _ \<Rightarrow> ''jwks'')
      in debug_struct_open ''JwtBackend''
           [(''key_mode'', dbg mode), (''token_source'', debug_token_source dbg (jb_token_source b))])"

definition debug_jwt_builder :: "(string \<Rightarrow> string) \<Rightarrow> (nat \<Rightarrow> string) \<Rightarrow> jwt_builder \<Rightarrow> string" where
  "debug_jwt_builder dbg dur b =
     debug_struct_open ''JwtBackendBuilder''
       [(''algorithm'', algorithm_name (bl_algorithm b)), (''token_source'', debug_token_source dbg (bl_token_source b)),
        (''validate_exp'', debug_bool (bl_validate_exp b)), (''jwks_url'', debug_option dbg (bl_jwks_url b)),
        (''jwks_cache_ttl'', dur (bl_jwks_cache_ttl b))]"

definition debug_backend_handle :: "(string \<Rightarrow> string) \<Rightarrow> ('s, 'x) auth_backend_handle \<Rightarrow> string" where
  "debug_backend_handle dbg b = debug_tuple ''AuthBackendHandle'' (dbg (abh_name b))"

fun debug_fallback :: "unauthenticated_policy \<Rightarrow> string" where
  "debug_fallback Reject = ''Reject''"
| "debug_fallback AllowAnonymous = ''AllowAnonymous''"

definition debug_auth_chain :: "(string \<Rightarrow> string) \<Rightarrow> ('s, 'x) auth_chain \<Rightarrow> string" where
  "debug_auth_chain dbg c =
     debug_struct ''AuthChain''
       [(''backends'', debug_list (map (dbg \<circ> abh_name) (ac_backends c))), (''fallback'', debug_fallback (ac_fallback c))]"

definition debug_auth_state :: "(string \<Rightarrow> string) \<Rightarrow> ('s, 'x) auth_state \<Rightarrow> string" where
  "debug_auth_state dbg st =
     debug_struct ''AuthMiddlewareState''
       [(''chain'', debug_auth_chain dbg (am_chain st)), (''has_audit_logger'', debug_bool (am_audit_logger st))]"

section \<open>The application\<close>

definition debug_plugin_handle :: "(string \<Rightarrow> string) \<Rightarrow> ('x, 'addr, 'act, 'r, 'e, 'w) plugin_handle \<Rightarrow> string" where
  "debug_plugin_handle dbg p = debug_tuple ''PluginHandle'' (dbg (pl_name p))"

definition debug_init_context :: "(string \<Rightarrow> string) \<Rightarrow> (string set \<Rightarrow> string list) \<Rightarrow> 'act init_context \<Rightarrow> string" where
  "debug_init_context dbg hash_keys ctx =
     debug_struct ''InitContext'' [(''actions'', debug_list (map dbg (hash_keys (dom (ic_actions ctx)))))]"

text \<open>\<open>ext\<close> is the \<open>Debug\<close> of \<open>http::Extensions\<close>, which the derived implementations call.\<close>

definition debug_prepare_context :: "(string \<Rightarrow> string) \<Rightarrow> ('x \<Rightarrow> string) \<Rightarrow> 'x plugin_context \<Rightarrow> string" where
  "debug_prepare_context dbg ext ctx =
     debug_struct ''PrepareContext''
       [(''config'', debug_app_config dbg (cx_config ctx)), (''extensions'', ext (cx_extensions ctx))]"

definition debug_layer_context :: "(string \<Rightarrow> string) \<Rightarrow> ('x \<Rightarrow> string) \<Rightarrow> 'x plugin_context \<Rightarrow> string" where
  "debug_layer_context dbg ext ctx =
     debug_struct ''LayerContext''
       [(''config'', debug_app_config dbg (cx_config ctx)), (''extensions'', ext (cx_extensions ctx))]"

definition debug_route_context :: "(string \<Rightarrow> string) \<Rightarrow> ('x \<Rightarrow> string) \<Rightarrow> 'x plugin_context \<Rightarrow> string" where
  "debug_route_context dbg ext ctx =
     debug_struct ''RouteContext''
       [(''config'', debug_app_config dbg (cx_config ctx)), (''extensions'', ext (cx_extensions ctx))]"

text \<open>A \<open>ShutdownContext\<close> is the extensions alone.\<close>

definition debug_shutdown_context :: "'x \<Rightarrow> string" where
  "debug_shutdown_context extensions = debug_struct_open ''ShutdownContext'' []"

definition debug_ready_context :: "(string \<Rightarrow> string) \<Rightarrow> ('addr \<Rightarrow> string) \<Rightarrow> ('x, 'addr) ready_context \<Rightarrow> string" where
  "debug_ready_context dbg addr ctx =
     debug_struct_open ''ReadyContext''
       [(''config'', debug_app_config dbg (cx_config ctx)), (''local_addr'', addr (cx_local_addr ctx))]"

definition debug_gasket_app ::
  "(string \<Rightarrow> string) \<Rightarrow> (string set \<Rightarrow> string list) \<Rightarrow> ('x, 'addr, 'act, 'r, 'e, 'w, 'auth) gasket_app \<Rightarrow> string" where
  "debug_gasket_app dbg hash_keys app =
     debug_struct_open ''GasketApp''
       [(''config'', debug_app_config dbg (ga_config app)),
        (''plugins'', debug_list (map (dbg \<circ> pl_name) (ga_plugins app))),
        (''actions'', debug_list (map dbg (hash_keys (dom (ga_actions app)))))]"

definition debug_gasket_app_builder ::
  "(string \<Rightarrow> string) \<Rightarrow> ('x, 'addr, 'act, 'r, 'e, 'w, 'auth) gasket_app_builder \<Rightarrow> string" where
  "debug_gasket_app_builder dbg b =
     debug_struct_open ''GasketAppBuilder'' [(''plugins'', debug_list (map (dbg \<circ> pl_name) (bu_plugins b)))]"

fun debug_slot :: "middleware_slot \<Rightarrow> string" where
  "debug_slot TransportSecurity = ''TransportSecurity''"
| "debug_slot LoggingSlot = ''Logging''"
| "debug_slot AuthenticationSlot = ''Authentication''"
| "debug_slot RateLimitSlot = ''RateLimit''"
| "debug_slot TransactionSlot = ''Transaction''"
| "debug_slot CustomSlot = ''Custom''"

definition debug_tagged_layer :: "'r tagged_layer \<Rightarrow> string" where
  "debug_tagged_layer l = debug_struct_open ''TaggedLayer'' [(''slot'', debug_slot (tl_slot l))]"

fun debug_group :: "(string \<Rightarrow> string) \<Rightarrow> route_group \<Rightarrow> string" where
  "debug_group dbg Bare = ''Bare''"
| "debug_group dbg Public = ''Public''"
| "debug_group dbg Protected = ''Protected''"
| "debug_group dbg (ProtectedWith n) = debug_tuple ''ProtectedWith'' (dbg n)"

definition debug_tagged_route :: "(string \<Rightarrow> string) \<Rightarrow> 'r tagged_route \<Rightarrow> string" where
  "debug_tagged_route dbg r = debug_struct_open ''TaggedRoute'' [(''group'', debug_group dbg (tr_group r))]"

definition debug_object_cache :: "(string \<Rightarrow> string) \<Rightarrow> (nat \<Rightarrow> string) \<Rightarrow> object_cache \<Rightarrow> string" where
  "debug_object_cache dbg dur oc =
     debug_struct_open ''ObjectCache''
       [(''namespace'', dbg (oc_namespace oc)), (''default_ttl'', debug_tuple ''CacheTtl'' (dur (oc_default_ttl oc))),
        (''single_flight'', debug_bool (oc_single_flight oc))]"

section \<open>Nothing secret is printed\<close>

text \<open>What the output of a resolved configuration depends on.\<close>

lemma debug_server_config_cong:
  assumes "sv_host s = sv_host s'" and "sv_port s = sv_port s'" and "sv_tls s = None \<longleftrightarrow> sv_tls s' = None"
  shows "debug_server_config dbg s = debug_server_config dbg s'"
  using assms by (cases "sv_tls s"; cases "sv_tls s'") (simp_all add: debug_server_config_def debug_tls_config_def)

lemma debug_app_config_cong:
  assumes "ac_name c = ac_name c'" and "ac_env c = ac_env c'" and "dom (ac_sections c) = dom (ac_sections c')"
    and "debug_server_config dbg (ac_server c) = debug_server_config dbg (ac_server c')"
  shows "debug_app_config dbg c = debug_app_config dbg c'"
  using assms by (simp add: debug_app_config_def)

lemma debug_database_url:
  "debug_database_config dbg (d\<lparr>dc_url := u\<rparr>) =
     debug_struct ''DatabaseConfig''
       [(''url'', dbg (redact_url_userinfo u)), (''backend'', debug_database_backend (dc_backend d)),
        (''max_connections'', show_nat (dc_max_connections d)), (''min_connections'', show_nat (dc_min_connections d)),
        (''run_migrations'', debug_bool (dc_run_migrations d))]"
  by (simp add: debug_database_config_def)

text \<open>C23: no secret reaches the \<open>Debug\<close> output: not the value of a configuration section, the PEM texts
  of the server, the code of an action or the state in the extensions, in the application and in the
  contexts of all six lifecycle phases (the derived ones print what the http crate prints for its
  extensions, which is assumed to be the same for any content); not a bearer token, a basic
  credential, a key, a validation or the key store of a JWT backend.  Of a database URL the text
  between \<open>://\<close> and the first \<open>@\<close> is replaced when it has no slash, and nothing else: what follows
  that \<open>@\<close>, such as the tail of a password that contains one, is printed, and when a slash comes
  first the URL is printed in full.\<close>

theorem debug_output_hides_secrets:
  assumes public: "ac_name c = ac_name c'" "ac_env c = ac_env c'" "dom (ac_sections c) = dom (ac_sections c')"
      "sv_host (ac_server c) = sv_host (ac_server c')" "sv_port (ac_server c) = sv_port (ac_server c')"
      "sv_tls (ac_server c) = None \<longleftrightarrow> sv_tls (ac_server c') = None"
    and acts: "dom acts = dom acts'"
    and ext: "ext y = ext y'"
    and url: "CHR '':'' \<notin> set scheme" "CHR ''/'' \<notin> set secret" "CHR ''@'' \<notin> set secret"
  shows "debug_gasket_app dbg hash_keys (app\<lparr>ga_config := c, ga_actions := acts, ga_extensions := x\<rparr>) =
      debug_gasket_app dbg hash_keys (app\<lparr>ga_config := c', ga_actions := acts', ga_extensions := x'\<rparr>) \<and>
    debug_init_context dbg hash_keys \<lparr>ic_actions = acts\<rparr> = debug_init_context dbg hash_keys \<lparr>ic_actions = acts'\<rparr> \<and>
    (let before = \<lparr>cx_config = c, cx_extensions = y\<rparr>; after = \<lparr>cx_config = c', cx_extensions = y'\<rparr>
     in debug_prepare_context dbg ext before = debug_prepare_context dbg ext after \<and>
        debug_layer_context dbg ext before = debug_layer_context dbg ext after \<and>
        debug_route_context dbg ext before = debug_route_context dbg ext after) \<and>
    debug_ready_context dbg addr (ctx\<lparr>cx_config := c, cx_extensions := z\<rparr>) =
      debug_ready_context dbg addr (ctx\<lparr>cx_config := c', cx_extensions := z'\<rparr>) \<and>
    debug_shutdown_context z = debug_shutdown_context z' \<and>
    debug_static_bearer dbg (b\<lparr>sb_token := t\<rparr>) = debug_static_bearer dbg (b\<lparr>sb_token := t'\<rparr>) \<and>
    debug_basic_auth dbg (a\<lparr>ba_username := n, ba_password := t\<rparr>) =
      debug_basic_auth dbg (a\<lparr>ba_username := n', ba_password := t'\<rparr>) \<and>
    debug_jwt_builder dbg dur (j\<lparr>bl_static_key := k\<rparr>) = debug_jwt_builder dbg dur (j\<lparr>bl_static_key := k'\<rparr>) \<and>
    debug_jwt_backend dbg (jb\<lparr>jb_key_resolver := StaticKey key v\<rparr>) =
      debug_jwt_backend dbg (jb\<lparr>jb_key_resolver := StaticKey key' v'\<rparr>) \<and>
    debug_jwt_backend dbg (jb\<lparr>jb_key_resolver := Jwks jc\<rparr>) = debug_jwt_backend dbg (jb\<lparr>jb_key_resolver := Jwks jc'\<rparr>) \<and>
    (let pre = ''DatabaseConfig { url: '';
         post = '', backend: '' @ debug_database_backend (dc_backend d) @
           '', max_connections: '' @ show_nat (dc_max_connections d) @
           '', min_connections: '' @ show_nat (dc_min_connections d) @
           '', run_migrations: '' @ debug_bool (dc_run_migrations d) @ '' }''
     in debug_database_config dbg (d\<lparr>dc_url := scheme @ ''://'' @ secret @ ''@'' @ r\<rparr>) =
          pre @ dbg (scheme @ ''://***@'' @ r) @ post \<and>
        debug_database_config dbg (d\<lparr>dc_url := scheme @ ''://'' @ secret @ ''/'' @ r\<rparr>) =
          pre @ dbg (scheme @ ''://'' @ secret @ ''/'' @ r) @ post)"
proof -
  have "debug_app_config dbg c = debug_app_config dbg c'"
    using public by (intro debug_app_config_cong debug_server_config_cong) auto
  then show ?thesis
    unfolding debug_database_url userinfo_redacted [OF url] slash_not_redacted [OF url]
    by (simp add: Let_def acts ext debug_gasket_app_def debug_ready_context_def debug_static_bearer_def debug_basic_auth_def
        debug_jwt_builder_def debug_jwt_backend_def debug_init_context_def debug_prepare_context_def
        debug_layer_context_def debug_route_context_def debug_shutdown_context_def
        debug_struct_def debug_fields_def join_def)
qed

section \<open>A concrete instance\<close>

definition guarded_config :: "string \<Rightarrow> app_config" where
  "guarded_config s =
     \<lparr>ac_name = ''shop'', ac_env = Production,
      ac_server = \<lparr>sv_host = ''localhost'', sv_port = 443, sv_tls = Some \<lparr>cert_pem = s, key_pem = s\<rparr>\<rparr>,
      ac_sections = [''payments'' \<mapsto> JStr s]\<rparr>"

lemma debug_output_hides_secrets_witness:
  "debug_gasket_app id (\<lambda>_. []) (demo_app\<lparr>ga_config := guarded_config ''one'', ga_actions := Map.empty, ga_extensions := ()\<rparr>) =
     debug_gasket_app id (\<lambda>_. []) (demo_app\<lparr>ga_config := guarded_config ''two'', ga_actions := Map.empty, ga_extensions := ()\<rparr>) \<and>
   (\<exists>post. debug_database_config id (database_config_default\<lparr>dc_url := ''mysql://app:on@e@db''\<rparr>) =
     ''DatabaseConfig { url: '' @ ''mysql://***@e@db'' @ post)"
proof -
  let ?c = "guarded_config ''one''" and ?c' = "guarded_config ''two''"
  have public: "ac_name ?c = ac_name ?c'" "ac_env ?c = ac_env ?c'" "dom (ac_sections ?c) = dom (ac_sections ?c')"
    "sv_host (ac_server ?c) = sv_host (ac_server ?c')" "sv_port (ac_server ?c) = sv_port (ac_server ?c')"
    "sv_tls (ac_server ?c) = None \<longleftrightarrow> sv_tls (ac_server ?c') = None"
    by (simp_all add: guarded_config_def)
  have url: "CHR '':'' \<notin> set ''mysql''" "CHR ''/'' \<notin> set ''app:on''" "CHR ''@'' \<notin> set ''app:on''"
    by simp_all
  note hides = debug_output_hides_secrets [where app = demo_app and dbg = id and hash_keys = "\<lambda>_. []" and acts = Map.empty
      and acts' = Map.empty and x = "()" and x' = "()" and d = database_config_default and r = "''e@db''"
      and ext = "\<lambda>_. ''Extensions''" and y = "''pool one''" and y' = "''pool two''", OF public refl refl url]
  obtain post where "debug_database_config id (database_config_default\<lparr>dc_url := ''mysql'' @ ''://'' @ ''app:on'' @ ''@'' @ ''e@db''\<rparr>) =
      ''DatabaseConfig { url: '' @ id (''mysql'' @ ''://***@'' @ ''e@db'') @ post"
    using hides [THEN conjunct2, THEN conjunct2, THEN conjunct2, THEN conjunct2, THEN conjunct2, THEN conjunct2, THEN conjunct2, THEN conjunct2, THEN conjunct2, THEN conjunct2,
      unfolded Let_def, THEN conjunct1] by (rule that)
  then have "\<exists>post. debug_database_config id (database_config_default\<lparr>dc_url := ''mysql://app:on@e@db''\<rparr>) =
      ''DatabaseConfig { url: '' @ ''mysql://***@e@db'' @ post"
    by (intro exI [of _ post]) simp
  then show ?thesis by (rule conjI [OF hides [THEN conjunct1]])
qed

end
