(* ===== verification/Test_Harness.thy ===== *)
theory Test_Harness
  imports Request_Path
begin

text \<open>
  The in-process test harness (\<open>testing/mock_auth.rs\<close>, \<open>testing/test_app.rs\<close>): the mock backend, which is
  one more instance of the backend contract, and the application \<open>TestAppBuilder::build\<close> assembles, as
  a stack over the router under test.  A panic of \<open>build\<close> is \<open>None\<close>.
\<close>

section \<open>The mock backend\<close>

record 'x mock_auth_backend =
  mk_identity :: "'x identity option"

definition mock_authenticated :: "string \<Rightarrow> 'x mock_auth_backend" where
  "mock_authenticated subject = \<lparr>mk_identity = Some (identity_new subject ''mock'')\<rparr>"

definition mock_with_identity :: "'x identity \<Rightarrow> 'x mock_auth_backend" where
  "mock_with_identity i = \<lparr>mk_identity = Some i\<rparr>"

definition mock_anonymous :: "'x mock_auth_backend" where
  "mock_anonymous = \<lparr>mk_identity = None\<rparr>"

definition mock_is_anonymous :: "'x mock_auth_backend \<Rightarrow> bool" where
  "mock_is_anonymous m \<longleftrightarrow> mk_identity m = None"

definition mock_authenticate :: "'x mock_auth_backend \<Rightarrow> ('s, 'x) backend_fn" where
  "mock_authenticate m h u s = (Ok (mk_identity m), s)"

interpretation mock: definitive_backend "mock_authenticate m" "\<lambda>h u. mk_identity m" for m
  by unfold_locales (auto simp: mock_authenticate_def)

section \<open>The test application\<close>

record ('s, 'x, 'w) test_app_builder =
  tb_router :: "('s, 'x, 'w) service option"
  tb_mock_auth :: "'x mock_auth_backend option"
  tb_auth_state :: "('s, 'x) auth_state option"
  tb_logging :: bool

definition test_app_builder_new :: "('s, 'x, 'w) test_app_builder" where
  "test_app_builder_new = \<lparr>tb_router = None, tb_mock_auth = None, tb_auth_state = None, tb_logging = False\<rparr>"

definition test_router :: "('s, 'x, 'w) service \<Rightarrow> ('s, 'x, 'w) test_app_builder \<Rightarrow> ('s, 'x, 'w) test_app_builder" where
  "test_router r b = b\<lparr>tb_router := Some r\<rparr>"

definition test_mock_auth :: "string \<Rightarrow> ('s, 'x, 'w) test_app_builder \<Rightarrow> ('s, 'x, 'w) test_app_builder" where
  "test_mock_auth subject b = b\<lparr>tb_mock_auth := Some (mock_authenticated subject)\<rparr>"

definition test_mock_auth_identity :: "'x identity \<Rightarrow> ('s, 'x, 'w) test_app_builder \<Rightarrow> ('s, 'x, 'w) test_app_builder" where
  "test_mock_auth_identity i b = b\<lparr>tb_mock_auth := Some (mock_with_identity i)\<rparr>"

definition test_anonymous_auth :: "('s, 'x, 'w) test_app_builder \<Rightarrow> ('s, 'x, 'w) test_app_builder" where
  "test_anonymous_auth b = b\<lparr>tb_mock_auth := Some mock_anonymous\<rparr>"

definition test_auth_state :: "('s, 'x) auth_state \<Rightarrow> ('s, 'x, 'w) test_app_builder \<Rightarrow> ('s, 'x, 'w) test_app_builder" where
  "test_auth_state st b = b\<lparr>tb_auth_state := Some st\<rparr>"

definition test_logging :: "bool \<Rightarrow> ('s, 'x, 'w) test_app_builder \<Rightarrow> ('s, 'x, 'w) test_app_builder" where
  "test_logging enabled b = b\<lparr>tb_logging := enabled\<rparr>"

definition mock_state :: "'x mock_auth_backend \<Rightarrow> ('s, 'x) auth_state" where
  "mock_state m =
     auth_state_new (with_fallback (if mock_is_anonymous m then AllowAnonymous else Reject)
       (backend_handle \<lparr>abh_name = ''mock'', abh_authenticate = mock_authenticate m\<rparr> auth_chain_new))"

definition test_app_build ::
  "('s, 'x, 'w, 'p) serving \<Rightarrow> error_env \<Rightarrow> ('s, 'x, 'w) test_app_builder \<Rightarrow> ('s, 'x, 'w) service option" where
  "test_app_build sv env b =
     (case tb_router b of
        None \<Rightarrow> None
      | Some router \<Rightarrow>
          if tb_auth_state b \<noteq> None \<and> tb_mock_auth b \<noteq> None then None
          else
            let auth = (case tb_auth_state b of
                    Some st \<Rightarrow> [AuthMiddleware st]
                  | None \<Rightarrow> (case tb_mock_auth b of Some m \<Rightarrow> [AuthMiddleware (mock_state m)] | None \<Rightarrow> []));
                logging = (if tb_logging b then [LoggingMiddleware] else [])
            in Some (run_stack sv env (logging @ auth) router))"

section \<open>Properties\<close>

lemma mock_state_vouches:
  "vouched_context (am_chain (mock_state m)) ctx \<longleftrightarrow> mk_identity m \<noteq> None \<and> optional_identity ctx = mk_identity m"
  by (auto simp: vouched_context_def vouched_identity_def mock_state_def auth_state_new_def with_fallback_def
      backend_handle_def auth_chain_new_def mock_authenticate_def)

text \<open>A router under test is only ever called with the mock's identity.\<close>

lemma test_app_sees_mock_identity:
  assumes "mk_identity m = Some i" and agree: "agree_on (\<lambda>ctx. optional_identity ctx = Some i) f g"
  shows "test_app_build sv env (test_router f (test_logging logs (test_app_builder_new\<lparr>tb_mock_auth := Some m\<rparr>))) =
    test_app_build sv env (test_router g (test_logging logs (test_app_builder_new\<lparr>tb_mock_auth := Some m\<rparr>)))"
proof -
  have "ac_fallback (am_chain (mock_state m)) = Reject"
    using assms(1) by (simp add: mock_state_def auth_state_new_def with_fallback_def mock_is_anonymous_def)
  moreover have "agree_on (vouched_context (am_chain (mock_state m))) f g"
    using agree assms(1) by (simp add: agree_on_def mock_state_vouches)
  ultimately have "auth_middleware env (mock_state m) f = auth_middleware env (mock_state m) g" for env
    by (rule auth_middleware_agree)
  then have "run_stack sv env (ms @ [AuthMiddleware (mock_state m)]) f =
      run_stack sv env (ms @ [AuthMiddleware (mock_state m)]) g" for ms
    by (intro run_stack_append) simp
  then show ?thesis
    by (simp add: test_app_build_def test_router_def test_logging_def test_app_builder_new_def Let_def
        del: run_stack.simps)
qed

lemma test_app_two_auth_sources:
  "test_app_build sv env (test_auth_state st (test_mock_auth subject b)) = None"
  by (simp add: test_app_build_def test_auth_state_def test_mock_auth_def split: option.splits)

end
