(* ===== verification/Test_Requests.thy ===== *)
theory Test_Requests
  imports Test_Harness
begin

text \<open>
  The requests of the test client and the assertions on its responses (\<open>testing/test_app.rs\<close>,
  \<open>testing/test_response.rs\<close>).  A panic, which is how a test fails, is \<open>None\<close>; the URI parser and the JSON
  serialiser and parser are arguments.  The application under test takes the request's body beside the request.
\<close>

section \<open>Requests\<close>

record test_response =
  te_status :: nat
  te_headers :: headers
  te_body :: string

definition test_response_new :: "nat \<Rightarrow> headers \<Rightarrow> string \<Rightarrow> test_response" where
  "test_response_new status h body = \<lparr>te_status = status, te_headers = h, te_body = body\<rparr>"

type_synonym ('s, 'x, 'w) test_app = "string \<Rightarrow> ('s, 'x, 'w) service"

text \<open>A path, its query and both together.\<close>

type_synonym uri_parser = "string \<Rightarrow> (string \<times> string option \<times> string option) option"

definition test_request :: "uri_parser \<Rightarrow> string \<Rightarrow> string \<Rightarrow> headers \<Rightarrow> 'x auth_request option" where
  "test_request parse_uri m path h =
     (case parse_uri path of
        None \<Rightarrow> None
      | Some (p, q, pq) \<Rightarrow>
          Some \<lparr>rq_method = m, rq_path = p, rq_path_and_query = pq, rq_headers = h, lr_subject = None,
            lr_peer_ip = None, ar_query = q, ar_request_id = None, ar_logging = False, ar_context = None\<rparr>)"

definition test_send ::
  "('s, 'x, 'w) test_app \<Rightarrow> 'x auth_request \<times> string \<Rightarrow> ('s, 'w) auth_world \<Rightarrow>
   test_response option \<times> ('s, 'w) auth_world" where
  "test_send app request w =
     (let (rs, w) = app (snd request) (fst request) w
      in case rs_body rs of
           None \<Rightarrow> (None, w)
         | Some body \<Rightarrow> (Some (test_response_new (rs_status rs) (rs_headers rs) body), w))"

definition test_request_with ::
  "uri_parser \<Rightarrow> ('s, 'x, 'w) test_app \<Rightarrow> string \<Rightarrow> string \<Rightarrow> string \<Rightarrow> ('s, 'w) auth_world \<Rightarrow>
   test_response option \<times> ('s, 'w) auth_world" where
  "test_request_with parse_uri app m path body w =
     (case test_request parse_uri m path [] of None \<Rightarrow> (None, w) | Some rq \<Rightarrow> test_send app (rq, body) w)"

definition test_get where "test_get parse_uri app path w = test_request_with parse_uri app ''GET'' path [] w"
definition test_delete where "test_delete parse_uri app path w = test_request_with parse_uri app ''DELETE'' path [] w"

text \<open>The three methods that send a JSON body differ in the HTTP method alone.\<close>

definition test_send_json ::
  "string \<Rightarrow> uri_parser \<Rightarrow> ('v \<Rightarrow> string option) \<Rightarrow> ('s, 'x, 'w) test_app \<Rightarrow> string \<Rightarrow> 'v \<Rightarrow> ('s, 'w) auth_world \<Rightarrow>
   test_response option \<times> ('s, 'w) auth_world" where
  "test_send_json m parse_uri to_json app path v w =
     (case to_json v of
        None \<Rightarrow> (None, w)
      | Some json \<Rightarrow>
          (case test_request parse_uri m path [(''content-type'', hv_static ''application/json'')] of
             None \<Rightarrow> (None, w)
           | Some rq \<Rightarrow> test_send app (rq, json) w))"

definition test_post_json where "test_post_json = test_send_json ''POST''"
definition test_put_json where "test_put_json = test_send_json ''PUT''"
definition test_patch_json where "test_patch_json = test_send_json ''PATCH''"

section \<open>Assertions\<close>

definition response_text :: "test_response \<Rightarrow> string option" where
  "response_text r = (if utf8_valid (te_body r) then Some (te_body r) else None)"

definition response_json :: "(string \<Rightarrow> 'v option) \<Rightarrow> test_response \<Rightarrow> 'v option" where
  "response_json parse r = parse (te_body r)"

definition assert_status :: "nat \<Rightarrow> test_response \<Rightarrow> unit option" where
  "assert_status expected r = (if te_status r = expected then Some () else None)"

text \<open>Indexing a JSON value that is no object, or has no such key, gives \<open>null\<close>.\<close>

fun json_index :: "string \<Rightarrow> json \<Rightarrow> json" where
  "json_index k (JObj kvs) = (case map_of kvs k of Some v \<Rightarrow> v | None \<Rightarrow> JNull)"
| "json_index k _ = JNull"

fun json_as_str :: "json \<Rightarrow> string option" where
  "json_as_str (JStr s) = Some s"
| "json_as_str _ = None"

definition assert_json_error :: "(string \<Rightarrow> json option) \<Rightarrow> nat \<Rightarrow> string \<Rightarrow> test_response \<Rightarrow> unit option" where
  "assert_json_error parse expected_status expected_code r =
     (case assert_status expected_status r of
        None \<Rightarrow> None
      | Some _ \<Rightarrow>
     (case response_json parse r of
        None \<Rightarrow> None
      | Some json \<Rightarrow>
          if json_as_str (json_index ''error'' json) \<noteq> Some expected_code then None
          else if json_as_str (json_index ''correlationId'' json) = None then None
          else Some ()))"

section \<open>The bodies of errors\<close>

text \<open>What serde makes of \<open>ErrorResponse\<close> and \<open>ErrorDetail\<close>: camel-case names, empty fields left out.\<close>

definition error_detail_json :: "error_detail \<Rightarrow> json" where
  "error_detail_json d =
     JObj ((''issue'', JStr (ed_issue d)) #
       (case ed_description d of Some t \<Rightarrow> [(''description'', JStr t)] | None \<Rightarrow> []))"

definition error_response_json :: "error_response \<Rightarrow> json" where
  "error_response_json e =
     JObj ([(''error'', JStr (er_error e)), (''message'', JStr (er_message e)),
        (''correlationId'', JStr (er_correlation_id e))] @
       (if er_details e = [] then [] else [(''details'', JArr (map error_detail_json (er_details e)))]))"

section \<open>Properties\<close>

text \<open>The error assertion passes on an error response exactly for its own status and code.\<close>

lemma assert_json_error_exact:
  assumes "parse (te_body r) = Some (error_response_json e)"
  shows "assert_json_error parse status code r = (if te_status r = status \<and> er_error e = code then Some () else None)"
  using assms by (simp add: assert_json_error_def assert_status_def response_json_def error_response_json_def)

text \<open>A refusal, through the auth middleware alone and through the logging middleware around it.\<close>

lemma refused_stack:
  assumes refused: "chain_authenticate (am_chain st) (rq_headers rq) (request_uri rq) (aw_backends w) = (Err e, s)"
    and uuid: "is_valid_request_id (sv_uuid sv)"
  shows "\<exists>rs w' cid. run_stack sv env ((if logs then [LoggingMiddleware] else []) @ [AuthMiddleware st]) handler rq w = (rs, w') \<and>
    rs_status rs = auth_status_code e \<and>
    rs_body rs = Some (ee_render env (error_response_new (auth_error_code e) (auth_client_message e) cid))"
proof -
  have auth: "\<exists>rs w' cid. auth_middleware env' st handler rq' w = (rs, w') \<and> rs_status rs = auth_status_code e \<and>
      rs_body rs = Some (ee_render env' (error_response_new (auth_error_code e) (auth_client_message e) cid))"
    if "chain_authenticate (am_chain st) (rq_headers rq') (request_uri rq') (aw_backends w) = (Err e, s)" for env' rq' w
  proof -
    let ?out = "handle_auth_failure env' (am_audit_logger st) rq'
      (case ar_request_id rq' of Some r \<Rightarrow> r | None \<Rightarrow> []) (extract_client_ip rq') e (w\<lparr>aw_backends := s\<rparr>)"
    obtain rs w' where out: "?out = (rs, w')" by (cases ?out)
    moreover have "auth_middleware env' st handler rq' w = ?out" by (simp add: auth_middleware_def that Let_def)
    ultimately show ?thesis using handle_auth_failure_ids [OF out refl] by (intro exI [of _ rs] exI [of _ w']) auto
  qed
  show ?thesis
  proof (cases logs)
    case False
    then show ?thesis using auth [OF refused] by simp
  next
    case True
    define rid where "rid = get_or_generate_request_id (sv_uuid sv) (rq_headers rq)"
    let ?rq = "rq\<lparr>ar_request_id := Some rid, ar_logging := True\<rparr>" and ?w = "w\<lparr>aw_logging := None\<rparr>"
    have "chain_authenticate (am_chain st) (rq_headers ?rq) (request_uri ?rq) (aw_backends ?w) = (Err e, s)"
      using refused by simp
    from auth [OF this, of "env\<lparr>ee_request_id := Some rid\<rparr>"] obtain rs w' cid where
      out: "auth_middleware (env\<lparr>ee_request_id := Some rid\<rparr>) st handler ?rq ?w = (rs, w')" "rs_status rs = auth_status_code e"
        "rs_body rs = Some (ee_render env (error_response_new (auth_error_code e) (auth_client_message e) cid))"
      by auto
    from logging_layer_run [OF uuid rid_def, of "\<lambda>rid. auth_middleware (env\<lparr>ee_request_id := Some rid\<rparr>) st handler", OF out(1)]
    show ?thesis using True out(2,3) by (intro exI [of _ "rs\<lparr>rs_headers := hinsert ''x-request-id'' (hv_static rid) (rs_headers rs)\<rparr>"]
      exI [of _ w'] exI [of _ cid]) simp
  qed
qed

text \<open>A test client whose credentials the chain refuses gets a response on which the error assertion for
  the refusal's status and code passes and every other one fails, whatever the application under test is and
  whether or not it logs, when what the JSON serialiser writes of an error body reads back.\<close>

theorem refused_test_request:
  fixes inner :: "('s, 'x, 'w) test_app" and w :: "('s, 'w) auth_world"
  assumes app: "\<And>body. test_app_build sv env (test_logging logs (test_auth_state st (test_router (inner body) test_app_builder_new))) = Some (app body)"
    and uuid: "is_valid_request_id (sv_uuid sv)"
    and json: "\<And>cid. parse (ee_render env (error_response_new (auth_error_code e) (auth_client_message e) cid)) =
      Some (error_response_json (error_response_new (auth_error_code e) (auth_client_message e) cid))"
    and request: "parse_uri path = Some (p, q, pq)"
    and refused: "chain_authenticate (am_chain st) [] \<lparr>uri_path = p, uri_query = q\<rparr> (aw_backends w) = (Err e, s)"
  shows "\<exists>r w'. test_get parse_uri app path w = (Some r, w') \<and>
    (\<forall>status code. assert_json_error parse status code r =
      (if status = auth_status_code e \<and> code = auth_error_code e then Some () else None))"
proof -
  have build: "app body = run_stack sv env ((if logs then [LoggingMiddleware] else []) @ [AuthMiddleware st]) (inner body)" for body
    using app [of body]
    by (simp add: test_app_build_def test_logging_def test_auth_state_def test_router_def test_app_builder_new_def Let_def
        del: run_stack.simps)
  obtain rq :: "'x auth_request" where rq: "test_request parse_uri ''GET'' path [] = Some rq" "rq_headers rq = []"
    "request_uri rq = \<lparr>uri_path = p, uri_query = q\<rparr>"
    using request by (simp add: test_request_def request_uri_def)
  obtain rs w' cid where out: "app [] rq w = (rs, w')" "rs_status rs = auth_status_code e"
    "rs_body rs = Some (ee_render env (error_response_new (auth_error_code e) (auth_client_message e) cid))"
    using refused_stack [OF _ uuid, of st rq w e s env logs "inner []"] refused rq(2,3) unfolding build by auto
  let ?r = "test_response_new (rs_status rs) (rs_headers rs) (ee_render env (error_response_new (auth_error_code e) (auth_client_message e) cid))"
  have "test_get parse_uri app path w = (Some ?r, w')"
    by (simp add: test_get_def test_request_with_def rq(1) test_send_def out)
  moreover have "assert_json_error parse status code ?r =
      (if status = auth_status_code e \<and> code = auth_error_code e then Some () else None)" for status code
    using assert_json_error_exact [of parse ?r "error_response_new (auth_error_code e) (auth_client_message e) cid"] json out(2)
    by (auto simp: test_response_new_def error_response_new_def)
  ultimately show ?thesis by blast
qed

section \<open>Witness\<close>

definition missing_error :: auth_error where
  "missing_error = MissingCredentials ''No valid credentials provided''"

text \<open>A serialiser for the bodies of one error, which writes what varies: the correlation id.\<close>

definition id_only_env :: error_env where
  "id_only_env = \<lparr>ee_request_id = None, ee_uuid_parse = Some, ee_uuid_new = ''id-1'', ee_render = er_correlation_id\<rparr>"

definition id_only_parse :: "string \<Rightarrow> json option" where
  "id_only_parse s = Some (error_response_json
     (error_response_new (auth_error_code missing_error) (auth_client_message missing_error) s))"

definition closed_app :: "(unit, unit, nat) test_app" where
  "closed_app body = run_stack push_serving id_only_env [LoggingMiddleware, AuthMiddleware (auth_state_new auth_chain_new)] strict_handler"

lemma refused_test_request_witness:
  "\<exists>r w'. test_get (\<lambda>p. Some (p, None, Some p)) closed_app ''/me'' demo_world = (Some r, w') \<and>
     assert_json_error id_only_parse (auth_status_code missing_error) (auth_error_code missing_error) r = Some () \<and>
     assert_json_error id_only_parse 200 (auth_error_code missing_error) r = None"
proof -
  have app: "test_app_build push_serving id_only_env (test_logging True (test_auth_state (auth_state_new auth_chain_new)
      (test_router strict_handler test_app_builder_new))) = Some (closed_app body)" for body
    by (simp add: test_app_build_def test_logging_def test_auth_state_def test_router_def test_app_builder_new_def
        closed_app_def Let_def del: run_stack.simps)
  have uuid: "is_valid_request_id (sv_uuid push_serving)" by code_simp
  have json: "id_only_parse (ee_render id_only_env (error_response_new (auth_error_code missing_error) (auth_client_message missing_error) cid)) =
      Some (error_response_json (error_response_new (auth_error_code missing_error) (auth_client_message missing_error) cid))" for cid
    by (simp add: id_only_parse_def id_only_env_def error_response_new_def)
  have refused: "chain_authenticate (am_chain (auth_state_new auth_chain_new)) [] \<lparr>uri_path = ''/me'', uri_query = None\<rparr>
      (aw_backends demo_world) = (Err missing_error, ())"
    by (simp add: auth_state_new_def auth_chain_new_def chain_authenticate_def missing_error_def)
  have status: "auth_status_code missing_error \<noteq> 200" by (simp add: missing_error_def)
  from refused_test_request [where app = closed_app and parse = id_only_parse and parse_uri = "\<lambda>p. Some (p, None, Some p)" and path = "''/me''",
      OF app uuid json refl refused]
  show ?thesis using status by fastforce
qed

end
