(* ===== verification/Secrets.thy ===== *)
theory Secrets
  imports Prelude
begin

text \<open>
  The AWS secrets provider (\<open>aws/mod.rs\<close>) as a step relation: any number of tasks ask for one
  secret at the same time.

  A state holds the clock, the cached value with the instant it was fetched, the entry of the
  \<open>inflight\<close> map (a weak reference: the number of a semaphore, which is alive as long as a task
  holds a strong reference), the next fresh number, every answer AWS gave with a string value, and
  where every task stands.  A step of a task is what it does between two points where another task can
  run.  The service may answer anything at any time, and a task's future may be dropped at any await.
\<close>

section \<open>Tasks\<close>

datatype outcome =
    Served string nat nat \<comment> \<open>the value, when it was fetched, when it was served\<close>
  | Absent                \<comment> \<open>\<open>Ok(None)\<close>\<close>
  | Failed                \<comment> \<open>an error\<close>

datatype task =
    Asking               \<comment> \<open>about to read the cache\<close>
  | CacheMissed          \<comment> \<open>about to look for the semaphore under the read lock\<close>
  | WantWriteLock        \<comment> \<open>no live semaphore seen, waiting for the write lock\<close>
  | Queued nat           \<comment> \<open>holds the semaphore, waiting for its permit\<close>
  | Permitted nat        \<comment> \<open>has the permit, about to read the cache again\<close>
  | Fetching nat         \<comment> \<open>awaits AWS under the permit\<close>
  | Dropping nat outcome bool \<comment> \<open>permit dropped, semaphore not yet; whether to prune\<close>
  | Pruning outcome      \<comment> \<open>about to prune the map\<close>
  | Answered outcome
  | Dropped              \<comment> \<open>its future was dropped\<close>

record secrets =
  sv_now :: nat
  sv_cached :: "(string \<times> nat) option"
  sv_inflight :: "nat option"
  sv_next :: nat
  sv_log :: "(string \<times> nat) list"
  sv_tasks :: "task list"

fun semaphore_of :: "task \<Rightarrow> nat option" where
  "semaphore_of (Queued s) = Some s"
| "semaphore_of (Permitted s) = Some s"
| "semaphore_of (Fetching s) = Some s"
| "semaphore_of (Dropping s r b) = Some s"
| "semaphore_of _ = None"

fun has_permit :: "task \<Rightarrow> bool" where
  "has_permit (Permitted s) \<longleftrightarrow> True"
| "has_permit (Fetching s) \<longleftrightarrow> True"
| "has_permit _ \<longleftrightarrow> False"

fun at_await :: "task \<Rightarrow> bool" where
  "at_await Asking \<longleftrightarrow> True"
| "at_await CacheMissed \<longleftrightarrow> True"
| "at_await WantWriteLock \<longleftrightarrow> True"
| "at_await (Queued s) \<longleftrightarrow> True"
| "at_await (Permitted s) \<longleftrightarrow> True"
| "at_await (Fetching s) \<longleftrightarrow> True"
| "at_await (Pruning r) \<longleftrightarrow> True"
| "at_await _ \<longleftrightarrow> False"

text \<open>\<open>Weak::upgrade\<close> succeeds exactly while some task holds the semaphore.\<close>

definition alive :: "nat \<Rightarrow> secrets \<Rightarrow> bool" where
  "alive s st \<longleftrightarrow> list_ex (\<lambda>p. semaphore_of p = Some s) (sv_tasks st)"

definition read_cache :: "nat \<Rightarrow> secrets \<Rightarrow> (string \<times> nat) option" where
  "read_cache ttl st =
     (case sv_cached st of
        Some (v, t) \<Rightarrow> if sv_now st - t < ttl then Some (v, t) else None
      | None \<Rightarrow> None)"

definition upgrade :: "secrets \<Rightarrow> nat option" where
  "upgrade st = (case sv_inflight st of Some s \<Rightarrow> if alive s st then Some s else None | None \<Rightarrow> None)"

definition prune_inflight :: "secrets \<Rightarrow> secrets" where
  "prune_inflight st =
     (case sv_inflight st of
        Some s \<Rightarrow> if alive s st then st else st\<lparr>sv_inflight := None\<rparr>
      | None \<Rightarrow> st)"

definition put :: "nat \<Rightarrow> task \<Rightarrow> secrets \<Rightarrow> secrets" where
  "put i p st = st\<lparr>sv_tasks := (sv_tasks st)[i := p]\<rparr>"

definition at_pc :: "secrets \<Rightarrow> nat \<Rightarrow> task \<Rightarrow> bool" where
  "at_pc st i p \<longleftrightarrow> i < length (sv_tasks st) \<and> sv_tasks st ! i = p"

inductive secret_step :: "nat \<Rightarrow> secrets \<Rightarrow> secrets \<Rightarrow> bool" for ttl where
  arrive: "secret_step ttl st (st\<lparr>sv_tasks := sv_tasks st @ [Asking]\<rparr>)"
| tick: "secret_step ttl st (st\<lparr>sv_now := sv_now st + d\<rparr>)"
| hit: "at_pc st i Asking \<Longrightarrow> read_cache ttl st = Some (v, t) \<Longrightarrow>
    secret_step ttl st (put i (Answered (Served v t (sv_now st))) st)"
| miss: "at_pc st i Asking \<Longrightarrow> read_cache ttl st = None \<Longrightarrow> secret_step ttl st (put i CacheMissed st)"
| found: "at_pc st i CacheMissed \<Longrightarrow> upgrade st = Some s \<Longrightarrow> secret_step ttl st (put i (Queued s) st)"
| not_found: "at_pc st i CacheMissed \<Longrightarrow> upgrade st = None \<Longrightarrow> secret_step ttl st (put i WantWriteLock st)"
| found_write: "at_pc st i WantWriteLock \<Longrightarrow> upgrade st = Some s \<Longrightarrow> secret_step ttl st (put i (Queued s) st)"
| create: "at_pc st i WantWriteLock \<Longrightarrow> upgrade st = None \<Longrightarrow>
    secret_step ttl st (put i (Queued (sv_next st)) (st\<lparr>sv_inflight := Some (sv_next st), sv_next := Suc (sv_next st)\<rparr>))"
| acquire: "at_pc st i (Queued s) \<Longrightarrow>
    \<not> list_ex (\<lambda>p. semaphore_of p = Some s \<and> has_permit p) (sv_tasks st) \<Longrightarrow>
    secret_step ttl st (put i (Permitted s) st)"
| recheck_hit: "at_pc st i (Permitted s) \<Longrightarrow> read_cache ttl st = Some (v, t) \<Longrightarrow>
    secret_step ttl st (put i (Dropping s (Served v t (sv_now st)) False) st)"
| recheck_miss: "at_pc st i (Permitted s) \<Longrightarrow> read_cache ttl st = None \<Longrightarrow>
    secret_step ttl st (put i (Fetching s) st)"
| fetched: "at_pc st i (Fetching s) \<Longrightarrow>
    secret_step ttl st (put i (Dropping s (Served v (sv_now st) (sv_now st)) True)
      (st\<lparr>sv_cached := Some (v, sv_now st), sv_log := sv_log st @ [(v, sv_now st)]\<rparr>))"
| fetched_absent: "at_pc st i (Fetching s) \<Longrightarrow> secret_step ttl st (put i (Dropping s Absent True) st)"
| fetch_failed: "at_pc st i (Fetching s) \<Longrightarrow> secret_step ttl st (put i (Dropping s Failed True) st)"
| release: "at_pc st i (Dropping s r b) \<Longrightarrow>
    secret_step ttl st (put i (if b then Pruning r else Answered r) st)"
| prune: "at_pc st i (Pruning r) \<Longrightarrow> secret_step ttl st (put i (Answered r) (prune_inflight st))"
| cancelled: "at_pc st i p \<Longrightarrow> at_await p \<Longrightarrow> secret_step ttl st (put i Dropped st)"

text \<open>The builder: without a \<open>cache_ttl\<close> a secret is served for five minutes.  With a \<open>cache_ttl\<close> of 0 nothing
  is ever served from the cache, and every request fetches.\<close>

definition SECRETS_DEFAULT_CACHE_TTL :: nat where "SECRETS_DEFAULT_CACHE_TTL = 300 * 10 ^ 9"

type_synonym secrets_builder = "nat option"

definition secrets_builder_new :: secrets_builder where
  "secrets_builder_new = None"

definition secrets_builder_cache_ttl :: "nat \<Rightarrow> secrets_builder \<Rightarrow> secrets_builder" where
  "secrets_builder_cache_ttl ttl b = Some ttl"

definition secrets_builder_build :: "secrets_builder \<Rightarrow> nat" where
  "secrets_builder_build b = (case b of Some ttl \<Rightarrow> ttl | None \<Rightarrow> SECRETS_DEFAULT_CACHE_TTL)"

lemma read_cache_zero_ttl: "read_cache (secrets_builder_build (secrets_builder_cache_ttl 0 b)) st = None"
  by (simp add: read_cache_def secrets_builder_build_def secrets_builder_cache_ttl_def split: option.splits)

definition secrets_initial :: "nat \<Rightarrow> secrets" where
  "secrets_initial now =
     \<lparr>sv_now = now, sv_cached = None, sv_inflight = None, sv_next = 0, sv_log = [], sv_tasks = []\<rparr>"

inductive secrets_reachable :: "nat \<Rightarrow> secrets \<Rightarrow> bool" for ttl where
  start: "secrets_reachable ttl (secrets_initial now)"
| run: "secrets_reachable ttl st \<Longrightarrow> secret_step ttl st st' \<Longrightarrow> secrets_reachable ttl st'"

section \<open>Invariant\<close>

fun outcome_of :: "task \<Rightarrow> outcome option" where
  "outcome_of (Dropping s r b) = Some r"
| "outcome_of (Pruning r) = Some r"
| "outcome_of (Answered r) = Some r"
| "outcome_of _ = None"

fun outcome_ok :: "nat \<Rightarrow> (string \<times> nat) list \<Rightarrow> outcome \<Rightarrow> bool" where
  "outcome_ok ttl log (Served v t n) \<longleftrightarrow> (v, t) \<in> set log \<and> (n = t \<or> n - t < ttl)"
| "outcome_ok ttl log _ \<longleftrightarrow> True"

definition tasks_inv :: "nat \<Rightarrow> secrets \<Rightarrow> bool" where
  "tasks_inv ttl st \<longleftrightarrow>
     (\<forall>p \<in> set (sv_tasks st).
        (\<forall>s. semaphore_of p = Some s \<longrightarrow> sv_inflight st = Some s) \<and>
        (\<forall>r. outcome_of p = Some r \<longrightarrow> outcome_ok ttl (sv_log st) r) \<and>
        (\<forall>s. p = Fetching s \<longrightarrow> read_cache ttl st = None))"

definition permits :: "secrets \<Rightarrow> nat" where
  "permits st = length (filter has_permit (sv_tasks st))"

definition log_inv :: "nat \<Rightarrow> secrets \<Rightarrow> bool" where
  "log_inv ttl st \<longleftrightarrow>
     sv_cached st = (if sv_log st = [] then None else Some (last (sv_log st))) \<and>
     sorted_wrt (\<lambda>p q. snd p + ttl \<le> snd q) (sv_log st) \<and>
     (\<forall>p \<in> set (sv_log st). snd p \<le> sv_now st)"

definition secrets_inv :: "nat \<Rightarrow> secrets \<Rightarrow> bool" where
  "secrets_inv ttl st \<longleftrightarrow> tasks_inv ttl st \<and> permits st \<le> 1 \<and> log_inv ttl st"

lemma put_simps [simp]:
  "sv_now (put i p st) = sv_now st" "sv_cached (put i p st) = sv_cached st"
  "sv_inflight (put i p st) = sv_inflight st" "sv_next (put i p st) = sv_next st"
  "sv_log (put i p st) = sv_log st" "sv_tasks (put i p st) = (sv_tasks st)[i := p]"
  "read_cache ttl (put i p st) = read_cache ttl st"
  by (simp_all add: put_def read_cache_def split: option.splits)

lemma at_pc_in_set: "at_pc st i p \<Longrightarrow> p \<in> set (sv_tasks st)"
  by (auto simp: at_pc_def)

lemma tasks_inv_put:
  assumes "tasks_inv ttl st"
    and "\<And>s. semaphore_of p = Some s \<Longrightarrow> sv_inflight st = Some s"
    and "\<And>r. outcome_of p = Some r \<Longrightarrow> outcome_ok ttl (sv_log st) r"
    and "\<And>s. p = Fetching s \<Longrightarrow> read_cache ttl st = None"
  shows "tasks_inv ttl (put i p st)"
  using assms unfolding tasks_inv_def by (auto dest!: set_update_subset_insert [THEN subsetD])

lemma permits_put:
  assumes "at_pc st i q"
  shows "permits (put i p st) + (if has_permit q then 1 else 0) = permits st + (if has_permit p then 1 else 0)"
  using filter_update_count [of i "sv_tasks st" has_permit p] assms by (auto simp: permits_def at_pc_def)

lemma permits_put_le:
  assumes "at_pc st i q" and "has_permit p \<Longrightarrow> has_permit q" and "permits st \<le> n"
  shows "permits (put i p st) \<le> n"
  using permits_put [OF assms(1), of p] assms(2,3) by (auto split: if_splits)

lemma log_inv_put [simp]: "log_inv ttl (put i p st) = log_inv ttl st"
  by (simp add: log_inv_def)

lemma holder_in_flight:
  "tasks_inv ttl st \<Longrightarrow> at_pc st i p \<Longrightarrow> semaphore_of p = Some s \<Longrightarrow> sv_inflight st = Some s"
  by (auto simp: tasks_inv_def dest: at_pc_in_set)

lemma outcome_kept:
  "tasks_inv ttl st \<Longrightarrow> at_pc st i p \<Longrightarrow> outcome_of p = Some r \<Longrightarrow> outcome_ok ttl (sv_log st) r"
  by (auto simp: tasks_inv_def dest: at_pc_in_set)

lemma upgrade_inflight: "upgrade st = Some s \<Longrightarrow> sv_inflight st = Some s"
  by (auto simp: upgrade_def split: option.splits if_splits)

text \<open>When the weak reference is dead no task holds any semaphore.\<close>

lemma upgrade_None_no_holder:
  assumes "tasks_inv ttl st" and "upgrade st = None" and "p \<in> set (sv_tasks st)"
  shows "semaphore_of p = None"
proof (rule ccontr)
  assume "semaphore_of p \<noteq> None"
  then obtain s where s: "semaphore_of p = Some s" by auto
  with assms(1,3) have "sv_inflight st = Some s" by (auto simp: tasks_inv_def)
  with assms(2,3) s show False by (auto simp: upgrade_def alive_def list_ex_iff split: if_splits)
qed

lemma served_ok:
  assumes "log_inv ttl st" and "read_cache ttl st = Some (v, t)"
  shows "outcome_ok ttl (sv_log st) (Served v t (sv_now st))"
proof -
  have "sv_cached st = Some (v, t)" "sv_now st - t < ttl"
    using assms(2) by (auto simp: read_cache_def split: option.splits if_splits)
  with assms(1) have "(v, t) \<in> set (sv_log st)"
    by (metis last_in_set log_inv_def option.distinct(1) option.inject)
  with \<open>sv_now st - t < ttl\<close> show ?thesis by simp
qed

lemma no_permit_elsewhere:
  assumes "permits st \<le> 1" and "at_pc st i p" and "has_permit p" and "q \<in> set ((sv_tasks st)[i := x])" and "\<not> has_permit x"
  shows "\<not> has_permit q"
proof -
  have "length (filter has_permit ((sv_tasks st)[i := x])) = 0"
    using filter_update_count [of i "sv_tasks st" has_permit x] assms(1,2,3,5)
    by (auto simp: permits_def at_pc_def simp del: length_0_conv)
  with assms(4) show ?thesis by (auto simp: filter_empty_conv)
qed

lemma log_inv_fetched:
  assumes "log_inv ttl st" and "read_cache ttl st = None"
  shows "log_inv ttl (st\<lparr>sv_cached := Some (v, sv_now st), sv_log := sv_log st @ [(v, sv_now st)]\<rparr>)"
proof -
  have "snd p + ttl \<le> sv_now st" if p: "p \<in> set (sv_log st)" for p
  proof -
    obtain ps q where log: "sv_log st = ps @ [q]" using p by (cases "sv_log st" rule: rev_cases) auto
    then have "snd q + ttl \<le> sv_now st"
      using assms by (cases q) (auto simp: log_inv_def read_cache_def split: if_splits)
    moreover have "snd p \<le> snd q"
      using assms(1) p log by (auto simp: log_inv_def sorted_wrt_append)
    ultimately show ?thesis by simp
  qed
  with assms(1) show ?thesis by (auto simp: log_inv_def sorted_wrt_append)
qed

lemma secret_step_inv:
  assumes "secret_step ttl st st'" and "secrets_inv ttl st"
  shows "secrets_inv ttl st'"
  using assms
proof (induction rule: secret_step.cases)
  case (arrive st)
  then show ?case
    by (auto simp: secrets_inv_def tasks_inv_def permits_def log_inv_def read_cache_def)
next
  case (tick st d)
  then show ?case
    by (force simp: secrets_inv_def tasks_inv_def permits_def log_inv_def read_cache_def
        split: option.splits if_splits)
next
  case (hit st i v t)
  then show ?case
    using served_ok
    by (auto simp: secrets_inv_def intro!: tasks_inv_put permits_put_le [OF hit(3)])
next
  case (miss st i)
  then show ?case
    by (auto simp: secrets_inv_def intro!: tasks_inv_put permits_put_le [OF miss(3)])
next
  case (found st i s)
  then show ?case
    using upgrade_inflight by (auto simp: secrets_inv_def intro!: tasks_inv_put permits_put_le [OF found(3)])
next
  case (not_found st i)
  then show ?case
    by (auto simp: secrets_inv_def intro!: tasks_inv_put permits_put_le [OF not_found(3)])
next
  case (found_write st i s)
  then show ?case
    using upgrade_inflight by (auto simp: secrets_inv_def intro!: tasks_inv_put permits_put_le [OF found_write(3)])
next
  case (create st i)
  let ?st = "st\<lparr>sv_inflight := Some (sv_next st), sv_next := Suc (sv_next st)\<rparr>"
  have "read_cache ttl ?st = read_cache ttl st" by (simp add: read_cache_def split: option.split)
  then have "tasks_inv ttl ?st"
    using create upgrade_None_no_holder [of ttl st]
    by (auto simp: secrets_inv_def tasks_inv_def)
  moreover have "at_pc ?st i WantWriteLock" using create(3) by (simp add: at_pc_def)
  moreover have "permits ?st = permits st" "log_inv ttl ?st = log_inv ttl st" by (simp_all add: permits_def log_inv_def)
  ultimately show ?case
    using create permits_put [of ?st i WantWriteLock "Queued (sv_next st)"]
    by (auto simp: secrets_inv_def intro!: tasks_inv_put)
next
  case (acquire st i s)
  then have inv: "tasks_inv ttl st" by (simp add: secrets_inv_def)
  have "\<not> has_permit p" if "p \<in> set (sv_tasks st)" for p
  proof
    assume "has_permit p"
    then obtain s' where "semaphore_of p = Some s'" by (cases p) auto
    with that inv have "sv_inflight st = Some s'" unfolding tasks_inv_def by blast
    moreover have "sv_inflight st = Some s"
      using holder_in_flight [OF inv acquire(3)] by simp
    ultimately show False
      using acquire(4) that \<open>has_permit p\<close> \<open>semaphore_of p = Some s'\<close> by (auto simp: list_ex_iff)
  qed
  then have "permits st = 0" by (simp add: permits_def filter_empty_conv)
  then show ?case
    using acquire permits_put [OF acquire(3)] holder_in_flight [OF inv acquire(3)]
    by (auto simp: secrets_inv_def intro!: tasks_inv_put)
next
  case (recheck_hit st i s v t)
  then show ?case
    using served_ok holder_in_flight [OF _ recheck_hit(3)]
    by (auto simp: secrets_inv_def intro!: tasks_inv_put permits_put_le [OF recheck_hit(3)])
next
  case (recheck_miss st i s)
  then show ?case
    using holder_in_flight [OF _ recheck_miss(3)]
    by (auto simp: secrets_inv_def intro!: tasks_inv_put permits_put_le [OF recheck_miss(3)])
next
  case (fetched st i s v)
  let ?d = "Dropping s (Served v (sv_now st) (sv_now st)) True"
  let ?st = "st\<lparr>sv_cached := Some (v, sv_now st), sv_log := sv_log st @ [(v, sv_now st)]\<rparr>"
  have inv: "tasks_inv ttl st" "permits st \<le> 1" "log_inv ttl st" using fetched(1,4) by (simp_all add: secrets_inv_def)
  have stale: "read_cache ttl st = None"
    using inv(1) at_pc_in_set [OF fetched(3)] by (auto simp: tasks_inv_def)
  have mono: "outcome_ok ttl (sv_log st) r \<Longrightarrow> outcome_ok ttl (sv_log ?st) r" for r by (cases r) auto
  have "tasks_inv ttl (put i ?d ?st)"
    unfolding tasks_inv_def
  proof (intro ballI conjI allI impI)
    fix p assume p: "p \<in> set (sv_tasks (put i ?d ?st))"
    then have cases: "p = ?d \<or> p \<in> set (sv_tasks st)"
      using set_update_subset_insert [of "sv_tasks st" i ?d] by auto
    show "sv_inflight (put i ?d ?st) = Some s'" if "semaphore_of p = Some s'" for s'
      using cases that inv(1) holder_in_flight [OF inv(1) fetched(3)] by (auto simp: tasks_inv_def)
    show "outcome_ok ttl (sv_log (put i ?d ?st)) r" if "outcome_of p = Some r" for r
      using cases that inv(1) mono by (auto simp: tasks_inv_def)
    show "read_cache ttl (put i ?d ?st) = None" if "p = Fetching s'" for s'
      using no_permit_elsewhere [OF inv(2) fetched(3), of p ?d] p that by simp
  qed
  moreover have "at_pc ?st i (Fetching s)" using fetched(3) by (simp add: at_pc_def)
  moreover have "permits ?st = permits st" by (simp add: permits_def)
  ultimately show ?case
    using fetched(2) inv log_inv_fetched [OF inv(3) stale, of v] permits_put [of ?st i "Fetching s" ?d]
    by (auto simp: secrets_inv_def)
next
  case (fetched_absent st i s)
  then show ?case
    using holder_in_flight [OF _ fetched_absent(3)]
    by (auto simp: secrets_inv_def intro!: tasks_inv_put permits_put_le [OF fetched_absent(3)])
next
  case (fetch_failed st i s)
  then show ?case
    using holder_in_flight [OF _ fetch_failed(3)]
    by (auto simp: secrets_inv_def intro!: tasks_inv_put permits_put_le [OF fetch_failed(3)])
next
  case (release st i s r b)
  then show ?case
    using outcome_kept [OF _ release(3)]
    by (auto simp: secrets_inv_def intro!: tasks_inv_put permits_put_le [OF release(3)])
next
  case (prune st i r)
  let ?st = "prune_inflight st"
  have inv: "tasks_inv ttl st" "permits st \<le> 1" "log_inv ttl st" using prune(1,4) by (simp_all add: secrets_inv_def)
  have same: "sv_tasks ?st = sv_tasks st" "sv_log ?st = sv_log st" "read_cache ttl ?st = read_cache ttl st"
      "log_inv ttl ?st = log_inv ttl st"
    by (cases "sv_inflight st"; simp add: prune_inflight_def read_cache_def log_inv_def split: option.split)+
  have "tasks_inv ttl ?st"
  proof (cases "upgrade st")
    case None
    from inv(1) upgrade_None_no_holder [OF inv(1) None] show ?thesis by (auto simp: tasks_inv_def same)
  next
    case (Some s)
    then have "?st = st" by (auto simp: upgrade_def prune_inflight_def split: option.splits if_splits)
    with inv(1) show ?thesis by simp
  qed
  moreover have "at_pc ?st i (Pruning r)" using prune(3) by (simp add: at_pc_def same)
  moreover have "permits ?st = permits st" by (simp add: permits_def same)
  ultimately show ?case
    using prune(2) inv permits_put [of ?st i "Pruning r" "Answered r"] outcome_kept [OF inv(1) prune(3)]
    by (auto simp: secrets_inv_def same intro!: tasks_inv_put)
next
  case (cancelled st i p)
  then show ?case
    by (auto simp: secrets_inv_def intro!: tasks_inv_put permits_put_le [OF cancelled(3)] split: if_splits)
qed

lemma secrets_reachable_inv: "secrets_reachable ttl st \<Longrightarrow> secrets_inv ttl st"
proof (induction rule: secrets_reachable.induct)
  case (start now)
  show ?case
    by (simp add: secrets_inv_def tasks_inv_def permits_def log_inv_def secrets_initial_def)
next
  case (run st st')
  then show ?case by (blast intro: secret_step_inv)
qed

section \<open>Properties\<close>

text \<open>C24: whatever the interleaving, cancellations and answers of the service, one secret is fetched by
  at most one task at a time, although the semaphore that guards it is only weakly referenced and
  recreated; its successful fetches are at least the cache's time to live apart; and every value
  handed out is one that the service answered, less than the time to live ago.\<close>

theorem secrets_single_fetch:
  assumes "secrets_reachable ttl st"
  shows "length (filter has_permit (sv_tasks st)) \<le> 1 \<and>
    sorted_wrt (\<lambda>p q. snd p + ttl \<le> snd q) (sv_log st) \<and>
    list_all (\<lambda>p. case p of
        Answered (Served v t n) \<Rightarrow> (v, t) \<in> set (sv_log st) \<and> (n = t \<or> n - t < ttl)
      | _ \<Rightarrow> True) (sv_tasks st)"
proof -
  have inv: "secrets_inv ttl st" by (rule secrets_reachable_inv [OF assms])
  have "case p of Answered (Served v t n) \<Rightarrow> (v, t) \<in> set (sv_log st) \<and> (n = t \<or> n - t < ttl) | _ \<Rightarrow> True"
    if "p \<in> set (sv_tasks st)" for p
    using inv that unfolding secrets_inv_def tasks_inv_def
    by (auto split: task.splits outcome.splits)
  with inv show ?thesis
    by (simp add: secrets_inv_def permits_def log_inv_def list_all_iff)
qed

section \<open>Concrete instances\<close>

text \<open>Two tasks ask at once; the second gets what the first fetched.\<close>

lemma secrets_run:
  "\<exists>st. secrets_reachable 300 st \<and>
     sv_tasks st = [Answered (Served ''s3cr3t'' 7 7), Answered (Served ''s3cr3t'' 7 7)] \<and>
     sv_log st = [(''s3cr3t'', 7)]"
proof -
  define mk where "mk c f n l ts = \<lparr>sv_now = 7, sv_cached = c, sv_inflight = f, sv_next = n, sv_log = l, sv_tasks = ts\<rparr>"
    for c f n l ts
  let ?v = "(''s3cr3t'', 7 :: nat)"
  let ?r = "Served ''s3cr3t'' 7 7"
  note simps = mk_def put_def at_pc_def read_cache_def upgrade_def alive_def prune_inflight_def
  have s0: "secrets_reachable 300 (mk None None 0 [] [])"
    using secrets_reachable.start [of 300 7] by (simp add: secrets_initial_def mk_def)
  have s1: "secrets_reachable 300 (mk None None 0 [] [Asking])"
    using secrets_reachable.run [OF s0 secret_step.arrive] by (simp add: mk_def)
  have s2: "secrets_reachable 300 (mk None None 0 [] [Asking, Asking])"
    using secrets_reachable.run [OF s1 secret_step.arrive] by (simp add: mk_def)
  have s3: "secrets_reachable 300 (mk None None 0 [] [CacheMissed, Asking])"
    using secrets_reachable.run [OF s2 secret_step.miss [of _ 0]] by (simp add: simps)
  have s4: "secrets_reachable 300 (mk None None 0 [] [CacheMissed, CacheMissed])"
    using secrets_reachable.run [OF s3 secret_step.miss [of _ 1]] by (simp add: simps)
  have s5: "secrets_reachable 300 (mk None None 0 [] [WantWriteLock, CacheMissed])"
    using secrets_reachable.run [OF s4 secret_step.not_found [of _ 0]] by (simp add: simps)
  have s6: "secrets_reachable 300 (mk None (Some 0) 1 [] [Queued 0, CacheMissed])"
    using secrets_reachable.run [OF s5 secret_step.create [of _ 0]] by (simp add: simps)
  have s7: "secrets_reachable 300 (mk None (Some 0) 1 [] [Queued 0, Queued 0])"
    using secrets_reachable.run [OF s6 secret_step.found [of _ 1 0]] by (simp add: simps)
  have s8: "secrets_reachable 300 (mk None (Some 0) 1 [] [Permitted 0, Queued 0])"
    using secrets_reachable.run [OF s7 secret_step.acquire [of _ 0 0]] by (simp add: simps)
  have s9: "secrets_reachable 300 (mk None (Some 0) 1 [] [Fetching 0, Queued 0])"
    using secrets_reachable.run [OF s8 secret_step.recheck_miss [of _ 0 0]] by (simp add: simps)
  have s10: "secrets_reachable 300 (mk (Some ?v) (Some 0) 1 [?v] [Dropping 0 ?r True, Queued 0])"
    using secrets_reachable.run [OF s9 secret_step.fetched [of _ 0 0 _ "''s3cr3t''"]] by (simp add: simps)
  have s11: "secrets_reachable 300 (mk (Some ?v) (Some 0) 1 [?v] [Pruning ?r, Queued 0])"
    using secrets_reachable.run [OF s10 secret_step.release [of _ 0 0 ?r True]] by (simp add: simps)
  have s12: "secrets_reachable 300 (mk (Some ?v) (Some 0) 1 [?v] [Answered ?r, Queued 0])"
    using secrets_reachable.run [OF s11 secret_step.prune [of _ 0 ?r]] by (simp add: simps)
  have s13: "secrets_reachable 300 (mk (Some ?v) (Some 0) 1 [?v] [Answered ?r, Permitted 0])"
    using secrets_reachable.run [OF s12 secret_step.acquire [of _ 1 0]] by (simp add: simps)
  have s14: "secrets_reachable 300 (mk (Some ?v) (Some 0) 1 [?v] [Answered ?r, Dropping 0 ?r False])"
    using secrets_reachable.run [OF s13 secret_step.recheck_hit [of _ 1 0 _ "''s3cr3t''" 7]] by (simp add: simps)
  have "secrets_reachable 300 (mk (Some ?v) (Some 0) 1 [?v] [Answered ?r, Answered ?r])"
    using secrets_reachable.run [OF s14 secret_step.release [of _ 1 0 ?r False]] by (simp add: simps)
  then show ?thesis by (intro exI conjI) (auto simp: mk_def)
qed

lemma secrets_single_fetch_witness:
  "\<exists>st. secrets_reachable 300 st \<and> length (sv_tasks st) = 2 \<and> sv_log st = [(''s3cr3t'', 7)] \<and>
     length (filter has_permit (sv_tasks st)) \<le> 1"
proof -
  obtain st where "secrets_reachable 300 st" "length (sv_tasks st) = 2" "sv_log st = [(''s3cr3t'', 7)]"
    using secrets_run by fastforce
  with secrets_single_fetch [of 300 st] show ?thesis by blast
qed

end
