(* ===== verification/Jwks_Flight.thy ===== *)
theory Jwks_Flight
  imports Jwt
begin

text \<open>
  The refresh of the JWKS key store under concurrency (\<open>JwksKeyStore::find_key\<close> in
  \<open>auth/backends/jwt.rs\<close>) as a step relation: any number of requests look up keys at the same time.

  A request holds the permit of \<open>fetch_lock\<close> in its own future, while the fetch runs in a detached task of
  its own, so a dropped request gives the permit back and leaves its fetch running.  A step is what a
  request or a fetch does between two points where another thread can interfere; a lookup
  in the snapshot is one step, and a fetch reads the clock when it has prepared the keys and publishes the snapshot after that.  The endpoint may answer anything at
  any time, a detached task may be lost to a panic, and a request may be dropped at any await.
\<close>

section \<open>Requests, fetches and their history\<close>

datatype 'key ask =
    Looking string                      \<comment> \<open>about to look at the snapshot\<close>
  | Waiting string                      \<comment> \<open>waits for the permit\<close>
  | Leading string                      \<comment> \<open>has the permit, about to look again\<close>
  | Awaiting string nat                 \<comment> \<open>has the permit, awaits the detached fetch\<close>
  | Replied string "(auth_error, 'key \<times> algorithm) result" nat "nat option"
      \<comment> \<open>the answer, when, and after which fetch of its own\<close>
  | Gone                                \<comment> \<open>its future was dropped\<close>

datatype 'key fetch =
    Running
  | Prepared "'key prepared_jwks"
  | Finished "(auth_error, 'key prepared_jwks) result"
  | Lost string

datatype 'key flight_event = Started nat | Published "'key prepared_jwks"

text \<open>The log has the newest event first; \<open>jf_orphans\<close> are the fetches whose request was dropped.\<close>

record 'key jwks_flight =
  jf_now :: nat
  jf_cached :: "'key prepared_jwks option"
  jf_warned :: "string list"
  jf_permit :: bool
  jf_asks :: "'key ask list"
  jf_fetches :: "'key fetch list"
  jf_orphans :: "nat list"
  jf_log :: "'key flight_event list"

fun holds_fetch_permit :: "'key ask \<Rightarrow> bool" where
  "holds_fetch_permit (Leading kid) \<longleftrightarrow> True"
| "holds_fetch_permit (Awaiting kid n) \<longleftrightarrow> True"
| "holds_fetch_permit _ \<longleftrightarrow> False"

fun in_flight :: "'key fetch \<Rightarrow> bool" where
  "in_flight Running \<longleftrightarrow> True"
| "in_flight (Prepared p) \<longleftrightarrow> True"
| "in_flight _ \<longleftrightarrow> False"

definition ask_at :: "'key jwks_flight \<Rightarrow> nat \<Rightarrow> 'key ask \<Rightarrow> bool" where
  "ask_at st i a \<longleftrightarrow> i < length (jf_asks st) \<and> jf_asks st ! i = a"

definition fetch_at :: "'key jwks_flight \<Rightarrow> nat \<Rightarrow> 'key fetch \<Rightarrow> bool" where
  "fetch_at st n f \<longleftrightarrow> n < length (jf_fetches st) \<and> jf_fetches st ! n = f"

definition put_ask :: "nat \<Rightarrow> 'key ask \<Rightarrow> 'key jwks_flight \<Rightarrow> 'key jwks_flight" where
  "put_ask i a st = st\<lparr>jf_asks := (jf_asks st)[i := a]\<rparr>"

definition put_fetch :: "nat \<Rightarrow> 'key fetch \<Rightarrow> 'key jwks_flight \<Rightarrow> 'key jwks_flight" where
  "put_fetch n f st = st\<lparr>jf_fetches := (jf_fetches st)[n := f]\<rparr>"

definition lookup_now :: "jwks_config \<Rightarrow> 'key jwks_flight \<Rightarrow> string \<Rightarrow> 'key cache_lookup" where
  "lookup_now c st kid = cache_lookup (jc_cache_ttl c) (jf_now st) (jf_cached st) kid"

text \<open>What \<open>find_key\<close> answers from a lookup that is not stale, and from the fetch it awaited.\<close>

definition lookup_reply :: "string \<Rightarrow> 'key cache_lookup \<Rightarrow> (auth_error, 'key \<times> algorithm) result option" where
  "lookup_reply kid l =
     (case l of Hit k \<Rightarrow> Some (Ok k) | FreshButMissing \<Rightarrow> Some (Err (kid_not_found kid)) | Stale \<Rightarrow> None)"

fun fetch_reply :: "string \<Rightarrow> 'key fetch \<Rightarrow> (auth_error, 'key \<times> algorithm) result option" where
  "fetch_reply kid (Finished (Ok p)) =
     Some (case pj_keys p kid of Some k \<Rightarrow> Ok k | None \<Rightarrow> Err (kid_not_found kid))"
| "fetch_reply kid (Finished (Err e)) = Some (Err e)"
| "fetch_reply kid (Lost e) = Some (Err (BackendError (jwks_error_text (FetchTask e))))"
| "fetch_reply kid _ = None"

inductive flight_step :: "'key jwt_env \<Rightarrow> jwks_config \<Rightarrow> 'key jwks_flight \<Rightarrow> 'key jwks_flight \<Rightarrow> bool" for jv c where
  arrive: "flight_step jv c st (st\<lparr>jf_asks := jf_asks st @ [Looking kid]\<rparr>)"
| tick: "flight_step jv c st (st\<lparr>jf_now := jf_now st + d\<rparr>)"
| answer: "ask_at st i (Looking kid) \<Longrightarrow> lookup_reply kid (lookup_now c st kid) = Some r \<Longrightarrow>
    flight_step jv c st (put_ask i (Replied kid r (jf_now st) None) st)"
| stale: "ask_at st i (Looking kid) \<Longrightarrow> lookup_now c st kid = Stale \<Longrightarrow> flight_step jv c st (put_ask i (Waiting kid) st)"
| acquire: "ask_at st i (Waiting kid) \<Longrightarrow> jf_permit st \<Longrightarrow>
    flight_step jv c st (put_ask i (Leading kid) (st\<lparr>jf_permit := False\<rparr>))"
| recheck: "ask_at st i (Leading kid) \<Longrightarrow> lookup_reply kid (lookup_now c st kid) = Some r \<Longrightarrow>
    flight_step jv c st (put_ask i (Replied kid r (jf_now st) None) (st\<lparr>jf_permit := True\<rparr>))"
| spawn: "ask_at st i (Leading kid) \<Longrightarrow> lookup_now c st kid = Stale \<Longrightarrow>
    flight_step jv c st (put_ask i (Awaiting kid (length (jf_fetches st)))
      (st\<lparr>jf_fetches := jf_fetches st @ [Running], jf_log := Started (jf_now st) # jf_log st\<rparr>))"
| prepared: "fetch_at st n Running \<Longrightarrow> fetch_jwks jv c response = Ok jwks \<Longrightarrow>
    prepare_keys jv jwks Map.empty (jf_warned st) = (keys, warned) \<Longrightarrow>
    flight_step jv c st (put_fetch n (Prepared \<lparr>pj_fetched_at = jf_now st, pj_keys = keys\<rparr>) (st\<lparr>jf_warned := warned\<rparr>))"
| publish: "fetch_at st n (Prepared p) \<Longrightarrow>
    flight_step jv c st (put_fetch n (Finished (Ok p)) (st\<lparr>jf_cached := Some p, jf_log := Published p # jf_log st\<rparr>))"
| fetch_failed: "fetch_at st n Running \<Longrightarrow> fetch_jwks jv c response = Err e \<Longrightarrow>
    flight_step jv c st (put_fetch n (Finished (Err e)) st)"
| lost: "fetch_at st n f \<Longrightarrow> in_flight f \<Longrightarrow> flight_step jv c st (put_fetch n (Lost e) st)"
| joined: "ask_at st i (Awaiting kid n) \<Longrightarrow> fetch_at st n f \<Longrightarrow> fetch_reply kid f = Some r \<Longrightarrow>
    flight_step jv c st (put_ask i (Replied kid r (jf_now st) (Some n)) (st\<lparr>jf_permit := True\<rparr>))"
| drop_early: "ask_at st i a \<Longrightarrow> a = Looking kid \<or> a = Waiting kid \<Longrightarrow> flight_step jv c st (put_ask i Gone st)"
| drop_leader: "ask_at st i (Awaiting kid n) \<Longrightarrow>
    flight_step jv c st (put_ask i Gone (st\<lparr>jf_permit := True, jf_orphans := jf_orphans st @ [n]\<rparr>))"

definition flight_initial :: "nat \<Rightarrow> 'key jwks_flight" where
  "flight_initial now =
     \<lparr>jf_now = now, jf_cached = None, jf_warned = [], jf_permit = True, jf_asks = [], jf_fetches = [],
      jf_orphans = [], jf_log = []\<rparr>"

inductive flight_reachable :: "'key jwt_env \<Rightarrow> jwks_config \<Rightarrow> 'key jwks_flight \<Rightarrow> bool" for jv c where
  start: "flight_reachable jv c (flight_initial now)"
| run: "flight_reachable jv c st \<Longrightarrow> flight_step jv c st st' \<Longrightarrow> flight_reachable jv c st'"

section \<open>Observations of the history\<close>

fun last_published :: "'key flight_event list \<Rightarrow> 'key prepared_jwks option" where
  "last_published [] = None"
| "last_published (Published p # h) = Some p"
| "last_published (Started t # h) = last_published h"

text \<open>Every fetch was started when the latest snapshot, if there was one, had outlived its time.\<close>

fun starts_stale :: "nat \<Rightarrow> 'key flight_event list \<Rightarrow> bool" where
  "starts_stale ttl [] \<longleftrightarrow> True"
| "starts_stale ttl (Published p # h) \<longleftrightarrow> starts_stale ttl h"
| "starts_stale ttl (Started t # h) \<longleftrightarrow>
     starts_stale ttl h \<and> (case last_published h of Some p \<Rightarrow> pj_fetched_at p + ttl \<le> t | None \<Rightarrow> True)"

definition snapshots :: "'key flight_event list \<Rightarrow> 'key prepared_jwks list" where
  "snapshots h = List.map_filter (\<lambda>e. case e of Published p \<Rightarrow> Some p | Started t \<Rightarrow> None) h"

lemma snapshots_simps [simp]:
  "snapshots [] = []" "snapshots (Published p # h) = p # snapshots h" "snapshots (Started t # h) = snapshots h"
  by (simp_all add: snapshots_def map_filter_def)

lemma last_published_snapshots: "last_published h = (case snapshots h of [] \<Rightarrow> None | p # ps \<Rightarrow> Some p)"
  by (induction h rule: last_published.induct) simp_all

definition flying :: "'key jwks_flight \<Rightarrow> nat set" where
  "flying st = {n. n < length (jf_fetches st) \<and> in_flight (jf_fetches st ! n)}"

text \<open>A key that was answered was published under its id, and not too long ago: it was taken from the
  cache before the end of its time, or came with the request's own fetch.\<close>

definition reply_ok :: "nat \<Rightarrow> 'key jwks_flight \<Rightarrow> 'key ask \<Rightarrow> bool" where
  "reply_ok ttl st a \<longleftrightarrow>
     (case a of
        Replied kid (Ok k) t own \<Rightarrow>
          (\<exists>p \<in> set (snapshots (jf_log st)). pj_keys p kid = Some k \<and>
             (case own of None \<Rightarrow> t - pj_fetched_at p < ttl | Some n \<Rightarrow> fetch_at st n (Finished (Ok p))))
      | _ \<Rightarrow> True)"

section \<open>Who holds the permit\<close>

lemma flight_put_simps [simp]:
  "jf_now (put_ask i a st) = jf_now st" "jf_cached (put_ask i a st) = jf_cached st"
  "jf_warned (put_ask i a st) = jf_warned st" "jf_permit (put_ask i a st) = jf_permit st"
  "jf_fetches (put_ask i a st) = jf_fetches st" "jf_orphans (put_ask i a st) = jf_orphans st"
  "jf_log (put_ask i a st) = jf_log st" "jf_asks (put_ask i a st) = (jf_asks st)[i := a]"
  "jf_now (put_fetch n f st) = jf_now st" "jf_cached (put_fetch n f st) = jf_cached st"
  "jf_warned (put_fetch n f st) = jf_warned st" "jf_permit (put_fetch n f st) = jf_permit st"
  "jf_asks (put_fetch n f st) = jf_asks st" "jf_orphans (put_fetch n f st) = jf_orphans st"
  "jf_log (put_fetch n f st) = jf_log st" "jf_fetches (put_fetch n f st) = (jf_fetches st)[n := f]"
  by (simp_all add: put_ask_def put_fetch_def)

definition awaited :: "'key jwks_flight \<Rightarrow> nat \<Rightarrow> bool" where
  "awaited st n \<longleftrightarrow> (\<exists>i kid. ask_at st i (Awaiting kid n))"

definition holders :: "'key jwks_flight \<Rightarrow> nat" where
  "holders st = length (filter holds_fetch_permit (jf_asks st))"

definition permit_inv :: "'key jwks_flight \<Rightarrow> bool" where
  "permit_inv st \<longleftrightarrow> holders st = (if jf_permit st then 0 else 1) \<and>
     (\<forall>n. awaited st n \<longrightarrow> n < length (jf_fetches st)) \<and>
     (\<forall>n \<in> flying st. n \<in> set (jf_orphans st) \<or> awaited st n)"

lemma holders_put:
  assumes "ask_at st i b"
  shows "holders (put_ask i a st) + (if holds_fetch_permit b then 1 else 0) =
    holders st + (if holds_fetch_permit a then 1 else 0)"
  using filter_update_count [of i "jf_asks st" holds_fetch_permit a] assms by (auto simp: holders_def ask_at_def)

lemma holder_counts: "ask_at st i a \<Longrightarrow> holds_fetch_permit a \<Longrightarrow> 0 < holders st"
  by (auto simp: ask_at_def holders_def filter_empty_conv)

lemma ask_at_put: "ask_at (put_ask i a st) j b \<longleftrightarrow> (if j = i then i < length (jf_asks st) \<and> a = b else ask_at st j b)"
  by (auto simp: ask_at_def)

lemma ask_at_unique: "ask_at st i a \<Longrightarrow> ask_at st i b \<Longrightarrow> a = b"
  by (simp add: ask_at_def)

lemma awaited_put:
  assumes "ask_at st i b"
  shows "awaited (put_ask i a st) n \<longleftrightarrow> (\<exists>kid. a = Awaiting kid n) \<or> (\<exists>j kid. j \<noteq> i \<and> ask_at st j (Awaiting kid n))"
proof -
  have "i < length (jf_asks st)" using assms by (simp add: ask_at_def)
  then show ?thesis unfolding awaited_def ask_at_put by auto
qed

lemma awaited_keep:
  assumes "ask_at st i b" and "\<And>kid. b \<noteq> Awaiting kid n"
  shows "awaited (put_ask i a st) n \<longleftrightarrow> (\<exists>kid. a = Awaiting kid n) \<or> awaited st n"
proof -
  have "j \<noteq> i" if "ask_at st j (Awaiting kid n)" for j kid using ask_at_unique [OF assms(1)] assms(2) that by blast
  then show ?thesis unfolding awaited_put [OF assms(1)] awaited_def [of st] by blast
qed

lemma ask_at_fields [simp]:
  "ask_at (st\<lparr>jf_permit := p\<rparr>) i a = ask_at st i a" "ask_at (st\<lparr>jf_orphans := os\<rparr>) i a = ask_at st i a"
  "ask_at (st\<lparr>jf_fetches := fs\<rparr>) i a = ask_at st i a" "ask_at (st\<lparr>jf_log := h\<rparr>) i a = ask_at st i a"
  by (simp_all add: ask_at_def)

lemma holders_fields [simp]:
  "holders (st\<lparr>jf_permit := p\<rparr>) = holders st" "holders (st\<lparr>jf_orphans := os\<rparr>) = holders st"
  "holders (st\<lparr>jf_fetches := fs\<rparr>) = holders st" "holders (st\<lparr>jf_log := h\<rparr>) = holders st"
  "holders (st\<lparr>jf_now := t\<rparr>) = holders st" "holders (st\<lparr>jf_cached := cd\<rparr>) = holders st"
  "holders (st\<lparr>jf_warned := ws\<rparr>) = holders st" "holders (put_fetch n f st) = holders st"
  by (simp_all add: holders_def)

lemma flying_same: "jf_fetches st' = jf_fetches st \<Longrightarrow> flying st' = flying st"
  by (simp add: flying_def)

lemma flying_settled:
  assumes "jf_fetches st' = (jf_fetches st)[n := g]" and "\<not> in_flight g"
  shows "flying st' \<subseteq> flying st"
  using assms by (cases "n < length (jf_fetches st)") (auto simp: flying_def nth_list_update split: if_splits)

lemma awaited_fields [simp]:
  "awaited (st\<lparr>jf_permit := p\<rparr>) n = awaited st n" "awaited (st\<lparr>jf_orphans := os\<rparr>) n = awaited st n"
  "awaited (st\<lparr>jf_fetches := fs\<rparr>) n = awaited st n" "awaited (st\<lparr>jf_log := h\<rparr>) n = awaited st n"
  "awaited (st\<lparr>jf_now := t\<rparr>) n = awaited st n" "awaited (st\<lparr>jf_cached := cd\<rparr>) n = awaited st n"
  "awaited (st\<lparr>jf_warned := ws\<rparr>) n = awaited st n" "awaited (put_fetch m f st) n = awaited st n"
  by (simp_all add: awaited_def ask_at_def)

lemma permit_inv_release:
  assumes inv: "permit_inv st" and at: "ask_at st i (Awaiting kid n)"
    and st': "jf_asks st' = (jf_asks st)[i := a]" "\<not> holds_fetch_permit a" "jf_permit st'" "jf_fetches st' = jf_fetches st"
      "set (jf_orphans st) \<subseteq> set (jf_orphans st')" "n \<in> set (jf_orphans st') \<or> n \<notin> flying st"
  shows "permit_inv st'"
proof -
  have same: "holders st' = holders (put_ask i a st)" "awaited st' m = awaited (put_ask i a st) m" for m
    using st'(1) by (simp_all add: holders_def awaited_def ask_at_def)
  have "holders st' = 0"
    using holders_put [OF at, of a] holder_counts [OF at] inv st'(2) by (simp add: same permit_inv_def split: if_splits)
  moreover have "\<not> (\<exists>kid. a = Awaiting kid m)" for m using st'(2) by auto
  then have aw: "awaited st' m \<longleftrightarrow> (\<exists>j kid'. j \<noteq> i \<and> ask_at st j (Awaiting kid' m))" for m
    unfolding same(2) awaited_put [OF at] by blast
  then have "n' < length (jf_fetches st')" if "awaited st' n'" for n'
    using that inv st'(4) unfolding permit_inv_def awaited_def [of st] by metis
  moreover have "m \<in> set (jf_orphans st') \<or> awaited st' m" if "m \<in> flying st'" for m
  proof (cases "m \<in> set (jf_orphans st) \<or> m = n")
    case False
    have "m \<in> flying st" using that flying_same [OF st'(4)] by simp
    with False have "awaited st m" using inv by (auto simp: permit_inv_def)
    then obtain j k where j: "ask_at st j (Awaiting k m)" unfolding awaited_def by blast
    then have "j \<noteq> i" using ask_at_unique [OF at] False by auto
    with j aw show ?thesis by blast
  qed (use st'(5,6) that flying_same [OF st'(4)] in auto)
  ultimately show ?thesis using st'(3) by (simp add: permit_inv_def)
qed

lemma permit_inv_step:
  assumes "flight_step jv c st st'" and inv: "permit_inv st"
  shows "permit_inv st'"
  using assms(1)
proof cases
  case (arrive kid)
  have "holders st' = holders st" "flying st' = flying st" by (simp_all add: arrive holders_def flying_def)
  moreover have "awaited st' n \<longleftrightarrow> awaited st n" for n
    by (auto simp: arrive awaited_def ask_at_def nth_append)
  ultimately show ?thesis using inv by (simp add: permit_inv_def arrive)
next
  case (tick d)
  then show ?thesis using inv by (simp add: permit_inv_def flying_def)
next
  case (answer i kid r)
  then show ?thesis using inv holders_put [OF answer(2)] awaited_keep [OF answer(2)] by (simp add: permit_inv_def flying_def)
next
  case (stale i kid)
  then show ?thesis using inv holders_put [OF stale(2)] awaited_keep [OF stale(2)] by (simp add: permit_inv_def flying_def)
next
  case (acquire i kid)
  have "ask_at (st\<lparr>jf_permit := False\<rparr>) i (Waiting kid)" using acquire by simp
  from holders_put [OF this] awaited_keep [OF this] show ?thesis
    using inv acquire by (simp add: permit_inv_def flying_def)
next
  case (recheck i kid r)
  have "ask_at (st\<lparr>jf_permit := True\<rparr>) i (Leading kid)" using recheck by simp
  from holders_put [OF this] awaited_keep [OF this] holder_counts [OF recheck(2)] show ?thesis
    using inv recheck by (simp add: permit_inv_def flying_def split: if_splits)
next
  case (spawn i kid)
  let ?st = "st\<lparr>jf_fetches := jf_fetches st @ [Running], jf_log := Started (jf_now st) # jf_log st\<rparr>"
  have at: "ask_at ?st i (Leading kid)" using spawn by simp
  have "awaited st' n \<longleftrightarrow> n = length (jf_fetches st) \<or> awaited st n" for n
    unfolding spawn(1) using awaited_keep [OF at] by auto
  moreover have "flying st' = insert (length (jf_fetches st)) (flying st)"
    by (auto simp: spawn flying_def nth_append)
  moreover have "holders st' = holders st"
    using holders_put [OF at, of "Awaiting kid (length (jf_fetches st))"] by (simp add: spawn(1))
  ultimately show ?thesis using inv unfolding spawn(1) by (auto simp: permit_inv_def)
next
  case (prepared n response jwks keys warned)
  have "flying st' = insert n (flying st)" "n \<in> flying st"
    using prepared by (auto simp: flying_def fetch_at_def nth_list_update)
  then show ?thesis using inv by (auto simp: permit_inv_def prepared(1) insert_absorb)
next
  case (publish n p)
  have "flying st' \<subseteq> flying st" by (rule flying_settled [where n = n], simp add: publish(1), simp)
  then show ?thesis using inv by (auto simp: permit_inv_def publish(1))
next
  case (fetch_failed n response e)
  have "flying st' \<subseteq> flying st" by (rule flying_settled [where n = n], simp add: fetch_failed(1), simp)
  then show ?thesis using inv by (auto simp: permit_inv_def fetch_failed(1))
next
  case (lost n f e)
  have "flying st' \<subseteq> flying st" by (rule flying_settled [where n = n], simp add: lost(1), simp)
  then show ?thesis using inv by (auto simp: permit_inv_def lost(1))
next
  case (joined i kid n f r)
  have "n \<notin> flying st" using joined by (cases f) (auto simp: flying_def fetch_at_def)
  then show ?thesis by (intro permit_inv_release [OF inv joined(2), of st' "Replied kid r (jf_now st) (Some n)"]) (simp_all add: joined(1))
next
  case (drop_early i a kid)
  then show ?thesis using inv holders_put [OF drop_early(2)] awaited_keep [OF drop_early(2)]
    by (auto simp: permit_inv_def flying_def)
next
  case (drop_leader i kid n)
  then show ?thesis by (intro permit_inv_release [OF inv drop_leader(2), of st' Gone]) auto
qed


section \<open>The snapshot, the fetches and the answers\<close>

definition fetches_ok :: "'key jwks_flight \<Rightarrow> bool" where
  "fetches_ok st \<longleftrightarrow>
     (\<forall>n p. fetch_at st n (Prepared p) \<longrightarrow> pj_fetched_at p \<le> jf_now st) \<and>
     (\<forall>n p. fetch_at st n (Finished (Ok p)) \<longrightarrow> p \<in> set (snapshots (jf_log st)))"

definition history_inv :: "nat \<Rightarrow> 'key jwks_flight \<Rightarrow> bool" where
  "history_inv ttl st \<longleftrightarrow>
     jf_cached st = last_published (jf_log st) \<and> starts_stale ttl (jf_log st) \<and>
     (\<forall>p \<in> set (snapshots (jf_log st)). pj_fetched_at p \<le> jf_now st) \<and> fetches_ok st"

lemma fetch_at_fields [simp]:
  "fetch_at (put_ask i a st) n f = fetch_at st n f"
  "fetch_at (st\<lparr>jf_now := t\<rparr>) n f = fetch_at st n f" "fetch_at (st\<lparr>jf_cached := cd\<rparr>) n f = fetch_at st n f"
  "fetch_at (st\<lparr>jf_warned := ws\<rparr>) n f = fetch_at st n f" "fetch_at (st\<lparr>jf_permit := b\<rparr>) n f = fetch_at st n f"
  "fetch_at (st\<lparr>jf_asks := as\<rparr>) n f = fetch_at st n f" "fetch_at (st\<lparr>jf_orphans := os\<rparr>) n f = fetch_at st n f"
  "fetch_at (st\<lparr>jf_log := h\<rparr>) n f = fetch_at st n f"
  by (simp_all add: fetch_at_def)

lemma fetch_at_put: "fetch_at (put_fetch n f st) m g \<longleftrightarrow> (if m = n then n < length (jf_fetches st) \<and> f = g else fetch_at st m g)"
  by (auto simp: fetch_at_def)

lemma fetch_at_append:
  "fetch_at (st\<lparr>jf_fetches := jf_fetches st @ [f]\<rparr>) m g \<longleftrightarrow> fetch_at st m g \<or> m = length (jf_fetches st) \<and> f = g"
  by (auto simp: fetch_at_def nth_append)

lemma fetch_at_unique: "fetch_at st n f \<Longrightarrow> fetch_at st n g \<Longrightarrow> f = g"
  by (simp add: fetch_at_def)

lemma lookup_now_stale:
  "lookup_now c st kid = Stale \<longleftrightarrow>
     (case jf_cached st of None \<Rightarrow> True | Some p \<Rightarrow> jc_cache_ttl c \<le> jf_now st - pj_fetched_at p)"
  by (auto simp: lookup_now_def cache_lookup_def split: option.splits)

lemma last_published_in: "last_published h = Some p \<Longrightarrow> p \<in> set (snapshots h)"
  by (auto simp: last_published_snapshots split: list.splits)

lemma history_inv_step:
  assumes "flight_step jv c st st'" and inv: "history_inv (jc_cache_ttl c) st"
  shows "history_inv (jc_cache_ttl c) st'"
  using assms(1)
proof cases
  case (tick d)
  then show ?thesis using inv by (auto simp: history_inv_def fetches_ok_def intro: trans_le_add1)
next
  case (spawn i kid)
  have "case last_published (jf_log st) of Some p \<Rightarrow> pj_fetched_at p + jc_cache_ttl c \<le> jf_now st | None \<Rightarrow> True"
  proof (cases "last_published (jf_log st)")
    case (Some p)
    then have "pj_fetched_at p \<le> jf_now st" using inv by (auto simp: history_inv_def dest: last_published_in)
    with Some show ?thesis using spawn(3) inv by (simp add: lookup_now_stale history_inv_def)
  qed simp
  then show ?thesis using inv by (auto simp: spawn(1) history_inv_def fetches_ok_def fetch_at_append)
next
  case (prepared n response jwks keys warned)
  then show ?thesis using inv by (auto simp: history_inv_def fetches_ok_def fetch_at_put split: if_splits)
next
  case (publish n p)
  then show ?thesis using inv by (auto simp: history_inv_def fetches_ok_def fetch_at_put split: if_splits)
next
  case (fetch_failed n response e)
  then show ?thesis using inv by (auto simp: history_inv_def fetches_ok_def fetch_at_put split: if_splits)
next
  case (lost n f e)
  then show ?thesis using inv by (auto simp: history_inv_def fetches_ok_def fetch_at_put split: if_splits)
qed (use inv in \<open>simp_all add: history_inv_def fetches_ok_def\<close>)

definition replies_inv :: "nat \<Rightarrow> 'key jwks_flight \<Rightarrow> bool" where
  "replies_inv ttl st \<longleftrightarrow> (\<forall>a \<in> set (jf_asks st). reply_ok ttl st a)"

text \<open>What was answered stays justified: snapshots stay in the log and settled fetches stay settled.\<close>

lemma step_keeps_snapshots: "flight_step jv c st st' \<Longrightarrow> set (snapshots (jf_log st)) \<subseteq> set (snapshots (jf_log st'))"
  by (erule flight_step.cases) auto

lemma step_keeps_finished:
  assumes "flight_step jv c st st'" and fin: "fetch_at st n (Finished r)"
  shows "fetch_at st' n (Finished r)"
  using assms(1)
proof cases
  case (lost m f e)
  then show ?thesis using fin fetch_at_unique [OF fin, of f] by (auto simp: fetch_at_put)
qed (use fin in \<open>auto simp: fetch_at_put fetch_at_append dest: fetch_at_unique\<close>)

lemma reply_ok_step:
  assumes step: "flight_step jv c st st'" and ok: "reply_ok ttl st a"
  shows "reply_ok ttl st' a"
proof (cases "\<exists>kid k t own. a = Replied kid (Ok k) t own")
  case True
  then obtain kid k t own where a: "a = Replied kid (Ok k) t own" by blast
  then show ?thesis
    using ok step_keeps_snapshots [OF step] step_keeps_finished [OF step]
    by (cases own) (auto simp: reply_ok_def)
next
  case False
  then show ?thesis by (auto simp: reply_ok_def split: ask.splits sum.splits)
qed

lemma lookup_reply_ok:
  assumes reply: "lookup_reply kid (lookup_now c st kid) = Some r" and inv: "history_inv (jc_cache_ttl c) st"
  shows "reply_ok (jc_cache_ttl c) st (Replied kid r (jf_now st) None)"
proof (cases "\<exists>k. r = Ok k")
  case True
  then obtain k where k: "r = Ok k" by blast
  with reply obtain p where p: "jf_cached st = Some p" "pj_keys p kid = Some k" "jf_now st - pj_fetched_at p < jc_cache_ttl c"
    by (auto simp: lookup_reply_def lookup_now_def cache_lookup_def not_le split: option.splits if_splits)
  then have "p \<in> set (snapshots (jf_log st))" using inv by (simp add: history_inv_def last_published_in)
  with p k show ?thesis by (auto simp: reply_ok_def)
next
  case False
  then show ?thesis by (auto simp: reply_ok_def split: sum.splits)
qed

lemma fetch_reply_ok:
  assumes at: "fetch_at st n f" and reply: "fetch_reply kid f = Some r" and inv: "history_inv ttl st"
  shows "reply_ok ttl st (Replied kid r t (Some n))"
proof (cases "\<exists>k. r = Ok k")
  case True
  then obtain k where k: "r = Ok k" by blast
  with reply obtain p where p: "f = Finished (Ok p)" "pj_keys p kid = Some k"
    by (cases "(kid, f)" rule: fetch_reply.cases) (auto split: option.splits)
  then have "p \<in> set (snapshots (jf_log st))" using inv at by (simp add: history_inv_def fetches_ok_def)
  with p k at show ?thesis by (auto simp: reply_ok_def)
next
  case False
  then show ?thesis by (auto simp: reply_ok_def split: sum.splits)
qed

lemma reply_ok_same:
  assumes "jf_log st' = jf_log st" and "jf_fetches st' = jf_fetches st"
  shows "reply_ok ttl st' a = reply_ok ttl st a"
  unfolding reply_ok_def fetch_at_def assms ..

lemma reply_ok_pending [simp]:
  "reply_ok ttl st (Looking kid)" "reply_ok ttl st (Waiting kid)" "reply_ok ttl st (Leading kid)"
  "reply_ok ttl st (Awaiting kid n)" "reply_ok ttl st Gone"
  by (simp_all add: reply_ok_def)

lemma replies_inv_step:
  assumes step: "flight_step jv c st st'" and inv: "replies_inv (jc_cache_ttl c) st"
    and history: "history_inv (jc_cache_ttl c) st"
  shows "replies_inv (jc_cache_ttl c) st'"
proof -
  have new: "reply_ok (jc_cache_ttl c) st' a \<or> a \<in> set (jf_asks st)" if "a \<in> set (jf_asks st')" for a
    using step
  proof cases
    case (answer i kid r)
    then show ?thesis
      using that lookup_reply_ok [OF answer(3) history] reply_ok_same [of st' st] set_update_subset_insert by fastforce
  next
    case (recheck i kid r)
    then show ?thesis
      using that lookup_reply_ok [OF recheck(3) history] reply_ok_same [of st' st] set_update_subset_insert by fastforce
  next
    case (joined i kid n f r)
    then show ?thesis
      using that fetch_reply_ok [OF joined(3,4) history] reply_ok_same [of st' st] set_update_subset_insert by fastforce
  qed (use that set_update_subset_insert in \<open>fastforce\<close>)+
  then show ?thesis using inv reply_ok_step [OF step] by (auto simp: replies_inv_def)
qed

section \<open>Without dropped leaders\<close>

text \<open>As long as no leader was dropped, at most one fetch flies, and each snapshot was prepared when the one
  before it had outlived its time.\<close>

definition alone_inv :: "nat \<Rightarrow> 'key jwks_flight \<Rightarrow> bool" where
  "alone_inv ttl st \<longleftrightarrow>
     sorted_wrt (\<lambda>p q. pj_fetched_at q + ttl \<le> pj_fetched_at p) (snapshots (jf_log st)) \<and>
     (\<forall>q. last_published (jf_log st) = Some q \<longrightarrow>
        (flying st \<noteq> {} \<longrightarrow> pj_fetched_at q + ttl \<le> jf_now st) \<and>
        (\<forall>n p. fetch_at st n (Prepared p) \<longrightarrow> pj_fetched_at q + ttl \<le> pj_fetched_at p))"

lemma awaited_unique:
  assumes "permit_inv st" "awaited st m" "awaited st n"
  shows "m = n"
proof -
  have "length (filter holds_fetch_permit (jf_asks st)) \<le> 1" using assms(1) by (simp add: permit_inv_def holders_def split: if_splits)
  from filter_at_most_one [OF this] show ?thesis using assms(2,3) by (fastforce simp: awaited_def ask_at_def)
qed

lemma flying_unique:
  assumes "permit_inv st" "jf_orphans st = []" "m \<in> flying st" "n \<in> flying st"
  shows "m = n"
  using assms awaited_unique [OF assms(1)] by (auto simp: permit_inv_def)

lemma card_flying:
  assumes inv: "permit_inv st"
  shows "card (flying st) \<le> Suc (length (jf_orphans st))"
proof -
  have "flying st \<subseteq> set (jf_orphans st) \<union> {n. awaited st n}" using inv by (auto simp: permit_inv_def)
  moreover have one: "card {n. awaited st n} \<le> 1" and fin: "finite {n. awaited st n}"
  proof -
    have *: "{n. awaited st n} \<subseteq> {THE n. awaited st n}" using awaited_unique [OF inv] by (auto intro: theI2)
    show "card {n. awaited st n} \<le> 1" using card_mono [OF _ *] by simp
    show "finite {n. awaited st n}" using finite_subset [OF *] by simp
  qed
  ultimately have "card (flying st) \<le> card (set (jf_orphans st) \<union> {n. awaited st n})" by (intro card_mono) auto
  also have "\<dots> \<le> card (set (jf_orphans st)) + card {n. awaited st n}" by (rule card_Un_le)
  also have "\<dots> \<le> Suc (length (jf_orphans st))" using one card_length [of "jf_orphans st"] by simp
  finally show ?thesis .
qed

lemma alone_inv_step:
  assumes "flight_step jv c st st'" and inv: "alone_inv (jc_cache_ttl c) st"
    and permit: "permit_inv st" and history: "history_inv (jc_cache_ttl c) st" and alone: "jf_orphans st = []"
  shows "alone_inv (jc_cache_ttl c) st'"
  using assms(1)
proof cases
  case (tick d)
  then show ?thesis using inv by (auto simp: alone_inv_def flying_def intro: trans_le_add1)
next
  case (spawn i kid)
  have "pj_fetched_at q + jc_cache_ttl c \<le> jf_now st" if "last_published (jf_log st) = Some q" for q
  proof -
    have "pj_fetched_at q \<le> jf_now st" using history that by (auto simp: history_inv_def dest: last_published_in)
    then show ?thesis using spawn(3) history that by (simp add: lookup_now_stale history_inv_def)
  qed
  then show ?thesis using inv by (auto simp: spawn(1) alone_inv_def fetch_at_append)
next
  case (prepared n response jwks keys warned)
  have "n \<in> flying st" using prepared(2) by (simp add: flying_def fetch_at_def)
  then have "pj_fetched_at q + jc_cache_ttl c \<le> jf_now st" if "last_published (jf_log st) = Some q" for q
    using inv that by (auto simp: alone_inv_def)
  then show ?thesis using inv by (auto simp: prepared(1) alone_inv_def fetch_at_put split: if_splits)
next
  case (publish n p)
  have n: "n \<in> flying st" using publish(2) by (simp add: flying_def fetch_at_def)
  have only: "m = n" if "m \<in> flying st" for m using flying_unique [OF permit alone that n] .
  have sub: "flying st' \<subseteq> flying st" by (rule flying_settled [where n = n], simp add: publish(1), simp)
  have "n \<notin> flying st'" by (simp add: publish(1) flying_def nth_list_update)
  with sub only have "flying st' = {}" by blast
  moreover have "\<not> fetch_at st' m (Prepared q)" for m q
    using \<open>flying st' = {}\<close> by (auto simp: flying_def fetch_at_def)
  moreover have "pj_fetched_at q + jc_cache_ttl c \<le> pj_fetched_at p" if "q \<in> set (snapshots (jf_log st))" for q
    using that inv publish(2)
    by (cases "snapshots (jf_log st)") (fastforce simp: alone_inv_def last_published_snapshots)+
  ultimately show ?thesis using inv by (simp add: publish(1) alone_inv_def)
next
  case (fetch_failed n response e)
  have "flying st' \<subseteq> flying st" by (rule flying_settled [where n = n], simp add: fetch_failed(1), simp)
  then show ?thesis using inv by (auto simp: fetch_failed(1) alone_inv_def fetch_at_put split: if_splits)
next
  case (lost n f e)
  have "flying st' \<subseteq> flying st" by (rule flying_settled [where n = n], simp add: lost(1), simp)
  then show ?thesis using inv by (auto simp: lost(1) alone_inv_def fetch_at_put split: if_splits)
qed (use inv in \<open>simp_all add: alone_inv_def flying_def\<close>)

section \<open>Reachable states\<close>

lemma step_orphans: "flight_step jv c st st' \<Longrightarrow> jf_orphans st' = [] \<Longrightarrow> jf_orphans st = []"
  by (erule flight_step.cases) auto

lemma flight_invariants:
  assumes "flight_reachable jv c st"
  shows "permit_inv st \<and> history_inv (jc_cache_ttl c) st \<and> replies_inv (jc_cache_ttl c) st \<and>
    (jf_orphans st = [] \<longrightarrow> alone_inv (jc_cache_ttl c) st)"
  using assms
proof induction
  case (start now)
  show ?case
    by (auto simp: flight_initial_def permit_inv_def history_inv_def replies_inv_def alone_inv_def fetches_ok_def
        holders_def flying_def awaited_def ask_at_def fetch_at_def)
next
  case (run st st')
  then show ?case
    using permit_inv_step history_inv_step replies_inv_step alone_inv_step step_orphans by metis
qed

lemma arrive_ask:
  assumes "flight_reachable jv c st"
  shows "flight_reachable jv c (st\<lparr>jf_asks := jf_asks st @ [Looking kid]\<rparr>)"
  by (rule flight_reachable.run [OF assms flight_step.arrive])

text \<open>A request that comes while the store is empty and the permit is free starts a fetch.\<close>

lemma start_fetch:
  assumes "flight_reachable jv c st" "jf_permit st" "jf_cached st = None"
  shows "flight_reachable jv c (st\<lparr>jf_permit := False, jf_fetches := jf_fetches st @ [Running],
    jf_log := Started (jf_now st) # jf_log st, jf_asks := jf_asks st @ [Awaiting kid (length (jf_fetches st))]\<rparr>)"
proof -
  let ?i = "length (jf_asks st)" and ?a = "\<lambda>a. jf_asks st @ [a]"
  have at: "ask_at (st\<lparr>jf_permit := b, jf_asks := ?a a\<rparr>) ?i a" "ask_at (st\<lparr>jf_asks := ?a a\<rparr>) ?i a" for a b
    by (simp_all add: ask_at_def)
  have "flight_reachable jv c (st\<lparr>jf_asks := ?a (Waiting kid)\<rparr>)"
    using flight_reachable.run [OF arrive_ask [OF assms(1)] flight_step.stale [OF at(2)]] assms(3)
    by (simp add: put_ask_def lookup_now_stale)
  from flight_reachable.run [OF this flight_step.acquire [OF at(2)]]
  have "flight_reachable jv c (st\<lparr>jf_permit := False, jf_asks := ?a (Leading kid)\<rparr>)"
    using assms(2) by (simp add: put_ask_def)
  from flight_reachable.run [OF this flight_step.spawn [OF at(1)]] show ?thesis
    using assms(3) by (simp add: put_ask_def lookup_now_stale)
qed

section \<open>Properties\<close>

text \<open>C27: In every reachable state, each fetch that was ever started was started when no snapshot had been
  published or the latest one had outlived \<open>cache_ttl\<close>; the store holds the latest snapshot; and
  each request that was answered with a key got one that was published under its key id, either by a snapshot
  that was younger than \<open>cache_ttl\<close> when it was answered or by the fetch the request awaited itself.\<close>

theorem jwks_answers_published:
  assumes "flight_reachable jv c st"
  shows "starts_stale (jc_cache_ttl c) (jf_log st) \<and> jf_cached st = last_published (jf_log st) \<and>
    list_all (reply_ok (jc_cache_ttl c) st) (jf_asks st)"
  using flight_invariants [OF assms] by (simp add: history_inv_def replies_inv_def list_all_iff)

text \<open>C28: There is never more than one fetch in flight beyond those whose request was dropped.  As long as no
  leader was dropped, at most one fetch flies and every snapshot was taken at least \<open>cache_ttl\<close> after the
  one published before it.\<close>

theorem jwks_single_fetch:
  assumes "flight_reachable jv c st"
  shows "card (flying st) \<le> Suc (length (jf_orphans st)) \<and>
    (jf_orphans st = [] \<longrightarrow>
       sorted_wrt (\<lambda>p q. pj_fetched_at q + jc_cache_ttl c \<le> pj_fetched_at p) (snapshots (jf_log st)))"
  using flight_invariants [OF assms] card_flying by (auto simp: alone_inv_def)

text \<open>C40: A dropped leader gives the permit back while its fetch goes on, so the next request starts another one:
  any number of fetches can be in flight at the same instant, although the lock is meant to collapse
  concurrent refreshes into one.\<close>

theorem jwks_fetches_can_overlap:
  "\<exists>st. flight_reachable jv c st \<and> jf_now st = t \<and> card (flying st) = n"
proof -
  have "\<exists>st. flight_reachable jv c st \<and> jf_now st = t \<and> jf_permit st \<and> jf_cached st = None \<and> jf_fetches st = replicate n Running"
  proof (induction n)
    case 0
    show ?case using flight_reachable.start [of jv c t] by (auto simp: flight_initial_def)
  next
    case (Suc n)
    then obtain st where st: "flight_reachable jv c st" "jf_now st = t" "jf_permit st" "jf_cached st = None"
      "jf_fetches st = replicate n Running" by blast
    from flight_reachable.run [OF start_fetch [OF st(1,3,4)] flight_step.drop_leader [of _ "length (jf_asks st)"]]
    show ?case using st(2-) by (fastforce simp: ask_at_def replicate_append_same)
  qed
  then obtain st where st: "flight_reachable jv c st" "jf_now st = t" "jf_fetches st = replicate n Running" by blast
  then have "flying st = {..<n}" by (auto simp: flying_def)
  with st show ?thesis by auto
qed

section \<open>Witness\<close>

definition demo_fetched :: "string prepared_jwks" where
  "demo_fetched = \<lparr>pj_fetched_at = 7, pj_keys = [''k1'' \<mapsto> (''pem'', RS256)]\<rparr>"

text \<open>One request fetches, a second one is answered from the snapshot.\<close>

lemma flight_run:
  "\<exists>st. flight_reachable demo_jv demo_jwks st \<and> jf_log st = [Published demo_fetched, Started 7] \<and> jf_orphans st = [] \<and>
     jf_asks st = [Replied ''k1'' (Ok (''pem'', RS256)) 7 (Some 0), Replied ''k1'' (Ok (''pem'', RS256)) 7 None]"
proof -
  define mk where "mk cd b as fs h = \<lparr>jf_now = 7, jf_cached = cd, jf_warned = [], jf_permit = b, jf_asks = as, jf_fetches = fs,
    jf_orphans = [], jf_log = h\<rparr>" for cd b as h and fs :: "string fetch list"
  note simps = mk_def put_ask_def put_fetch_def ask_at_def fetch_at_def lookup_now_def cache_lookup_def lookup_reply_def
  let ?p = demo_fetched and ?r = "Replied ''k1'' (Ok (''pem'', RS256)) 7"
  have fetched: "fetch_jwks demo_jv demo_jwks (Answer 200 [Ok ''pem'']) =
      Ok [\<lparr>jwk_kid = Some ''k1'', jwk_algorithm = Some RS256, jwk_material = ''pem''\<rparr>]"
    by (simp add: fetch_jwks_def is_success_def demo_jwks_def demo_jv_def DEFAULT_JWKS_MAX_BODY_SIZE_def sat_add64_def)
  have keys: "prepare_keys demo_jv [\<lparr>jwk_kid = Some ''k1'', jwk_algorithm = Some RS256, jwk_material = ''pem''\<rparr>] Map.empty []
      = (pj_keys ?p, [])"
    by (simp add: demo_jv_def demo_fetched_def)
  have s0: "flight_reachable demo_jv demo_jwks (mk None True [] [] [])"
    using flight_reachable.start [of demo_jv demo_jwks 7] by (simp add: flight_initial_def mk_def)
  have s1: "flight_reachable demo_jv demo_jwks (mk None False [Awaiting ''k1'' 0] [Running] [Started 7])"
    using start_fetch [OF s0] by (simp add: mk_def)
  have s2: "flight_reachable demo_jv demo_jwks (mk None False [Awaiting ''k1'' 0] [Prepared ?p] [Started 7])"
    using flight_reachable.run [OF s1 flight_step.prepared [OF _ fetched, of _ 0]] keys by (simp add: simps demo_fetched_def)
  have s3: "flight_reachable demo_jv demo_jwks (mk (Some ?p) False [Awaiting ''k1'' 0] [Finished (Ok ?p)] [Published ?p, Started 7])"
    using flight_reachable.run [OF s2 flight_step.publish [of _ 0]] by (simp add: simps)
  have s4: "flight_reachable demo_jv demo_jwks (mk (Some ?p) True [?r (Some 0)] [Finished (Ok ?p)] [Published ?p, Started 7])"
    using flight_reachable.run [OF s3 flight_step.joined [of _ 0 "''k1''" 0]] by (simp add: simps demo_fetched_def)
  from arrive_ask [OF this, of "''k1''"]
  have s5: "flight_reachable demo_jv demo_jwks
      (mk (Some ?p) True [?r (Some 0), Looking ''k1''] [Finished (Ok ?p)] [Published ?p, Started 7])"
    by (simp add: simps)
  have "flight_reachable demo_jv demo_jwks
      (mk (Some ?p) True [?r (Some 0), ?r None] [Finished (Ok ?p)] [Published ?p, Started 7])"
    using flight_reachable.run [OF s5 flight_step.answer [of _ 1 "''k1''"]]
    by (simp add: simps demo_fetched_def demo_jwks_def DEFAULT_JWKS_CACHE_TTL_def)
  then show ?thesis by (fastforce simp: mk_def)
qed

lemma jwks_answers_published_witness:
  "\<exists>st :: string jwks_flight. starts_stale (jc_cache_ttl demo_jwks) (jf_log st) \<and> jf_cached st = last_published (jf_log st) \<and>
    list_all (reply_ok (jc_cache_ttl demo_jwks) st) (jf_asks st) \<and> length (jf_asks st) = 2"
proof -
  obtain st where "flight_reachable demo_jv demo_jwks st" "length (jf_asks st) = 2" using flight_run by fastforce
  with jwks_answers_published [of demo_jv demo_jwks st] show ?thesis by blast
qed

lemma jwks_single_fetch_witness:
  "\<exists>st :: string jwks_flight. card (flying st) \<le> 1 \<and> snapshots (jf_log st) = [demo_fetched]"
proof -
  obtain st where "flight_reachable demo_jv demo_jwks st" "jf_orphans st = []" "snapshots (jf_log st) = [demo_fetched]"
    using flight_run by fastforce
  with jwks_single_fetch [of demo_jv demo_jwks st] show ?thesis by auto
qed

end
