(* ===== verification/Progress.thy ===== *)
theory Progress
  imports Secrets Jwks_Flight
begin

text \<open>
  Liveness of the two waiting protocols of the crate that have no lost wake-up: \<open>AwsSecretsProvider::get_secret\<close>
  (\<open>aws/mod.rs\<close>) and \<open>JwksKeyStore::find_key\<close> (\<open>auth/backends/jwt.rs\<close>).  The locale states what makes every
  caller return: a measure that every step of the protocol itself decreases, and a step as long as somebody waits.
  Arrivals, the clock and abandoned calls are steps of the environment.
\<close>

section \<open>Protocols that settle\<close>

locale settling_protocol =
  fixes step :: "'s \<Rightarrow> 's \<Rightarrow> bool" and inv :: "'s \<Rightarrow> bool" and work :: "'s \<Rightarrow> nat" and settled :: "'s \<Rightarrow> bool"
  assumes inv_step: "inv s \<Longrightarrow> step s s' \<Longrightarrow> inv s'"
    and work_step: "inv s \<Longrightarrow> step s s' \<Longrightarrow> work s' < work s"
    and progress: "inv s \<Longrightarrow> \<not> settled s \<Longrightarrow> \<exists>s'. step s s'"
begin

lemma run_bounded: "inv s \<Longrightarrow> (step ^^ n) s s' \<Longrightarrow> inv s' \<and> n + work s' \<le> work s"
proof (induction n arbitrary: s')
  case (Suc n)
  then obtain s1 where s1: "(step ^^ n) s s1" "step s1 s'" by auto
  with Suc have "inv s1" "n + work s1 \<le> work s" by blast+
  with work_step [OF _ s1(2)] inv_step [OF _ s1(2)] show ?case by fastforce
qed simp

lemma settles: "inv s \<Longrightarrow> \<exists>s'. step\<^sup>*\<^sup>* s s' \<and> settled s'"
proof (induction "work s" arbitrary: s rule: less_induct)
  case less
  show ?case
  proof (cases "settled s")
    case False
    with less.prems obtain s1 where s1: "step s s1" using progress by blast
    with less obtain s' where "step\<^sup>*\<^sup>* s1 s'" "settled s'" using work_step inv_step by blast
    with s1 show ?thesis by (meson converse_rtranclp_into_rtranclp)
  qed blast
qed

text \<open>However the steps are scheduled, a run has at most \<open>work\<close> of them and stops only when all is settled.\<close>

lemma every_run_settles:
  "inv s \<Longrightarrow> (step ^^ n) s s' \<Longrightarrow> n \<le> work s \<and> (settled s' \<or> (\<exists>s''. step s' s''))"
  using run_bounded [of s n s'] progress [of s'] by auto

end

section \<open>The secrets provider\<close>

text \<open>How many steps a call has at most before it.\<close>

fun task_work :: "task \<Rightarrow> nat" where
  "task_work Asking = 8"
| "task_work CacheMissed = 7"
| "task_work WantWriteLock = 6"
| "task_work (Queued s) = 5"
| "task_work (Permitted s) = 4"
| "task_work (Fetching s) = 3"
| "task_work (Dropping s r b) = 2"
| "task_work (Pruning r) = 1"
| "task_work _ = 0"

definition secrets_work :: "secrets \<Rightarrow> nat" where
  "secrets_work st = sum_list (map task_work (sv_tasks st))"

definition dropped :: "secrets \<Rightarrow> nat" where
  "dropped st = length (filter (\<lambda>p. p = Dropped) (sv_tasks st))"

text \<open>A step of a call itself, and a settled state: every call has returned or was dropped.\<close>

definition secret_own :: "nat \<Rightarrow> secrets \<Rightarrow> secrets \<Rightarrow> bool" where
  "secret_own ttl st st' \<longleftrightarrow> secret_step ttl st st' \<and> secrets_work st' < secrets_work st \<and> dropped st' = dropped st"

definition secrets_settled :: "secrets \<Rightarrow> bool" where
  "secrets_settled st \<longleftrightarrow> (\<forall>p \<in> set (sv_tasks st). task_work p = 0)"

lemma work_zero: "task_work p = 0 \<longleftrightarrow> (\<exists>r. p = Answered r) \<or> p = Dropped"
  by (cases p) simp_all

lemma secrets_work_put:
  assumes "at_pc st i q" and "sv_tasks st' = (sv_tasks st)[i := p]"
  shows "secrets_work st' + task_work q = secrets_work st + task_work p"
proof -
  have "i < length (sv_tasks st)" "sv_tasks st ! i = q" using assms(1) by (simp_all add: at_pc_def)
  moreover from this have "task_work q \<le> sum_list (map task_work (sv_tasks st))"
    by (metis elem_le_sum_list length_map nth_map)
  ultimately show ?thesis
    using sum_list_update [of i "map task_work (sv_tasks st)" "task_work p"]
    by (simp add: secrets_work_def assms(2) map_update)
qed

lemma dropped_put:
  assumes "at_pc st i q" and "sv_tasks st' = (sv_tasks st)[i := p]"
  shows "dropped st' + (if q = Dropped then 1 else 0) = dropped st + (if p = Dropped then 1 else 0)"
  using filter_update_count [of i "sv_tasks st" "\<lambda>p. p = Dropped" p] assms by (auto simp: dropped_def at_pc_def)

lemma secret_own_put:
  assumes "secret_step ttl st (put i p st1)" and "at_pc st i q" and "sv_tasks st1 = sv_tasks st"
    and "task_work p < task_work q" and "p \<noteq> Dropped"
  shows "secret_own ttl st (put i p st1)"
proof -
  have "q \<noteq> Dropped" using assms(4) by auto
  with assms secrets_work_put [OF assms(2), of "put i p st1" p] dropped_put [OF assms(2), of "put i p st1" p]
  show ?thesis by (simp add: secret_own_def)
qed

text \<open>Every step is a step of a call, an arrival, the clock or a dropped call.\<close>

lemma prune_tasks [simp]: "sv_tasks (prune_inflight st) = sv_tasks st"
  by (simp add: prune_inflight_def split: option.splits)

lemma secret_step_kinds:
  assumes "secret_step ttl st st'"
  shows "secret_own ttl st st' \<or> sv_tasks st' = sv_tasks st @ [Asking] \<or> (\<exists>d. st' = st\<lparr>sv_now := sv_now st + d\<rparr>) \<or>
    dropped st < dropped st'"
  using assms
proof cases
  case (cancelled i p)
  have "p \<noteq> Dropped" using cancelled(3) by auto
  with dropped_put [OF cancelled(2), of st' Dropped] show ?thesis by (simp add: cancelled(1))
next
  case (arrive)
  then show ?thesis by simp
next
  case (tick d)
  then show ?thesis by blast
qed (rule disjI1, use assms in \<open>auto intro: secret_own_put\<close>)+

lemma permitted_progress:
  assumes "at_pc st i p" and "has_permit p"
  shows "\<exists>st'. secret_own ttl st st'"
proof (cases p)
  case (Permitted s)
  show ?thesis
  proof (cases "read_cache ttl st")
    case None
    with assms(1) Permitted have "secret_step ttl st (put i (Fetching s) st)" by (auto intro: secret_step.recheck_miss)
    from secret_own_put [OF this assms(1)] show ?thesis using Permitted by auto
  next
    case (Some vt)
    then obtain v t where "read_cache ttl st = Some (v, t)" by (cases vt) auto
    with assms(1) Permitted have "secret_step ttl st (put i (Dropping s (Served v t (sv_now st)) False) st)"
      by (auto intro: secret_step.recheck_hit)
    from secret_own_put [OF this assms(1)] show ?thesis using Permitted by auto
  qed
next
  case (Fetching s)
  with assms(1) have "secret_step ttl st (put i (Dropping s Absent True) st)" by (auto intro: secret_step.fetched_absent)
  from secret_own_put [OF this assms(1)] show ?thesis using Fetching by auto
qed (use assms(2) in auto)

text \<open>A call that waits for the permit waits for one that can go on.\<close>

lemma secrets_progress:
  assumes "\<not> secrets_settled st"
  shows "\<exists>st'. secret_own ttl st st'"
proof -
  obtain i p where at: "at_pc st i p" and unfinished: "task_work p \<noteq> 0"
    using assms by (auto simp: secrets_settled_def at_pc_def in_set_conv_nth)
  have go: "\<exists>st'. secret_own ttl st st'" if "secret_step ttl st (put i q st)" "task_work q < task_work p" "q \<noteq> Dropped" for q
    using secret_own_put [OF that(1) at refl that(2,3)] by blast
  show ?thesis
  proof (cases p)
    case Asking
    then show ?thesis
    proof (cases "read_cache ttl st")
      case (Some vt)
      then obtain v t where "read_cache ttl st = Some (v, t)" by (cases vt) auto
      with at Asking show ?thesis by (intro go [of "Answered (Served v t (sv_now st))"]) (auto intro: secret_step.hit)
    qed (use at in \<open>intro go [of CacheMissed]\<close>, auto intro: secret_step.miss)
  next
    case CacheMissed
    then show ?thesis
    proof (cases "upgrade st")
      case (Some s)
      with at CacheMissed show ?thesis by (intro go [of "Queued s"]) (auto intro: secret_step.found)
    qed (use at in \<open>intro go [of WantWriteLock]\<close>, auto intro: secret_step.not_found)
  next
    case WantWriteLock
    show ?thesis
    proof (cases "upgrade st")
      case None
      with at WantWriteLock have "secret_step ttl st (put i (Queued (sv_next st))
          (st\<lparr>sv_inflight := Some (sv_next st), sv_next := Suc (sv_next st)\<rparr>))"
        by (auto intro: secret_step.create)
      from secret_own_put [OF this at] show ?thesis using WantWriteLock by auto
    next
      case (Some s)
      with at WantWriteLock show ?thesis by (intro go [of "Queued s"]) (auto intro: secret_step.found_write)
    qed
  next
    case (Queued s)
    show ?thesis
    proof (cases "\<exists>q \<in> set (sv_tasks st). has_permit q")
      case True
      then obtain j q where "at_pc st j q" "has_permit q" by (auto simp: at_pc_def in_set_conv_nth)
      then show ?thesis by (rule permitted_progress)
    next
      case False
      then have "\<not> list_ex (\<lambda>p. semaphore_of p = Some s \<and> has_permit p) (sv_tasks st)" by (auto simp: list_ex_iff)
      with at Queued show ?thesis by (intro go [of "Permitted s"]) (auto intro: secret_step.acquire)
    qed
  next
    case (Dropping s r b)
    with at have "secret_step ttl st (put i (if b then Pruning r else Answered r) st)" using secret_step.release by blast
    from go [OF this] show ?thesis using Dropping by (cases b) auto
  next
    case (Pruning r)
    with at have "secret_step ttl st (put i (Answered r) (prune_inflight st))" by (auto intro: secret_step.prune)
    from secret_own_put [OF this at] show ?thesis using Pruning by auto
  qed (use unfinished permitted_progress [OF at] in auto)
qed

interpretation secrets_flow: settling_protocol "secret_own ttl" "secrets_reachable ttl" secrets_work secrets_settled for ttl
proof
  show "secrets_reachable ttl st'" if "secrets_reachable ttl st" "secret_own ttl st st'" for st st'
    using that by (auto simp: secret_own_def intro: secrets_reachable.run)
  show "secrets_work st' < secrets_work st" if "secret_own ttl st st'" for st st'
    using that by (simp add: secret_own_def)
qed (rule secrets_progress)

text \<open>C25: every call of \<open>get_secret\<close> that is not dropped returns, whatever the interleaving, as long as the
  service answers: from every reachable state the calls that have arrived run to an answer each, in at
  most eight steps per call on any schedule, and no schedule gets stuck before.\<close>

theorem secrets_always_answered:
  assumes "secrets_reachable ttl st"
  shows "(\<exists>st'. (secret_own ttl)\<^sup>*\<^sup>* st st' \<and> secrets_settled st') \<and>
    ((secret_own ttl ^^ n) st st' \<longrightarrow>
       n \<le> 8 * length (sv_tasks st) \<and> dropped st' = dropped st \<and> (secrets_settled st' \<or> (\<exists>st''. secret_own ttl st' st''))) \<and>
    (secret_step ttl st st' \<longrightarrow>
       secret_own ttl st st' \<or> sv_tasks st' = sv_tasks st @ [Asking] \<or> (\<exists>d. st' = st\<lparr>sv_now := sv_now st + d\<rparr>) \<or>
       dropped st < dropped st')"
proof -
  have "sum_list (map task_work ps) \<le> 8 * length ps" for ps
  proof (induction ps)
    case (Cons p ps)
    then show ?case by (cases p) auto
  qed simp
  then have bound: "secrets_work st \<le> 8 * length (sv_tasks st)" by (simp add: secrets_work_def)
  have "dropped st2 = dropped st1" if "(secret_own ttl ^^ n) st1 st2" for n st1 st2
    using that by (induction n arbitrary: st2) (fastforce simp: secret_own_def)+
  then show ?thesis
    using secrets_flow.settles [OF assms] secrets_flow.every_run_settles [OF assms, of n st'] bound
      secret_step_kinds [of ttl st st'] by fastforce
qed

section \<open>The key store\<close>

text \<open>A leading request has a fetch of two steps ahead of it.\<close>

fun ask_work :: "'key ask \<Rightarrow> nat" where
  "ask_work (Looking kid) = 6"
| "ask_work (Waiting kid) = 5"
| "ask_work (Leading kid) = 4"
| "ask_work (Awaiting kid n) = 1"
| "ask_work _ = 0"

fun fetch_work :: "'key fetch \<Rightarrow> nat" where
  "fetch_work Running = 2"
| "fetch_work (Prepared p) = 1"
| "fetch_work _ = 0"

definition flight_work :: "'key jwks_flight \<Rightarrow> nat" where
  "flight_work st = sum_list (map ask_work (jf_asks st)) + sum_list (map fetch_work (jf_fetches st))"

fun fetch_lost :: "'key fetch \<Rightarrow> bool" where
  "fetch_lost (Lost e) \<longleftrightarrow> True"
| "fetch_lost _ \<longleftrightarrow> False"

text \<open>Requests that were dropped and fetch tasks that were lost.\<close>

definition abandoned :: "'key jwks_flight \<Rightarrow> nat" where
  "abandoned st = length (filter (\<lambda>a. a = Gone) (jf_asks st)) + length (filter fetch_lost (jf_fetches st))"

definition flight_own :: "'key jwt_env \<Rightarrow> jwks_config \<Rightarrow> 'key jwks_flight \<Rightarrow> 'key jwks_flight \<Rightarrow> bool" where
  "flight_own jv c st st' \<longleftrightarrow>
     flight_step jv c st st' \<and> flight_work st' < flight_work st \<and> abandoned st' = abandoned st"

definition flight_settled :: "'key jwks_flight \<Rightarrow> bool" where
  "flight_settled st \<longleftrightarrow> (\<forall>a \<in> set (jf_asks st). ask_work a = 0) \<and> (\<forall>f \<in> set (jf_fetches st). fetch_work f = 0)"

lemma sum_list_put:
  assumes "i < length xs"
  shows "sum_list (map f (xs[i := y])) + f (xs ! i) = sum_list (map f xs) + (f y :: nat)"
proof -
  have "f (xs ! i) \<le> sum_list (map f xs)" using assms by (metis elem_le_sum_list length_map nth_map)
  then show ?thesis using assms sum_list_update [of i "map f xs" "f y"] by (simp add: map_update)
qed

lemma flight_own_ask:
  assumes "flight_step jv c st (put_ask i a st1)" and "ask_at st i b" and "jf_asks st1 = jf_asks st"
    and "jf_fetches st1 = jf_fetches st" and "ask_work a < ask_work b" and "a \<noteq> Gone"
  shows "flight_own jv c st (put_ask i a st1)"
proof -
  have i: "i < length (jf_asks st)" "jf_asks st ! i = b" using assms(2) by (simp_all add: ask_at_def)
  have "b \<noteq> Gone" using assms(5) by auto
  then have "abandoned (put_ask i a st1) = abandoned st"
    using filter_update_count [of i "jf_asks st" "\<lambda>a. a = Gone" a] i assms(3,4,6) by (simp add: abandoned_def)
  moreover have "flight_work (put_ask i a st1) < flight_work st"
    using sum_list_put [OF i(1), of ask_work a] i(2) assms(3,4,5) by (simp add: flight_work_def)
  ultimately show ?thesis using assms(1) by (simp add: flight_own_def)
qed

lemma flight_own_fetch:
  assumes "flight_step jv c st (put_fetch n f st1)" and "fetch_at st n g" and "jf_asks st1 = jf_asks st"
    and "jf_fetches st1 = jf_fetches st" and "fetch_work f < fetch_work g" and "\<not> fetch_lost f"
  shows "flight_own jv c st (put_fetch n f st1)"
proof -
  have n: "n < length (jf_fetches st)" "jf_fetches st ! n = g" using assms(2) by (simp_all add: fetch_at_def)
  have "\<not> fetch_lost g" using assms(5) by (cases g) auto
  then have "abandoned (put_fetch n f st1) = abandoned st"
    using filter_update_count [of n "jf_fetches st" fetch_lost f] n assms(3,4,6) by (simp add: abandoned_def)
  moreover have "flight_work (put_fetch n f st1) < flight_work st"
    using sum_list_put [OF n(1), of fetch_work f] n(2) assms(3,4,5) by (simp add: flight_work_def)
  ultimately show ?thesis using assms(1) by (simp add: flight_own_def)
qed

lemma flight_own_spawn:
  assumes "ask_at st i (Leading kid)" and "lookup_now c st kid = Stale"
  shows "\<exists>st'. flight_own jv c st st' \<and> st' = put_ask i (Awaiting kid (length (jf_fetches st)))
      (st\<lparr>jf_fetches := jf_fetches st @ [Running], jf_log := Started (jf_now st) # jf_log st\<rparr>)"
proof -
  have i: "i < length (jf_asks st)" "jf_asks st ! i = Leading kid" using assms(1) by (simp_all add: ask_at_def)
  let ?a = "Awaiting kid (length (jf_fetches st))"
  show ?thesis
    using flight_step.spawn [OF assms, of jv] sum_list_put [OF i(1), of ask_work ?a] i
      filter_update_count [of i "jf_asks st" "\<lambda>a. a = Gone" ?a]
    by (simp add: flight_own_def flight_work_def abandoned_def)
qed

lemma in_flight_not_lost: "in_flight f \<Longrightarrow> \<not> fetch_lost f"
  by (cases f) simp_all

lemma flight_step_kinds:
  assumes "flight_step jv c st st'"
  shows "flight_own jv c st st' \<or> (\<exists>kid. jf_asks st' = jf_asks st @ [Looking kid]) \<or>
    (\<exists>d. st' = st\<lparr>jf_now := jf_now st + d\<rparr>) \<or> abandoned st < abandoned st'"
  using assms
proof cases
  case (spawn i kid)
  then show ?thesis using flight_own_spawn [OF spawn(2,3), of jv] by blast
next
  case (lost n f e)
  then have n: "n < length (jf_fetches st)" "\<not> fetch_lost (jf_fetches st ! n)"
    by (auto simp: fetch_at_def dest: in_flight_not_lost)
  with filter_update_count [of n "jf_fetches st" fetch_lost "Lost e"] show ?thesis
    by (simp add: lost(1) abandoned_def)
next
  case (drop_early i a kid)
  then have "i < length (jf_asks st)" "jf_asks st ! i \<noteq> Gone" by (auto simp: ask_at_def)
  with filter_update_count [of i "jf_asks st" "\<lambda>a. a = Gone" Gone] show ?thesis
    by (simp add: drop_early(1) abandoned_def)
next
  case (drop_leader i kid n)
  then have "i < length (jf_asks st)" "jf_asks st ! i \<noteq> Gone" by (auto simp: ask_at_def)
  with filter_update_count [of i "jf_asks st" "\<lambda>a. a = Gone" Gone] show ?thesis
    by (simp add: drop_leader(1) abandoned_def)
qed (use assms in \<open>auto intro!: disjI1 [of "flight_own jv c st st'"] intro: flight_own_ask flight_own_fetch\<close>)

text \<open>A fetch that is in flight goes on with whatever the endpoint answers; a request that holds the permit goes
  on, or its fetch does.\<close>

lemma fetch_progress:
  assumes "fetch_at st n f" and "in_flight f"
  shows "\<exists>st'. flight_own jv c st st'"
proof (cases f)
  case Running
  have "fetch_jwks jv c (SendError ''closed'') = Err (BackendError ''closed'')" by (simp add: fetch_jwks_def)
  with assms(1) Running have "flight_step jv c st (put_fetch n (Finished (Err (BackendError ''closed''))) st)"
    by (auto intro: flight_step.fetch_failed)
  from flight_own_fetch [OF this assms(1)] show ?thesis using Running by auto
next
  case (Prepared p)
  with assms(1) have "flight_step jv c st (put_fetch n (Finished (Ok p))
      (st\<lparr>jf_cached := Some p, jf_log := Published p # jf_log st\<rparr>))"
    by (auto intro: flight_step.publish)
  from flight_own_fetch [OF this assms(1)] show ?thesis using Prepared by auto
qed (use assms(2) in auto)

lemma fetch_answered: "\<not> in_flight f \<Longrightarrow> \<exists>r. fetch_reply kid f = Some r"
  by (cases "(kid, f)" rule: fetch_reply.cases) auto

lemma holder_progress:
  assumes "permit_inv st" and "ask_at st i a" and "holds_fetch_permit a"
  shows "\<exists>st'. flight_own jv c st st'"
proof (cases a)
  case (Leading kid)
  show ?thesis
  proof (cases "lookup_reply kid (lookup_now c st kid)")
    case None
    then have "lookup_now c st kid = Stale" by (simp add: lookup_reply_def split: cache_lookup.splits)
    with assms(2) Leading show ?thesis using flight_own_spawn by blast
  next
    case (Some r)
    with assms(2) Leading have "flight_step jv c st (put_ask i (Replied kid r (jf_now st) None) (st\<lparr>jf_permit := True\<rparr>))"
      by (auto intro: flight_step.recheck)
    from flight_own_ask [OF this assms(2)] show ?thesis using Leading by auto
  qed
next
  case (Awaiting kid n)
  with assms(1,2) have n: "fetch_at st n (jf_fetches st ! n)" by (auto simp: permit_inv_def awaited_def fetch_at_def)
  show ?thesis
  proof (cases "in_flight (jf_fetches st ! n)")
    case False
    then obtain r where "fetch_reply kid (jf_fetches st ! n) = Some r" using fetch_answered by blast
    with assms(2) Awaiting n have "flight_step jv c st
        (put_ask i (Replied kid r (jf_now st) (Some n)) (st\<lparr>jf_permit := True\<rparr>))"
      by (auto intro: flight_step.joined)
    from flight_own_ask [OF this assms(2)] show ?thesis using Awaiting by auto
  qed (rule fetch_progress [OF n])
qed (use assms(3) in auto)

lemma flight_progress:
  assumes "permit_inv st" and "\<not> flight_settled st"
  shows "\<exists>st'. flight_own jv c st st'"
proof (cases "\<exists>n f. fetch_at st n f \<and> in_flight f")
  case False
  have "fetch_work f = 0" if "f \<in> set (jf_fetches st)" for f
    using False that by (cases f) (auto simp: fetch_at_def in_set_conv_nth)
  with assms(2) obtain i a where at: "ask_at st i a" and unfinished: "ask_work a \<noteq> 0"
    by (auto simp: flight_settled_def ask_at_def in_set_conv_nth)
  show ?thesis
  proof (cases a)
    case (Looking kid)
    show ?thesis
    proof (cases "lookup_reply kid (lookup_now c st kid)")
      case None
      then have "lookup_now c st kid = Stale" by (simp add: lookup_reply_def split: cache_lookup.splits)
      with at Looking have "flight_step jv c st (put_ask i (Waiting kid) st)" by (auto intro: flight_step.stale)
      from flight_own_ask [OF this at] show ?thesis using Looking by auto
    next
      case (Some r)
      with at Looking have "flight_step jv c st (put_ask i (Replied kid r (jf_now st) None) st)"
        by (auto intro: flight_step.answer)
      from flight_own_ask [OF this at] show ?thesis using Looking by auto
    qed
  next
    case (Waiting kid)
    show ?thesis
    proof (cases "jf_permit st")
      case True
      with at Waiting have "flight_step jv c st (put_ask i (Leading kid) (st\<lparr>jf_permit := False\<rparr>))"
        by (auto intro: flight_step.acquire)
      from flight_own_ask [OF this at] show ?thesis using Waiting by auto
    next
      case False
      with assms(1) have "holders st = 1" by (simp add: permit_inv_def)
      then have "filter holds_fetch_permit (jf_asks st) \<noteq> []" by (auto simp: holders_def)
      then obtain j b where "ask_at st j b" "holds_fetch_permit b"
        by (auto simp: filter_empty_conv ask_at_def in_set_conv_nth)
      with assms(1) show ?thesis by (rule holder_progress)
    qed
  qed (use unfinished holder_progress [OF assms(1) at] in auto)
qed (use fetch_progress in blast)

interpretation flight_flow: settling_protocol "flight_own jv c" "flight_reachable jv c" flight_work flight_settled for jv c
proof
  show "flight_reachable jv c st'" if "flight_reachable jv c st" "flight_own jv c st st'" for st st'
    using that by (auto simp: flight_own_def intro: flight_reachable.run)
  show "flight_work st' < flight_work st" if "flight_own jv c st st'" for st st'
    using that by (simp add: flight_own_def)
  show "\<exists>st'. flight_own jv c st st'" if "flight_reachable jv c st" "\<not> flight_settled st" for st
    using flight_progress that flight_invariants by blast
qed

text \<open>C29: every call of \<open>find_key\<close> that is not dropped returns, whatever the interleaving, as long as the endpoint
  answers or fails: the requests that have arrived and the fetches in flight run to their end, in a bounded
  number of steps on any schedule, and no schedule gets stuck before.\<close>

theorem find_key_always_answers:
  assumes "flight_reachable jv c st"
  shows "(\<exists>st'. (flight_own jv c)\<^sup>*\<^sup>* st st' \<and> flight_settled st') \<and>
    ((flight_own jv c ^^ n) st st' \<longrightarrow>
       n \<le> 6 * length (jf_asks st) + 2 * length (jf_fetches st) \<and> abandoned st' = abandoned st \<and>
       (flight_settled st' \<or> (\<exists>st''. flight_own jv c st' st''))) \<and>
    (flight_step jv c st st' \<longrightarrow>
       flight_own jv c st st' \<or> (\<exists>kid. jf_asks st' = jf_asks st @ [Looking kid]) \<or>
       (\<exists>d. st' = st\<lparr>jf_now := jf_now st + d\<rparr>) \<or> abandoned st < abandoned st')"
proof -
  have "sum_list (map ask_work as) \<le> 6 * length as" for as :: "'a ask list"
  proof (induction as)
    case (Cons a as)
    then show ?case by (cases a) auto
  qed simp
  moreover have "sum_list (map fetch_work fs) \<le> 2 * length fs" for fs :: "'a fetch list"
  proof (induction fs)
    case (Cons f fs)
    then show ?case by (cases f) auto
  qed simp
  ultimately have bound: "flight_work st \<le> 6 * length (jf_asks st) + 2 * length (jf_fetches st)"
    unfolding flight_work_def by (rule add_mono)
  have "abandoned st2 = abandoned st1" if "(flight_own jv c ^^ n) st1 st2" for n st1 st2
    using that by (induction n arbitrary: st2) (fastforce simp: flight_own_def)+
  then show ?thesis
    using flight_flow.settles [OF assms] flight_flow.every_run_settles [OF assms, of n st'] bound
      flight_step_kinds [of jv c st st'] by fastforce
qed

section \<open>Concrete instances\<close>

lemma secrets_always_answered_witness:
  "\<exists>st st'. secrets_reachable 300 st \<and> sv_tasks st = [Asking, Asking] \<and> (secret_own 300)\<^sup>*\<^sup>* st st' \<and> secrets_settled st'"
proof -
  let ?st = "\<lambda>ps. (secrets_initial 7)\<lparr>sv_tasks := ps\<rparr>"
  have "secrets_reachable 300 (?st [Asking])"
    using secrets_reachable.run [OF secrets_reachable.start secret_step.arrive, of 300 7] by (simp add: secrets_initial_def)
  from secrets_reachable.run [OF this secret_step.arrive] have st: "secrets_reachable 300 (?st [Asking, Asking])" by simp
  then obtain st' where "(secret_own 300)\<^sup>*\<^sup>* (?st [Asking, Asking]) st'" "secrets_settled st'"
    using secrets_always_answered by blast
  with st show ?thesis by (intro exI [of _ "?st [Asking, Asking]"] exI [of _ st']) simp
qed

lemma find_key_always_answers_witness:
  "\<exists>st st'. flight_reachable demo_jv demo_jwks st \<and> jf_asks st = [Looking ''k1''] \<and>
     (flight_own demo_jv demo_jwks)\<^sup>*\<^sup>* st st' \<and> flight_settled st'"
proof -
  let ?st = "(flight_initial 7)\<lparr>jf_asks := [Looking ''k1'']\<rparr> :: string jwks_flight"
  have st: "flight_reachable demo_jv demo_jwks ?st"
    using flight_reachable.run [OF flight_reachable.start flight_step.arrive, of demo_jv demo_jwks 7 "''k1''"]
    by (simp add: flight_initial_def)
  then obtain st' where "(flight_own demo_jv demo_jwks)\<^sup>*\<^sup>* ?st st'" "flight_settled st'"
    using find_key_always_answers by blast
  with st show ?thesis by (intro exI [of _ ?st] exI [of _ st']) simp
qed

end
