(* ===== verification/Observability.thy ===== *)
theory Observability
  imports Auth_Middleware Config
begin

text \<open>
  The security-tagged log format (\<open>observability/security.rs\<close>) and the sharded log and audit paths
  (\<open>observability/sharded.rs\<close>).

  The standard JSON formatter is an argument that yields the text of an event, newline included, or
  fails.  The sink of the \<open>sharded-sink\<close> crate is its \<open>push\<close> (which may shed a record) over a state,
  and the batches its workers hand to a drain.
\<close>

section \<open>Security tags\<close>

record security_format =
  sf_prefix :: string

definition security_format_new :: "string \<Rightarrow> security_format" where
  "security_format_new prefix = \<lparr>sf_prefix = prefix\<rparr>"

definition default_gasket :: security_format where
  "default_gasket = security_format_new ''rusty_gasket_auth''"

text \<open>\<open>impl Default for SecurityJsonFormat\<close>.\<close>

definition security_format_default :: security_format where
  "security_format_default = default_gasket"

definition newline :: char where "newline = char_of (10 :: nat)"
definition quote :: char where "quote = char_of (34 :: nat)"

definition security_tags :: string where
  "security_tags = ''{'' @ [quote] @ ''tags'' @ [quote] @ '':['' @ [quote] @ ''security'' @ [quote] @ ''],''"

definition format_event :: "security_format \<Rightarrow> ('e \<Rightarrow> string option) \<Rightarrow> string \<Rightarrow> 'e \<Rightarrow> string option" where
  "format_event f inner target ev =
     (if \<not> starts_with target (sf_prefix f) then inner ev
      else (case inner ev of
              None \<Rightarrow> None
            | Some buffer \<Rightarrow>
                (case strip_prefix (trim_end buffer) ''{'' of
                   Some r \<Rightarrow> Some (security_tags @ r @ [newline])
                 | None \<Rightarrow> Some buffer)))"

section \<open>The sharded sink\<close>

record sharded_sink_config =
  sk_enabled :: bool
  sk_shards :: nat
  sk_ring_capacity :: nat
  sk_drain_batch :: nat
  sk_idle_sleep_micros :: nat
  sk_shutdown_timeout_secs :: "nat option"

definition sharded_sink_config_default :: sharded_sink_config where
  "sharded_sink_config_default =
     \<lparr>sk_enabled = False, sk_shards = 1, sk_ring_capacity = 8192, sk_drain_batch = 256,
      sk_idle_sleep_micros = 100, sk_shutdown_timeout_secs = Some 5\<rparr>"

record sink_config =
  sc_name :: string
  sc_shards :: nat
  sc_ring_capacity :: nat
  sc_drain_batch :: nat
  sc_idle_sleep_micros :: nat
  sc_shutdown_timeout_secs :: "nat option"

definition to_sink_config :: "string \<Rightarrow> sharded_sink_config \<Rightarrow> sink_config" where
  "to_sink_config n c =
     \<lparr>sc_name = n, sc_shards = max (sk_shards c) 1, sc_ring_capacity = max (sk_ring_capacity c) 1,
      sc_drain_batch = max (sk_drain_batch c) 1, sc_idle_sleep_micros = max (sk_idle_sleep_micros c) 1,
      sc_shutdown_timeout_secs = sk_shutdown_timeout_secs c\<rparr>"

text \<open>A writer of one event: the formatter's writes accumulate and are pushed when it is dropped.\<close>

definition line_writer_write :: "string \<Rightarrow> string \<Rightarrow> string" where
  "line_writer_write bytes buf = buf @ bytes"

text \<open>Writing never fails and takes every byte; flushing leaves the event in the buffer until the drop.\<close>

definition line_writer_result :: "string \<Rightarrow> (string, nat) result" where
  "line_writer_result bytes = Ok (length bytes)"

definition line_writer_flush :: "string \<Rightarrow> (string, unit) result \<times> string" where
  "line_writer_flush buf = (Ok (), buf)"

definition line_writer_drop :: "(string \<Rightarrow> 's \<Rightarrow> bool \<times> 's) \<Rightarrow> string \<Rightarrow> 's \<Rightarrow> 's" where
  "line_writer_drop push buf s = (if buf \<noteq> [] then snd (push buf s) else s)"

definition log_event :: "(string \<Rightarrow> 's \<Rightarrow> bool \<times> 's) \<Rightarrow> string list \<Rightarrow> 's \<Rightarrow> 's" where
  "log_event push writes s = line_writer_drop push (fold line_writer_write writes []) s"

text \<open>A drained batch is written line by line; a failing write is dropped.  \<open>ok\<close> says which
  writes succeed.\<close>

definition write_drain :: "(nat \<Rightarrow> bool) \<Rightarrow> string list \<Rightarrow> nat \<times> string \<Rightarrow> nat \<times> string" where
  "write_drain ok batch w = fold (\<lambda>line (n, out). (Suc n, if ok n then out @ line else out)) batch w"

definition audit_drain :: "audit_event list \<Rightarrow> audit_event list \<Rightarrow> audit_event list" where
  "audit_drain batch log = fold (\<lambda>ev log. log @ [ev]) batch log"

text \<open>The audit logger a configuration gives: the inner one, or one that pushes to the sink.\<close>

datatype audit_path = InlineAudit | SinkAudit sink_config

definition audit_wrap :: "sharded_sink_config \<Rightarrow> audit_path" where
  "audit_wrap c = (if \<not> sk_enabled c then InlineAudit else SinkAudit (to_sink_config ''rusty-gasket-audit'' c))"

definition log_path :: "sharded_sink_config \<Rightarrow> sink_config option" where
  "log_path c = (if \<not> sk_enabled c then None else Some (to_sink_config ''rusty-gasket-log'' c))"

definition guard_shutdown :: "('k \<Rightarrow> (string, unit) result) \<Rightarrow> 'k option \<Rightarrow> (string, unit) result" where
  "guard_shutdown sink_shutdown sink = (case sink of Some k \<Rightarrow> sink_shutdown k | None \<Rightarrow> Ok ())"

section \<open>Properties\<close>

lemma starts_with_length: "starts_with s p \<Longrightarrow> length p \<le> length s"
  by (auto simp: starts_with_iff)

text \<open>an event of a target under the prefix whose standard text is a JSON object on one line gets the
  security tag as its first member and keeps the rest; any other event is unchanged.  The default
  prefix tags no event of the crate's own auth modules, whose targets start with
  \<open>rusty_gasket::auth\<close>.\<close>

theorem security_tagging:
  "(inner ev = Some (''{'' @ body @ ''}'' @ [newline]) \<longrightarrow>
     format_event f inner target ev =
       (if starts_with target (sf_prefix f) then Some (security_tags @ body @ ''}'' @ [newline]) else inner ev)) \<and>
   format_event default_gasket inner (''rusty_gasket::auth'' @ module) ev = inner ev"
proof
  have ws: "ws1 newline" "\<not> ws1 (CHR ''}'')"
    by (simp_all add: newline_def ws1_def) (simp add: byte_def)
  have "trim_end ((''{'' @ body @ ''}'') @ [newline]) = trim_end (''{'' @ body @ ''}'')"
    unfolding trim_end_def by (cases "newline # rev (''{'' @ body @ ''}'')" rule: trim_rev.cases) (auto simp: ws)
  moreover have "trim_end ((''{'' @ body) @ [CHR ''}'']) = (''{'' @ body) @ [CHR ''}'']"
    by (rule trim_end_solid) code_simp
  ultimately have "trim_end (''{'' @ body @ ''}'' @ [newline]) = ''{'' @ body @ ''}''" by simp
  then show "inner ev = Some (''{'' @ body @ ''}'' @ [newline]) \<longrightarrow>
     format_event f inner target ev =
       (if starts_with target (sf_prefix f) then Some (security_tags @ body @ ''}'' @ [newline]) else inner ev)"
    by (simp add: format_event_def strip_prefix_def starts_with_def)
  show "format_event default_gasket inner (''rusty_gasket::auth'' @ module) ev = inner ev"
    by (simp add: format_event_def default_gasket_def security_format_new_def starts_with_def)
qed

text \<open>A shed record is the only loss: without shedding, and with writes that succeed, the drained
  output is the concatenation of the events' texts in order.\<close>

lemma write_drain_all:
  "write_drain (\<lambda>_. True) batch (n, out) = (n + length batch, out @ concat batch)"
  unfolding write_drain_def by (induction batch arbitrary: n out) auto

lemma audit_drain_all: "audit_drain batch log = log @ batch"
  unfolding audit_drain_def by (induction batch arbitrary: log) auto

lemma log_event_pushes: "log_event push writes s = (if concat writes = [] then s else snd (push (concat writes) s))"
proof -
  have "fold line_writer_write writes buf = buf @ concat writes" for buf
    by (induction writes arbitrary: buf) (auto simp: line_writer_write_def)
  then show ?thesis by (simp add: log_event_def line_writer_drop_def)
qed

text \<open>From the events of a process to the output of its one worker, when no record is shed and no write
  fails: flushing in the middle of an event does not tear it, an event without text leaves no line, and the
  batches a worker cuts the queue into do not show.\<close>

lemma log_event_queue:
  "log_event (\<lambda>line q. (True, q @ [line])) writes q = q @ (if concat writes = [] then [] else [concat writes])"
  by (simp add: log_event_pushes)

lemma log_events_queue:
  "fold (log_event (\<lambda>line q. (True, q @ [line]))) events q = q @ filter (\<lambda>l. l \<noteq> []) (map concat events)"
  by (induction events arbitrary: q) (auto simp: log_event_queue)

lemma concat_nonempty: "concat (filter (\<lambda>l. l \<noteq> []) xs) = concat xs"
  by (induction xs) auto

lemma concat_concat_map: "concat (map concat xss) = concat (concat xss)"
  by (induction xss) auto

lemma drained_events:
  assumes "concat batches = fold (log_event (\<lambda>line q. (True, q @ [line]))) events []"
  shows "snd (fold (write_drain (\<lambda>_. True)) batches (n, out)) = out @ concat (concat events)"
proof -
  have "snd (fold (write_drain (\<lambda>_. True)) batches (n, out)) = out @ concat (concat batches)" for n out
    by (induction batches arbitrary: n out) (auto simp: write_drain_all)
  then show ?thesis by (simp add: assms log_events_queue concat_nonempty concat_concat_map)
qed

section \<open>Concrete instances\<close>

lemma security_tagging_witness:
  "format_event default_gasket (\<lambda>_. Some (''{x}'' @ [newline])) ''rusty_gasket_auth::jwt'' () =
     Some (security_tags @ ''x}'' @ [newline])"
proof -
  have "starts_with ''rusty_gasket_auth::jwt'' (sf_prefix default_gasket)" by code_simp
  with security_tagging [where inner = "\<lambda>_ :: unit. Some (''{x}'' @ [newline])" and ev = "()" and body = "''x''"
      and f = default_gasket and target = "''rusty_gasket_auth::jwt''" and module = "[]"]
  show ?thesis by simp
qed

end
