(* ===== verification/Telemetry.thy ===== *)
theory Telemetry
  imports Complex_Main Observability
begin

text \<open>
  The process-wide telemetry set-up: the tracing subscribers of \<open>observability/logging.rs\<close> and
  \<open>observability/sharded.rs\<close>, and the OpenTelemetry providers of \<open>otel.rs\<close> with their guard.

  A subscriber is what it is configured with; installing a second one panics.  \<open>json_log\<close> is the cargo
  feature \<open>json-log\<close>, \<open>rust_log\<close> the filter in \<open>RUST_LOG\<close> when it is set and well formed.  The exporters,
  the providers and what shutting one down answers are the SDK's: a record over its state.  The number
  \<open>f64::from_str\<close> reads from a text is an argument.
\<close>

section \<open>Subscribers\<close>

datatype log_format = Pretty | Json | Plain

record tracing_setup =
  ts_filter :: string
  ts_format :: log_format
  ts_service :: "string option"
  ts_sink :: "sink_config option"

definition log_format_for :: "bool \<Rightarrow> environment \<Rightarrow> log_format" where
  "log_format_for json_log env =
     (case env of Local \<Rightarrow> Pretty | _ \<Rightarrow> if json_log then Json else Plain)"

definition env_filter :: "string option \<Rightarrow> string \<Rightarrow> string" where
  "env_filter rust_log default_filter = (case rust_log of Some f \<Rightarrow> f | None \<Rightarrow> default_filter)"

definition otel_filter :: string where
  "otel_filter = ''info,h2=off,hyper=off,rustls=off,tonic=off''"

definition install :: "tracing_setup \<Rightarrow> tracing_setup option \<Rightarrow> (string, tracing_setup) result" where
  "install s global = (case global of None \<Rightarrow> Ok s | Some _ \<Rightarrow> Err ''a global default trace dispatcher has already been set'')"

definition init_tracing ::
  "bool \<Rightarrow> string option \<Rightarrow> environment \<Rightarrow> tracing_setup option \<Rightarrow> (string, tracing_setup) result" where
  "init_tracing json_log rust_log env =
     install \<lparr>ts_filter = env_filter rust_log ''info'', ts_format = log_format_for json_log env,
       ts_service = None, ts_sink = None\<rparr>"

definition init_tracing_from_env ::
  "bool \<Rightarrow> string option \<Rightarrow> (string \<Rightarrow> string option) \<Rightarrow> tracing_setup option \<Rightarrow> (string, tracing_setup) result" where
  "init_tracing_from_env json_log rust_log penv =
     (let env_str = (case penv ''GASKET_ENV'' of Some e \<Rightarrow> e | None \<Rightarrow> ''local'');
          env = (case environment_of env_str of Some e \<Rightarrow> e | None \<Rightarrow> Local)
      in init_tracing json_log rust_log env)"

definition init_tracing_with_otel ::
  "bool \<Rightarrow> string option \<Rightarrow> environment \<Rightarrow> string \<Rightarrow> tracing_setup option \<Rightarrow> (string, tracing_setup) result" where
  "init_tracing_with_otel json_log rust_log env service_name =
     install \<lparr>ts_filter = env_filter rust_log otel_filter, ts_format = log_format_for json_log env,
       ts_service = Some service_name, ts_sink = None\<rparr>"

text \<open>The sharded variants return the guard's sink beside the subscriber.\<close>

definition with_guard :: "sink_config option \<Rightarrow> (string, tracing_setup) result \<Rightarrow> (string, tracing_setup \<times> sink_config option) result" where
  "with_guard sink r = map_sum id (\<lambda>s. (s, sink)) r"

definition init_tracing_sharded ::
  "bool \<Rightarrow> string option \<Rightarrow> environment \<Rightarrow> sharded_sink_config \<Rightarrow> tracing_setup option \<Rightarrow>
   (string, tracing_setup \<times> sink_config option) result" where
  "init_tracing_sharded json_log rust_log env cfg global =
     (case log_path cfg of
        None \<Rightarrow> with_guard None (init_tracing json_log rust_log env global)
      | Some sink \<Rightarrow> with_guard (Some sink) (install
          \<lparr>ts_filter = env_filter rust_log ''info'', ts_format = log_format_for json_log env,
           ts_service = None, ts_sink = Some sink\<rparr> global))"

definition init_tracing_with_otel_sharded ::
  "bool \<Rightarrow> string option \<Rightarrow> environment \<Rightarrow> string \<Rightarrow> sharded_sink_config \<Rightarrow> tracing_setup option \<Rightarrow>
   (string, tracing_setup \<times> sink_config option) result" where
  "init_tracing_with_otel_sharded json_log rust_log env service_name cfg global =
     (case log_path cfg of
        None \<Rightarrow> with_guard None (init_tracing_with_otel json_log rust_log env service_name global)
      | Some sink \<Rightarrow> with_guard (Some sink) (install
          \<lparr>ts_filter = env_filter rust_log otel_filter, ts_format = log_format_for json_log env,
           ts_service = Some service_name, ts_sink = Some sink\<rparr> global))"

section \<open>OpenTelemetry settings\<close>

definition otlp_endpoint_is_configured :: "string option \<Rightarrow> bool" where
  "otlp_endpoint_is_configured raw = (case raw of Some v \<Rightarrow> trim v \<noteq> [] | None \<Rightarrow> False)"

datatype f64 = NaN | NegInf | Finite rat | PosInf

text \<open>\<open>f64::clamp\<close> to a finite interval; not a number stays what it is.\<close>

fun f64_clamp :: "rat \<Rightarrow> rat \<Rightarrow> f64 \<Rightarrow> f64" where
  "f64_clamp lo hi NaN = NaN"
| "f64_clamp lo hi NegInf = Finite lo"
| "f64_clamp lo hi PosInf = Finite hi"
| "f64_clamp lo hi (Finite x) = Finite (if x < lo then lo else if hi < x then hi else x)"

text \<open>The double nearest to one tenth.\<close>

definition DEFAULT_RATIO :: f64 where
  "DEFAULT_RATIO = Finite (3602879701896397 / 36028797018963968)"

definition parse_sample_ratio :: "(string \<Rightarrow> f64 option) \<Rightarrow> string option \<Rightarrow> f64" where
  "parse_sample_ratio parse_f64 raw =
     f64_clamp 0 1
       (case Option.bind raw parse_f64 of
          Some x \<Rightarrow> if x \<noteq> NaN then x else DEFAULT_RATIO
        | None \<Rightarrow> DEFAULT_RATIO)"

section \<open>OpenTelemetry providers\<close>

type_synonym resource_attributes = "(string \<times> string) list"

definition build_resource :: "string \<Rightarrow> string \<Rightarrow> string \<Rightarrow> resource_attributes" where
  "build_resource service_name service_version deployment_env =
     [(''service.name'', service_name), (''service.version'', service_version),
      (''deployment.environment'', deployment_env)]"

record ('t, 'm) otel_guard =
  og_tracer :: "'t option"
  og_meter :: "'m option"

text \<open>The SDK: its exporters, the providers over them, and a provider's shutdown, which may panic
  (the outer error) or report a failed flush (the inner one).\<close>

record ('x, 'y, 't, 'm, 'w) otel_sdk =
  os_span_exporter :: "(string, 'x) result"
  os_metric_exporter :: "(string, 'y) result"
  os_tracer_provider :: "f64 \<Rightarrow> 'x \<Rightarrow> resource_attributes \<Rightarrow> 't"
  os_meter_provider :: "'y \<Rightarrow> nat \<Rightarrow> resource_attributes \<Rightarrow> 'm"
  os_tracer_shutdown :: "'t \<Rightarrow> 'w \<Rightarrow> (string, (string, unit) result) result \<times> 'w"
  os_meter_shutdown :: "'m \<Rightarrow> 'w \<Rightarrow> (string, (string, unit) result) result \<times> 'w"

definition METRIC_INTERVAL_SECS :: nat where "METRIC_INTERVAL_SECS = 60"

text \<open>The global providers are set only when both exporters were built.\<close>

definition init_otlp ::
  "('x, 'y, 't, 'm, 'w) otel_sdk \<Rightarrow> (string \<Rightarrow> f64 option) \<Rightarrow> (string \<Rightarrow> string option) \<Rightarrow>
   string \<Rightarrow> string \<Rightarrow> string \<Rightarrow> ('t, 'm) otel_guard \<Rightarrow> (string, ('t, 'm) otel_guard) result \<times> ('t, 'm) otel_guard" where
  "init_otlp sdk parse_f64 penv service_name service_version deployment_env globals =
     (let resource = build_resource service_name service_version deployment_env in
      case os_span_exporter sdk of
        Err e \<Rightarrow> (Err (''Failed to build OTLP span exporter: '' @ e), globals)
      | Ok span_exporter \<Rightarrow>
          let sample_ratio = parse_sample_ratio parse_f64 (penv ''OTEL_TRACES_SAMPLER_ARG'');
              tracer = os_tracer_provider sdk sample_ratio span_exporter resource
          in (case os_metric_exporter sdk of
                Err e \<Rightarrow> (Err (''Failed to build OTLP metric exporter: '' @ e), globals)
              | Ok metric_exporter \<Rightarrow>
                  let meter = os_meter_provider sdk metric_exporter METRIC_INTERVAL_SECS resource;
                      guard = \<lparr>og_tracer = Some tracer, og_meter = Some meter\<rparr>
                  in (Ok guard, guard)))"

definition try_init ::
  "('x, 'y, 't, 'm, 'w) otel_sdk \<Rightarrow> (string \<Rightarrow> f64 option) \<Rightarrow> (string \<Rightarrow> string option) \<Rightarrow>
   string \<Rightarrow> string \<Rightarrow> string \<Rightarrow> ('t, 'm) otel_guard \<Rightarrow>
   (string, ('t, 'm) otel_guard) result option \<times> ('t, 'm) otel_guard" where
  "try_init sdk parse_f64 penv service_name service_version deployment_env globals =
     (if otlp_endpoint_is_configured (penv ''OTEL_EXPORTER_OTLP_ENDPOINT'')
      then map_prod Some id (init_otlp sdk parse_f64 penv service_name service_version deployment_env globals)
      else (None, globals))"

section \<open>Shutting the providers down\<close>

definition provider_shutdown ::
  "('p \<Rightarrow> 'w \<Rightarrow> (string, (string, unit) result) result \<times> 'w) \<Rightarrow> 'p option \<Rightarrow> 'w \<Rightarrow>
   (string, (string, unit) result option) result \<times> 'w" where
  "provider_shutdown shut p w = (case p of None \<Rightarrow> (Ok None, w) | Some p \<Rightarrow> map_prod (map_sum id Some) id (shut p w))"

text \<open>What the blocking task does; a panic of the first shutdown leaves the second out.\<close>

definition shutdown_both ::
  "('x, 'y, 't, 'm, 'w) otel_sdk \<Rightarrow> ('t, 'm) otel_guard \<Rightarrow> 'w \<Rightarrow>
   (string, (string, unit) result option \<times> (string, unit) result option) result \<times> 'w" where
  "shutdown_both sdk g w =
     (case provider_shutdown (os_tracer_shutdown sdk) (og_tracer g) w of
        (Err p, w) \<Rightarrow> (Err p, w)
      | (Ok tr, w) \<Rightarrow>
          (case provider_shutdown (os_meter_shutdown sdk) (og_meter g) w of
             (Err p, w) \<Rightarrow> (Err p, w)
           | (Ok mr, w) \<Rightarrow> (Ok (tr, mr), w)))"

definition shutdown_error :: "string \<Rightarrow> (string, unit) result option \<Rightarrow> string list" where
  "shutdown_error what r = (case r of Some (Err e) \<Rightarrow> [what @ e] | _ \<Rightarrow> [])"

definition SHUTDOWN_DEADLINE_SECS :: nat where "SHUTDOWN_DEADLINE_SECS = 5"

text \<open>\<open>OtelGuard::shutdown\<close>: what the drop of the emptied guard finds, the logged errors and the state
  once the blocking task is through.  \<open>in_time\<close> says whether that is before the deadline; after it the task
  is abandoned and still runs.\<close>

definition otel_shutdown ::
  "('x, 'y, 't, 'm, 'w) otel_sdk \<Rightarrow> bool \<Rightarrow> ('t, 'm) otel_guard \<Rightarrow> 'w \<Rightarrow> ('t, 'm) otel_guard \<times> string list \<times> 'w" where
  "otel_shutdown sdk in_time g w =
     (let (r, w) = shutdown_both sdk g w;
          errors = (if \<not> in_time then [''OTEL shutdown exceeded deadline; abandoning provider flush'']
            else (case r of
                Err p \<Rightarrow> [''OTEL shutdown task panicked: '' @ p]
              | Ok (tr, mr) \<Rightarrow> shutdown_error ''Failed to shut down OTEL tracer provider: '' tr @
                  shutdown_error ''Failed to shut down OTEL meter provider: '' mr))
      in (\<lparr>og_tracer = None, og_meter = None\<rparr>, errors, w))"

text \<open>\<open>Drop for OtelGuard\<close>; a panic is the outer error.\<close>

definition otel_drop :: "('x, 'y, 't, 'm, 'w) otel_sdk \<Rightarrow> ('t, 'm) otel_guard \<Rightarrow> 'w \<Rightarrow> (string, string list) result \<times> 'w" where
  "otel_drop sdk g w =
     (case provider_shutdown (os_tracer_shutdown sdk) (og_tracer g) w of
        (Err p, w) \<Rightarrow> (Err p, w)
      | (Ok tr, w) \<Rightarrow>
          (case provider_shutdown (os_meter_shutdown sdk) (og_meter g) w of
             (Err p, w) \<Rightarrow> (Err p, w)
           | (Ok mr, w) \<Rightarrow>
               (Ok (shutdown_error ''Failed to shut down OTEL tracer provider on Drop: '' tr @
                    shutdown_error ''Failed to shut down OTEL meter provider on Drop: '' mr), w)))"

section \<open>Properties\<close>

lemma f64_clamp_bounds: "x \<noteq> NaN \<Longrightarrow> lo \<le> hi \<Longrightarrow> \<exists>r. f64_clamp lo hi x = Finite r \<and> lo \<le> r \<and> r \<le> hi"
  by (cases x) auto

text \<open>Whatever \<open>OTEL_TRACES_SAMPLER_ARG\<close> holds, the sampler gets a ratio between 0 and 1.\<close>

theorem sample_ratio_bounds: "\<exists>r. parse_sample_ratio parse_f64 raw = Finite r \<and> 0 \<le> r \<and> r \<le> 1"
  unfolding parse_sample_ratio_def by (rule f64_clamp_bounds) (simp_all add: DEFAULT_RATIO_def split: option.split)

text \<open>Telemetry is off exactly when the endpoint is unset or blank, and a failed set-up leaves the global
  providers alone.\<close>

theorem try_init_outcomes:
  "case try_init sdk parse_f64 penv service_name service_version deployment_env globals of
     (None, globals') \<Rightarrow> Option.bind (penv ''OTEL_EXPORTER_OTLP_ENDPOINT'') (\<lambda>v. if trim v = [] then None else Some v) = None \<and>
       globals' = globals
   | (Some (Err e), globals') \<Rightarrow> globals' = globals
   | (Some (Ok guard), globals') \<Rightarrow> globals' = guard \<and> og_tracer guard \<noteq> None \<and> og_meter guard \<noteq> None"
  by (auto simp: try_init_def init_otlp_def otlp_endpoint_is_configured_def Let_def split: option.splits sum.splits)

text \<open>the guard shuts its providers down once: after the explicit shutdown the drop of the guard does
  nothing more, and the drop of a guard that was not shut down explicitly does to the SDK exactly what the
  explicit shutdown does.\<close>

theorem otel_guard_shuts_down_once:
  "otel_shutdown sdk in_time g w = (g', errors, w') \<Longrightarrow>
   otel_drop sdk g' w' = (Ok [], w') \<and> snd (otel_drop sdk g w) = w'"
  by (auto simp: otel_shutdown_def otel_drop_def shutdown_both_def provider_shutdown_def shutdown_error_def
      split: prod.splits sum.splits option.splits)

text \<open>Sharding is transparent: with it switched off the subscriber and the guard are those of the plain
  set-up, with it on only the sink differs.\<close>

theorem sharded_tracing_same:
  "map_sum id (\<lambda>(s, sink). s\<lparr>ts_sink := None\<rparr>) (init_tracing_sharded json_log rust_log env cfg global) =
     init_tracing json_log rust_log env global \<and>
   map_sum id snd (init_tracing_sharded json_log rust_log env cfg global) =
     map_sum id (\<lambda>_. log_path cfg) (init_tracing json_log rust_log env global)"
  by (auto simp: init_tracing_sharded_def init_tracing_def install_def with_guard_def split: option.splits)

end
