(* ===== verification/Server.thy ===== *)
theory Server
  imports Plugin_Engine
begin

text \<open>
  What \<open>server::run\<close> serves with (\<open>server.rs\<close>): the shutdown signal and the TLS path beside the plain
  one.  The PEM parsers, the rustls configuration, the listener's conversion and the two servers are
  arguments over the world.

  A signal source is the instant its signal arrives, if ever; a handler that could not be installed is an
  error and its source never fires.
\<close>

section \<open>The shutdown signal\<close>

type_synonym signal_source = "(string, nat option) result"

definition source_fires :: "signal_source \<Rightarrow> nat option" where
  "source_fires s = (case s of Ok at \<Rightarrow> at | Err _ \<Rightarrow> None)"

text \<open>The select over both sources: the instant it returns, \<open>None\<close> when it never does.\<close>

definition shutdown_signal :: "signal_source \<Rightarrow> signal_source \<Rightarrow> nat option" where
  "shutdown_signal ctrl_c terminate =
     (case (source_fires ctrl_c, source_fires terminate) of
        (Some a, Some b) \<Rightarrow> Some (min a b)
      | (Some a, None) \<Rightarrow> Some a
      | (None, b) \<Rightarrow> b)"

section \<open>TLS\<close>

record ('cert, 'key, 'rc, 'std, 'l, 'r, 'w) tls_env =
  te_certs :: "string \<Rightarrow> (string, 'cert list) result"
  te_private_key :: "string \<Rightarrow> (string, 'key option) result"
  te_server_config :: "'cert list \<Rightarrow> 'key \<Rightarrow> string list \<Rightarrow> (string, 'rc) result"
  te_into_std :: "'l \<Rightarrow> (string, 'std) result"
  te_serve_tls :: "'std \<Rightarrow> 'rc \<Rightarrow> nat \<Rightarrow> 'r \<Rightarrow> 'w \<Rightarrow> string option \<times> 'w"
  te_serve :: "'l \<Rightarrow> 'r \<Rightarrow> 'w \<Rightarrow> string option \<times> 'w"

definition TLS_GRACEFUL_SHUTDOWN_SECS :: nat where "TLS_GRACEFUL_SHUTDOWN_SECS = 10"

definition serve_tls ::
  "('cert, 'key, 'rc, 'std, 'l, 'r, 'w) tls_env \<Rightarrow> 'l \<Rightarrow> 'r \<Rightarrow> tls_config \<Rightarrow> 'w \<Rightarrow> string option \<times> 'w" where
  "serve_tls te listener router tls w =
     (case te_certs te (cert_pem tls) of
        Err e \<Rightarrow> (Some e, w)
      | Ok certs \<Rightarrow>
     (case te_private_key te (key_pem tls) of
        Err e \<Rightarrow> (Some e, w)
      | Ok None \<Rightarrow> (Some ''no private key found in the TLS key PEM'', w)
      | Ok (Some key) \<Rightarrow>
     (case te_server_config te certs key [''h2'', ''http/1.1''] of
        Err e \<Rightarrow> (Some e, w)
      | Ok rustls_config \<Rightarrow>
     (case te_into_std te listener of
        Err e \<Rightarrow> (Some e, w)
      | Ok std_listener \<Rightarrow> te_serve_tls te std_listener rustls_config TLS_GRACEFUL_SHUTDOWN_SECS router w))))"

text \<open>The step of \<open>run\<close> that serves until the shutdown signal: over TLS exactly when it is configured.\<close>

definition serve_app ::
  "('cert, 'key, 'rc, 'std, 'l, 'r, 'w) tls_env \<Rightarrow> 'l \<Rightarrow> 'r \<Rightarrow> tls_config option \<Rightarrow> 'w \<Rightarrow> string option \<times> 'w" where
  "serve_app te listener router tls w =
     (case tls of Some t \<Rightarrow> serve_tls te listener router t w | None \<Rightarrow> te_serve te listener router w)"

section \<open>Properties\<close>

text \<open>A failed handler does not bring the server down: the signal is then the other source alone, and the
  signal never comes exactly when neither source can fire.\<close>

lemma shutdown_signal_sources:
  "shutdown_signal (Err e) s = source_fires s"
  "shutdown_signal s (Err e) = source_fires s"
  "shutdown_signal s t = None \<longleftrightarrow> source_fires s = None \<and> source_fires t = None"
  by (auto simp: shutdown_signal_def source_fires_def split: option.splits sum.splits)

text \<open>An application configured with TLS is never served in the clear, and with key material that does
  not parse nothing is served at all.\<close>

lemma serve_app_tls:
  "serve_app te listener router (Some tls) w = serve_app (te\<lparr>te_serve := f\<rparr>) listener router (Some tls) w"
  "te_private_key te (key_pem tls) \<in> {Ok None} \<union> range Err \<Longrightarrow> \<exists>e. serve_app te listener router (Some tls) w = (Some e, w)"
  by (auto simp: serve_app_def serve_tls_def split: sum.split option.split)

end
