(* ===== verification/App_Lifecycle.thy ===== *)
theory App_Lifecycle
  imports Server
begin

text \<open>
  The life of an application from its builder to the end of \<open>main\<close>: \<open>build().await?\<close> followed by
  \<open>server::run(app).await\<close> (\<open>plugin.rs\<close>, \<open>server.rs\<close>; the mains of the examples and the template), and the
  order in which the hooks of all plugins run on every way it can go.
\<close>

section \<open>Building and running\<close>

datatype ('io, 'e) launch_error = BuildError "'e build_error" | RunError "('io, 'e) run_error"

definition launch ::
  "bool \<Rightarrow> process_env \<Rightarrow> 'x \<Rightarrow>
   (string \<Rightarrow> 'ip option) \<Rightarrow> ('ip \<times> nat \<Rightarrow> ('io, 'addr) result) \<Rightarrow> ('w \<Rightarrow> 'io option \<times> 'w) \<Rightarrow>
   (('x, 'addr, 'act, 'r, 'e, 'w, 'auth) gasket_app \<Rightarrow> (string, 'r) result) \<Rightarrow>
   ('x, 'addr, 'act, 'r, 'e, 'w, 'auth) gasket_app_builder \<Rightarrow> 'w \<Rightarrow>
   ('io, 'e) launch_error option \<times> 'w \<times> 'e hook_log" where
  "launch ck penv empty_ext parse_ip bind serve router_of b w =
     (case build ck penv empty_ext b w of
        (Err e, w, lg) \<Rightarrow> (Some (BuildError e), w, lg)
      | (Ok app, w, lg) \<Rightarrow>
          (let (r, w, lg') = server_run parse_ip bind serve router_of app w in (map_option RunError r, w, lg @ lg')))"

section \<open>The shape of a life\<close>

text \<open>The hooks run in three sweeps over one order of the plugins: \<open>prepare\<close> over the first \<open>a\<close> of them,
  \<open>ready\<close> over the first \<open>b\<close>, \<open>shutdown\<close> over the first \<open>c\<close> backwards.\<close>

definition sweeps :: "string list \<Rightarrow> nat \<Rightarrow> nat \<Rightarrow> nat \<Rightarrow> (hook \<times> string) list" where
  "sweeps ns a b c = map (Pair HPrepare) (take a ns) @ map (Pair HReady) (take b ns) @ map (Pair HShutdown) (rev (take c ns))"

text \<open>How far the sweeps get, by the outcome, for \<open>n\<close> plugins.\<close>

definition outcome_sweeps :: "nat \<Rightarrow> ('io, 'e) launch_error option \<Rightarrow> nat \<Rightarrow> nat \<Rightarrow> nat \<Rightarrow> bool" where
  "outcome_sweeps n r a b c \<longleftrightarrow>
     (case r of
        None \<Rightarrow> a = n \<and> b = n \<and> c = n
      | Some (BuildError (PrepareFailed e)) \<Rightarrow> a \<le> n \<and> b = 0 \<and> a = Suc c
      | Some (BuildError _) \<Rightarrow> a = 0 \<and> b = 0 \<and> c = 0
      | Some (RunError (ReadyFailed e)) \<Rightarrow> a = n \<and> 0 < b \<and> b \<le> n \<and> c = 0
      | Some (RunError (ServeFailed e)) \<Rightarrow> a = n \<and> b = n \<and> c = 0
      | Some (RunError _) \<Rightarrow> a = n \<and> b = 0 \<and> c = 0)"

definition order_names :: "('x, 'addr, 'act, 'r, 'e, 'w) plugin_handle list \<Rightarrow> nat list \<Rightarrow> string list" where
  "order_names ps srt = map (\<lambda>i. pl_name (ps ! i)) srt"

lemma order_names_map: "map pl_name (map ((!) ps) srt) = order_names ps srt"
  by (simp add: order_names_def)

lemma length_order_names: "valid_order ps srt \<Longrightarrow> length (order_names ps srt) = length ps"
  using distinct_card [of srt] by (auto simp: order_names_def valid_order_def)

text \<open>A build that fails in \<open>prepare\<close> undoes what it has prepared.\<close>

lemma build_failed_sweeps:
  assumes "build ck penv x0 b w = (Err e, w', lg)"
  shows "\<exists>srt a c. hook_calls lg = sweeps (order_names (bu_plugins b) srt) a 0 c \<and>
    outcome_sweeps (length (bu_plugins b)) (Some (BuildError e) :: ('io, 'e) launch_error option) a 0 c \<and>
    (a = 0 \<or> valid_order (bu_plugins b) srt)"
proof (cases "\<exists>e'. e = PrepareFailed e'")
  case True
  then obtain e' where e: "e = PrepareFailed e'" by blast
  with build_lifecycle [OF assms] obtain srt "done" p rest sd where srt: "valid_order (bu_plugins b) srt"
    and split: "map ((!) (bu_plugins b)) srt = done @ p # rest"
    and lg: "lg = map (\<lambda>p. (HPrepare, pl_name p, None)) done @ (HPrepare, pl_name p, Some e') # sd"
      "hook_calls sd = map (\<lambda>p. (HShutdown, pl_name p)) (rev done)"
    by auto
  have ns: "order_names (bu_plugins b) srt = map pl_name done @ pl_name p # map pl_name rest"
    using arg_cong [OF split, of "map pl_name"] unfolding order_names_map by simp
  then have "length done < length (bu_plugins b)" using length_order_names [OF srt] by simp
  moreover have "hook_calls lg = sweeps (order_names (bu_plugins b) srt) (Suc (length done)) 0 (length done)"
    using lg by (simp add: sweeps_def ns rev_map comp_def)
  ultimately show ?thesis using srt
    by (intro exI [of _ srt] exI [of _ "Suc (length done)"] exI [of _ "length done"]) (simp add: e outcome_sweeps_def)
next
  case False
  then have "lg = []" using build_lifecycle [OF assms] by (cases e) auto
  then show ?thesis using False
    by (intro exI [of _ "[]"] exI [of _ 0]) (cases e, auto simp: sweeps_def outcome_sweeps_def)
qed

lemma run_sweeps:
  fixes w :: 'w
  assumes "server_run parse_ip bind serve router_of app w = (r, w', lg)"
  shows "\<exists>b c. map (Pair HPrepare) (map pl_name (ga_plugins app)) @ hook_calls lg =
      sweeps (map pl_name (ga_plugins app)) (length (ga_plugins app)) b c \<and>
    outcome_sweeps (length (ga_plugins app)) (map_option RunError r) (length (ga_plugins app)) b c"
proof (cases r)
  case None
  then show ?thesis using server_run_hooks [OF assms]
    by (intro exI [of _ "length (ga_plugins app)"]) (simp add: sweeps_def outcome_sweeps_def rev_map comp_def)
next
  case (Some e)
  note hooks = server_run_hooks [OF assms, unfolded Some option.case]
  show ?thesis
  proof (cases "\<exists>e'. e = ReadyFailed e'")
    case True
    then obtain before p rest e' where e: "e = ReadyFailed e'" and split: "ga_plugins app = before @ p # rest"
      "lg = map (\<lambda>p. (HReady, pl_name p, None)) before @ [(HReady, pl_name p, Some e')]"
      using hooks by auto
    then show ?thesis
      by (intro exI [of _ "Suc (length before)"] exI [of _ 0]) (simp add: Some sweeps_def outcome_sweeps_def comp_def)
  next
    case False
    then show ?thesis using hooks
      by (cases e) (force simp: Some sweeps_def outcome_sweeps_def comp_def)+
  qed
qed

section \<open>Property\<close>

text \<open>C9: Whatever happens from the builder to the end of \<open>main\<close>, the hooks run in three sweeps over one
  admissible order of the plugins: \<open>prepare\<close> forwards, \<open>ready\<close> forwards, \<open>shutdown\<close> backwards over a
  prefix.  So no hook of a plugin runs twice, nothing is made ready before everything is prepared, only
  prepared plugins are shut down, and those that were prepared later first.  A failed \<open>prepare\<close> shuts
  down exactly the plugins prepared before it and a clean end shuts down all of them; but when an address,
  the router, the listener, a \<open>ready\<close> hook or the server fails, every plugin stays prepared and none is
  shut down.\<close>

theorem app_lifecycle:
  "case launch ck penv x0 parse_ip bind serve router_of b w of (r, w', lg) \<Rightarrow>
     \<exists>srt i j k. hook_calls lg = sweeps (order_names (bu_plugins b) srt) i j k \<and>
       outcome_sweeps (length (bu_plugins b)) r i j k \<and> (i = 0 \<or> valid_order (bu_plugins b) srt)"
proof -
  obtain r1 w1 lg1 where build: "build ck penv x0 b w = (r1, w1, lg1)" by (metis prod_cases3)
  show ?thesis
  proof (cases r1)
    case (Inl e)
    then show ?thesis using build build_failed_sweeps [of ck penv x0 b w e w1 lg1] by (auto simp: launch_def)
  next
    case (Inr app)
    obtain srt where srt: "valid_order (bu_plugins b) srt" "ga_plugins app = map ((!) (bu_plugins b)) srt"
      "lg1 = map (\<lambda>p. (HPrepare, pl_name p, None)) (ga_plugins app)"
      using build_lifecycle [OF build] by (auto simp: Inr)
    have names: "map pl_name (ga_plugins app) = order_names (bu_plugins b) srt"
      by (simp add: srt(2) order_names_def)
    have len: "length (ga_plugins app) = length (bu_plugins b)"
      using length_order_names [OF srt(1)] arg_cong [OF names, of length] by simp
    obtain r2 w2 lg2 where run: "server_run parse_ip bind serve router_of app w1 = (r2, w2, lg2)" by (metis prod_cases3)
    obtain j k where jk: "hook_calls (lg1 @ lg2) = sweeps (order_names (bu_plugins b) srt) (length (bu_plugins b)) j k"
      "outcome_sweeps (length (bu_plugins b)) (map_option RunError r2) (length (bu_plugins b)) j k"
      using run_sweeps [OF run] unfolding names len by (auto simp: srt(3) comp_def names [symmetric])
    show ?thesis
      unfolding launch_def build Inr prod.case sum.case Let_def run using jk srt(1) by blast
  qed
qed

end
