(* ===== verification/Health.thy ===== *)
theory Health
  imports Http
begin

text \<open>
  Health checks (\<open>health.rs\<close>).  A contributor's check resolves after some nanoseconds with a
  status, or never; all checks start together, each under its own timeout.  The build metadata and
  the host name are the record \<open>built_info\<close>; the process-wide start instant is threaded, as the first
  health check sets it.
\<close>

datatype health_status = Healthy | Degraded | HealthError

record component_health =
  ch_name :: string
  ch_status :: health_status

record app_build_info =
  ab_version :: string
  ab_build_date :: string
  ab_git_sha :: string

record built_info =
  bi_git_short :: "string option"
  bi_built_time :: string
  bi_epoch :: "string option"
  bi_pkg_version :: string
  bi_rustc_version :: string
  bi_profile :: string
  bi_env :: "string \<Rightarrow> string option"

record service_status =
  ss_status :: string
  ss_version :: string
  ss_build_date :: string
  ss_pkg_version :: string
  ss_rustc_version :: string
  ss_rustc_profile :: string
  ss_hostname :: string
  ss_uptime_seconds :: nat
  ss_components :: "component_health list"

definition get_hostname :: "built_info \<Rightarrow> string" where
  "get_hostname bi =
     (case bi_env bi ''HOSTNAME'' of
        Some h \<Rightarrow> h
      | None \<Rightarrow> (case bi_env bi ''HOST'' of Some h \<Rightarrow> h | None \<Rightarrow> ''unknown''))"

definition baked_build_time :: "built_info \<Rightarrow> string" where
  "baked_build_time bi = (case bi_epoch bi of Some e \<Rightarrow> ''@'' @ e | None \<Rightarrow> bi_built_time bi)"

text \<open>\<open>START_TIME\<close>: the instant of the first call.\<close>

definition service_status_base ::
  "built_info \<Rightarrow> app_build_info option \<Rightarrow> nat \<Rightarrow> nat option \<Rightarrow> service_status \<times> nat option" where
  "service_status_base bi app now start =
     (let start' = (case start of Some s \<Rightarrow> s | None \<Rightarrow> now);
          (version, build_date) = (case app of
              Some a \<Rightarrow> (ab_version a, ab_build_date a)
            | None \<Rightarrow> (case bi_git_short bi of Some g \<Rightarrow> g | None \<Rightarrow> ''unknown'', baked_build_time bi))
      in (\<lparr>ss_status = ''ok'', ss_version = version, ss_build_date = build_date,
           ss_pkg_version = bi_pkg_version bi, ss_rustc_version = bi_rustc_version bi,
           ss_rustc_profile = bi_profile bi, ss_hostname = get_hostname bi,
           ss_uptime_seconds = (now - start') div 10 ^ 9, ss_components = []\<rparr>, Some start'))"

record contributor =
  hc_name :: string
  hc_check :: "(nat \<times> health_status) option"

definition HEALTH_CHECK_TIMEOUT :: nat where "HEALTH_CHECK_TIMEOUT = 5 * 10 ^ 9"

definition run_check :: "contributor \<Rightarrow> string \<times> health_status" where
  "run_check c =
     (hc_name c,
      case hc_check c of
        Some (t, s) \<Rightarrow> if t \<le> HEALTH_CHECK_TIMEOUT then s else HealthError
      | None \<Rightarrow> HealthError)"

definition check_duration :: "contributor \<Rightarrow> nat" where
  "check_duration c =
     (case hc_check c of
        Some (t, _) \<Rightarrow> min t HEALTH_CHECK_TIMEOUT
      | None \<Rightarrow> HEALTH_CHECK_TIMEOUT)"

fun fold_status :: "health_status \<Rightarrow> component_health list \<Rightarrow> (string \<times> health_status) list \<Rightarrow>
    health_status \<times> component_health list" where
  "fold_status overall cs [] = (overall, cs)"
| "fold_status overall cs ((n, s) # rs) =
     (let overall = (case s of
            HealthError \<Rightarrow> HealthError
          | Degraded \<Rightarrow> if overall \<noteq> HealthError then Degraded else overall
          | Healthy \<Rightarrow> overall)
      in fold_status overall (cs @ [\<lparr>ch_name = n, ch_status = s\<rparr>]) rs)"

definition overall_text :: "health_status \<Rightarrow> string" where
  "overall_text s = (case s of Healthy \<Rightarrow> ''ok'' | Degraded \<Rightarrow> ''degraded'' | HealthError \<Rightarrow> ''error'')"

definition healthcheck ::
  "built_info \<Rightarrow> app_build_info option \<Rightarrow> contributor list \<Rightarrow> nat \<Rightarrow> nat option \<Rightarrow>
   (nat \<times> service_status) \<times> nat option" where
  "healthcheck bi app contributors now start =
     (let (status, start') = service_status_base bi app now start;
          (overall, components) = fold_status Healthy [] (map run_check contributors);
          status = status\<lparr>ss_components := ss_components status @ components, ss_status := overall_text overall\<rparr>;
          http = (case overall of HealthError \<Rightarrow> 503 | _ \<Rightarrow> 200)
      in ((http, status), start'))"

definition livez :: nat where "livez = 200"

record health_plugin =
  hp_contributors :: "contributor list"
  hp_app_info :: "app_build_info option"

definition health_app_info :: "app_build_info \<Rightarrow> health_plugin \<Rightarrow> health_plugin" where
  "health_app_info a p = p\<lparr>hp_app_info := Some a\<rparr>"

definition add_contributor :: "contributor \<Rightarrow> health_plugin \<Rightarrow> health_plugin" where
  "add_contributor c p = p\<lparr>hp_contributors := hp_contributors p @ [c]\<rparr>"

text \<open>The two tagged routes: liveness in the bare group, and the health check in the public group
  with a copy of the plugin's contributors and build information as its state.\<close>

datatype health_route =
    BareLivez string
  | PublicHealthcheck string "contributor list" "app_build_info option"

definition health_routes :: "health_plugin \<Rightarrow> health_route list" where
  "health_routes p =
     [BareLivez ''/livez'', PublicHealthcheck ''/healthcheck'' (hp_contributors p) (hp_app_info p)]"

section \<open>Properties\<close>

text \<open>Severity, for the specification of the aggregate.\<close>

fun severity :: "health_status \<Rightarrow> nat" where
  "severity Healthy = 0"
| "severity Degraded = 1"
| "severity HealthError = 2"

lemma fold_status_components:
  "snd (fold_status o' cs rs) = cs @ map (\<lambda>(n, s). \<lparr>ch_name = n, ch_status = s\<rparr>) rs"
  by (induction o' cs rs rule: fold_status.induct) (auto simp: Let_def)

lemma fold_status_severity:
  "severity (fst (fold_status o' cs rs)) = Max (insert (severity o') (severity ` snd ` set rs))"
proof (induction o' cs rs rule: fold_status.induct)
  case (2 overall cs n s rs)
  let ?o = "case s of HealthError \<Rightarrow> HealthError
          | Degraded \<Rightarrow> if overall \<noteq> HealthError then Degraded else overall | Healthy \<Rightarrow> overall"
  have "severity ?o = max (severity overall) (severity s)"
    by (cases s; cases overall) auto
  moreover have "severity (fst (fold_status overall cs ((n, s) # rs))) =
      Max (insert (severity ?o) (severity ` snd ` set rs))"
    using "2.IH" by (simp add: Let_def)
  ultimately show ?case
    by (cases rs) (simp_all add: Max_insert max.assoc)
qed simp

text \<open>the health check lists every contributor once, in registration order, with its status or an
  error when it does not answer within the timeout; the overall status is the worst of them, and the
  HTTP status is 503 exactly when some contributor failed or hung.  No contributor can hold the
  answer up for more than five seconds.\<close>

theorem healthcheck_worst_of:
  "(case healthcheck bi app cs now start of ((http, status), start') \<Rightarrow>
     map ch_name (ss_components status) = map hc_name cs \<and>
     (http = 503 \<longleftrightarrow> list_ex (\<lambda>c. hc_check c = None \<or>
        (\<exists>t s. hc_check c = Some (t, s) \<and> (5 * 10 ^ 9 < t \<or> s = HealthError))) cs) \<and>
     (http = 200 \<or> http = 503) \<and>
     (\<exists>w. ss_status status = overall_text w \<and>
        severity w = Max (insert 0 (severity ` ch_status ` set (ss_components status))))) \<and>
   list_all (\<lambda>c. check_duration c \<le> 5 * 10 ^ 9) cs"
proof -
  obtain overall comps where f: "fold_status Healthy [] (map run_check cs) = (overall, comps)" by fastforce
  have comps: "comps = map (\<lambda>(n, s). \<lparr>ch_name = n, ch_status = s\<rparr>) (map run_check cs)"
    using fold_status_components [of Healthy "[]" "map run_check cs"] f by simp
  have sev: "severity overall = Max (insert 0 (severity ` ch_status ` set comps))"
    using fold_status_severity [of Healthy "[]" "map run_check cs"] f
    by (simp add: comps image_image case_prod_beta)
  have two: "severity s \<le> 2 \<and> (severity s = 2 \<longleftrightarrow> s = HealthError)" for s by (cases s) auto
  have worst: "overall = HealthError \<longleftrightarrow> (\<exists>c \<in> set cs. snd (run_check c) = HealthError)"
  proof -
    have "overall = HealthError \<longleftrightarrow> 2 \<le> Max (insert 0 (severity ` ch_status ` set comps))"
      using two [of overall] by (auto simp flip: sev)
    also have "\<dots> \<longleftrightarrow> (\<exists>x \<in> insert 0 (severity ` ch_status ` set comps). 2 \<le> x)"
      by (rule Max_ge_iff) auto
    also have "\<dots> \<longleftrightarrow> (\<exists>c \<in> set cs. 2 \<le> severity (snd (run_check c)))"
      by (auto simp: comps case_prod_beta)
    also have "\<dots> \<longleftrightarrow> (\<exists>c \<in> set cs. snd (run_check c) = HealthError)"
      using two by (metis order_antisym_conv)
    finally show ?thesis .
  qed
  have hung: "snd (run_check c) = HealthError \<longleftrightarrow> hc_check c = None \<or>
      (\<exists>t s. hc_check c = Some (t, s) \<and> (5 * 10 ^ 9 < t \<or> s = HealthError))" for c
    by (auto simp: run_check_def HEALTH_CHECK_TIMEOUT_def split: option.splits prod.splits if_splits)
  obtain base start' where b: "service_status_base bi app now start = (base, start')" by fastforce
  then have base: "ss_components base = []"
    by (auto simp: service_status_base_def Let_def split: option.splits prod.splits)
  have run: "healthcheck bi app cs now start =
      ((case overall of HealthError \<Rightarrow> 503 | _ \<Rightarrow> 200,
        base\<lparr>ss_components := comps, ss_status := overall_text overall\<rparr>), start')"
    by (simp add: healthcheck_def b f base)
  have "map ch_name comps = map hc_name cs"
    by (simp add: comps run_check_def case_prod_beta)
  moreover have "(case overall of HealthError \<Rightarrow> 503 | _ \<Rightarrow> (200 :: nat)) = 503 \<longleftrightarrow> overall = HealthError"
    by (cases overall) auto
  moreover have "list_all (\<lambda>c. check_duration c \<le> 5 * 10 ^ 9) cs"
    by (auto simp: list_all_iff check_duration_def HEALTH_CHECK_TIMEOUT_def split: option.splits)
  ultimately show ?thesis
    unfolding run using worst hung sev by (cases overall) (auto simp: list_ex_iff)
qed

end
