(* ===== verification/Storage.thy ===== *)
theory Storage
  imports Http
begin

text \<open>
  The S3 object store (\<open>aws/s3.rs\<close>), the template renderer (\<open>templates.rs\<close>) and the DynamoDB
  configuration, plugin and extractor (\<open>dynamodb/\<close>).

  The S3 service is a state \<open>'s\<close> with the operations of the SDK client, each of which may fail with a
  text; \<open>not_found\<close> marks the errors the SDK classifies as such.  The listing loop follows
  continuation tokens as long as the service gives them, so it is a partial function: \<open>None\<close> is a
  call that never returns.  The template engine is an argument.
\<close>

section \<open>Object store\<close>

record s3_error =
  s3_text :: string
  s3_not_found :: bool

record object_meta =
  om_content_length :: "nat option"
  om_content_type :: "string option"
  om_e_tag :: "string option"

record list_page =
  lp_keys :: "string option list"
  lp_truncated :: "bool option"
  lp_next :: "string option"

record object_output =
  ob_body :: "(string, string) result"
  ob_content_type :: "string option"
  ob_content_length :: "int option"

record 's s3_client =
  c3_get :: "string \<Rightarrow> string \<Rightarrow> 's \<Rightarrow> (s3_error, object_output) result \<times> 's"
  c3_put :: "string \<Rightarrow> string \<Rightarrow> string \<Rightarrow> string option \<Rightarrow> 's \<Rightarrow> (s3_error, unit) result \<times> 's"
  c3_head :: "string \<Rightarrow> string \<Rightarrow> 's \<Rightarrow> (s3_error, int option \<times> string option \<times> string option) result \<times> 's"
  c3_list :: "string \<Rightarrow> string \<Rightarrow> string option \<Rightarrow> 's \<Rightarrow> (s3_error, list_page) result \<times> 's"

definition s3_failed :: "string \<Rightarrow> string \<Rightarrow> string \<Rightarrow> string \<Rightarrow> string" where
  "s3_failed what bucket key e = ''S3 '' @ what @ '' '' @ bucket @ ''/'' @ key @ '' failed: '' @ e"

definition s3_get :: "'s s3_client \<Rightarrow> string \<Rightarrow> string \<Rightarrow> 's \<Rightarrow> (string, string) result \<times> 's" where
  "s3_get c bucket key s =
     (case c3_get c bucket key s of
        (Err e, s) \<Rightarrow> (Err (s3_failed ''get_object'' bucket key (s3_text e)), s)
      | (Ok output, s) \<Rightarrow>
          (case ob_body output of
             Ok data \<Rightarrow> (Ok data, s)
           | Err e \<Rightarrow> (Err (s3_failed ''read body'' bucket key e), s)))"

definition s3_put :: "'s s3_client \<Rightarrow> string \<Rightarrow> string \<Rightarrow> string \<Rightarrow> string option \<Rightarrow> 's \<Rightarrow> (string, unit) result \<times> 's" where
  "s3_put c bucket key body content_type s =
     (case c3_put c bucket key body content_type s of
        (Err e, s) \<Rightarrow> (Err (s3_failed ''put_object'' bucket key (s3_text e)), s)
      | (Ok _, s) \<Rightarrow> (Ok (), s))"

definition s3_head :: "'s s3_client \<Rightarrow> string \<Rightarrow> string \<Rightarrow> 's \<Rightarrow> (string, object_meta option) result \<times> 's" where
  "s3_head c bucket key s =
     (case c3_head c bucket key s of
        (Ok (len, ty, tag), s) \<Rightarrow>
          (Ok (Some \<lparr>om_content_length = Option.bind len (\<lambda>n. if 0 \<le> n then Some (nat n) else None),
             om_content_type = ty, om_e_tag = tag\<rparr>), s)
      | (Err e, s) \<Rightarrow>
          (if s3_not_found e then Ok None
           else Err (s3_failed ''head_object'' bucket key (s3_text e)), s))"

definition page_keys :: "list_page \<Rightarrow> string list" where
  "page_keys p = List.map_filter (\<lambda>k. k) (lp_keys p)"

partial_function (option) list_loop ::
  "'s s3_client \<Rightarrow> string \<Rightarrow> string \<Rightarrow> string option \<Rightarrow> string list \<Rightarrow> 's \<Rightarrow>
   ((string, string list) result \<times> 's) option" where
  "list_loop c bucket prefix continuation keys s =
     (case c3_list c bucket prefix continuation s of
        (Err e, s) \<Rightarrow> Some (Err (s3_failed ''list_objects_v2'' bucket prefix (s3_text e)), s)
      | (Ok output, s) \<Rightarrow>
          (let keys = keys @ page_keys output in
           if lp_truncated output = Some True then
             (case lp_next output of
                None \<Rightarrow> Some (Ok keys, s)
              | Some token \<Rightarrow> list_loop c bucket prefix (Some token) keys s)
           else Some (Ok keys, s)))"

definition s3_list :: "'s s3_client \<Rightarrow> string \<Rightarrow> string \<Rightarrow> 's \<Rightarrow> ((string, string list) result \<times> 's) option" where
  "s3_list c bucket prefix s = list_loop c bucket prefix None [] s"

definition text_response :: "nat \<Rightarrow> string \<Rightarrow> response" where
  "text_response status body =
     \<lparr>rs_status = status, rs_headers = [(''content-type'', hv_static ''text/plain; charset=utf-8'')], rs_body = Some body\<rparr>"

text \<open>A streamed body that breaks off is \<open>None\<close>.  \<open>header_ok\<close> says whether a content type is a legal
  header value.\<close>

definition show_int :: "int \<Rightarrow> string" where
  "show_int n = (if n < 0 then ''-'' @ show_nat (nat (- n)) else show_nat (nat n))"

definition download_response :: "(string \<Rightarrow> bool) \<Rightarrow> 's s3_client \<Rightarrow> string \<Rightarrow> string \<Rightarrow> 's \<Rightarrow> response \<times> 's" where
  "download_response header_ok c bucket key s =
     (case c3_get c bucket key s of
        (Err e, s) \<Rightarrow>
          (if s3_not_found e then text_response 404 ''not found''
           else text_response 502 ''upstream storage error'', s)
      | (Ok output, s) \<Rightarrow>
          (let ty = (case ob_content_type output of Some t \<Rightarrow> t | None \<Rightarrow> ''application/octet-stream'');
               h = [(''content-type'', hv_static ty)];
               h = (case ob_content_length output of
                      Some len \<Rightarrow> h @ [(''content-length'', hv_static (show_int len))] | None \<Rightarrow> h)
           in if \<not> header_ok ty then (text_response 500 ''response build error'', s)
              else (\<lparr>rs_status = 200, rs_headers = h,
                     rs_body = (case ob_body output of Ok b \<Rightarrow> Some b | Err _ \<Rightarrow> None)\<rparr>, s)))"

text \<open>A presigned URL needs no request: the SDK checks the validity and signs for a bucket and a key.\<close>

record 'cfg presigner =
  ps_expires_in :: "nat \<Rightarrow> (string, 'cfg) result"
  ps_sign :: "string \<Rightarrow> string \<Rightarrow> 'cfg \<Rightarrow> (string, string) result"

definition presigned_get :: "'cfg presigner \<Rightarrow> string \<Rightarrow> string \<Rightarrow> nat \<Rightarrow> (string, string) result" where
  "presigned_get ps bucket key expires_in =
     (case ps_expires_in ps expires_in of
        Err e \<Rightarrow> Err (''S3 presign config invalid: '' @ e)
      | Ok presigning \<Rightarrow>
          (case ps_sign ps bucket key presigning of
             Err e \<Rightarrow> Err (s3_failed ''presign'' bucket key e)
           | Ok uri \<Rightarrow> Ok uri))"

section \<open>Templates\<close>

text \<open>The engine: compiling a source under a name, and rendering a compiled template.\<close>

record ('t, 'c) template_engine =
  te_compile :: "string \<Rightarrow> string \<Rightarrow> (string, 't) result"
  te_render :: "'t \<Rightarrow> 'c \<Rightarrow> (string, string) result"

definition sq :: string where "sq = [char_of (39 :: nat)]"

text \<open>\<open>TemplatesBuilder\<close>: the sources in the order they were added.\<close>

definition templates_template :: "string \<Rightarrow> string \<Rightarrow> (string \<times> string) list \<Rightarrow> (string \<times> string) list" where
  "templates_template n src sources = sources @ [(n, src)]"

fun templates_build :: "('t, 'c) template_engine \<Rightarrow> (string \<times> string) list \<Rightarrow> (string \<rightharpoonup> 't) \<Rightarrow> (string, string \<rightharpoonup> 't) result" where
  "templates_build te [] env = Ok env"
| "templates_build te ((n, src) # sources) env =
     (case te_compile te n src of
        Err e \<Rightarrow> Err (''compiling template '' @ sq @ n @ sq @ '' failed: '' @ e)
      | Ok t \<Rightarrow> templates_build te sources (env(n \<mapsto> t)))"

definition templates_render :: "('t, 'c) template_engine \<Rightarrow> (string \<rightharpoonup> 't) \<Rightarrow> string \<Rightarrow> 'c \<Rightarrow> (string, string) result" where
  "templates_render te env n ctx =
     (case env n of
        None \<Rightarrow> Err (''template '' @ sq @ n @ sq @ '' not found: '')
      | Some t \<Rightarrow>
          (case te_render te t ctx of
             Ok body \<Rightarrow> Ok body
           | Err e \<Rightarrow> Err (''rendering template '' @ sq @ n @ sq @ '' failed: '' @ e)))"

definition render_html :: "('t, 'c) template_engine \<Rightarrow> (string \<rightharpoonup> 't) \<Rightarrow> string \<Rightarrow> 'c \<Rightarrow> response" where
  "render_html te env n ctx =
     (case templates_render te env n ctx of
        Ok body \<Rightarrow> \<lparr>rs_status = 200, rs_headers = [(''content-type'', hv_static ''text/html; charset=utf-8'')], rs_body = Some body\<rparr>
      | Err _ \<Rightarrow> text_response 500 ''template render error'')"

section \<open>DynamoDB configuration\<close>

record dynamo_config =
  dy_region :: string
  dy_endpoint_url :: "string option"
  dy_table_prefix :: "string option"

definition default_region :: "(string \<Rightarrow> string option) \<Rightarrow> string" where
  "default_region penv =
     (case penv ''AWS_REGION'' of
        Some r \<Rightarrow> r
      | None \<Rightarrow> (case penv ''AWS_DEFAULT_REGION'' of Some r \<Rightarrow> r | None \<Rightarrow> ''us-east-1''))"

definition dynamo_config_default :: "(string \<Rightarrow> string option) \<Rightarrow> dynamo_config" where
  "dynamo_config_default penv =
     \<lparr>dy_region = default_region penv, dy_endpoint_url = None, dy_table_prefix = None\<rparr>"

definition dynamo_from_env :: "(string \<Rightarrow> string option) \<Rightarrow> dynamo_config" where
  "dynamo_from_env penv =
     \<lparr>dy_region = default_region penv, dy_endpoint_url = penv ''DYNAMODB_ENDPOINT_URL'',
      dy_table_prefix = penv ''DYNAMODB_TABLE_PREFIX''\<rparr>"

section \<open>The DynamoDB plugin\<close>

text \<open>What the plugin and the extractor find in an extension map.\<close>

record 'c dynamo_extensions =
  dx_client :: "'c option"
  dx_layered :: "'c option"
  dx_config :: "dynamo_config option"

definition dynamo_prepare ::
  "(string \<Rightarrow> string option \<Rightarrow> 'c) \<Rightarrow> (string \<Rightarrow> string option) \<Rightarrow> (string, dynamo_config) result option \<Rightarrow>
   'c dynamo_extensions \<Rightarrow> (string, 'c dynamo_extensions) result" where
  "dynamo_prepare client_for penv section x =
     (case (case section of Some r \<Rightarrow> r | None \<Rightarrow> Ok (dynamo_from_env penv)) of
        Err e \<Rightarrow> Err e
      | Ok c \<Rightarrow> Ok (x\<lparr>dx_client := Some (client_for (dy_region c) (dy_endpoint_url c)), dx_config := Some c\<rparr>))"

text \<open>The one layer of the plugin puts the client into the extensions of every request it wraps.\<close>

definition dynamo_layers :: "'c dynamo_extensions \<Rightarrow> ('c dynamo_extensions \<Rightarrow> 'c dynamo_extensions) list" where
  "dynamo_layers x = (case dx_client x of Some c \<Rightarrow> [\<lambda>rq. rq\<lparr>dx_layered := Some c\<rparr>] | None \<Rightarrow> [])"

definition extract_dynamo_client :: "'rs \<Rightarrow> 'c dynamo_extensions \<Rightarrow> ('rs, 'c) result" where
  "extract_dynamo_client not_available rq =
     (case dx_layered rq of
        Some c \<Rightarrow> Ok c
      | None \<Rightarrow> (case dx_client rq of Some c \<Rightarrow> Ok c | None \<Rightarrow> Err not_available))"

section \<open>Properties\<close>

text \<open>Once the plugin is prepared, a handler behind its layer gets the client of the configured region and
  endpoint, whatever the request's extensions held.\<close>

lemma prepared_dynamo_client:
  "case dynamo_prepare client_for penv section x of
     Err e \<Rightarrow> section = Some (Err e)
   | Ok x' \<Rightarrow> \<exists>c layer. dx_config x' = Some c \<and> dynamo_layers x' = [layer] \<and>
       extract_dynamo_client rs (layer rq) = Ok (client_for (dy_region c) (dy_endpoint_url c))"
  by (auto simp: dynamo_prepare_def dynamo_layers_def extract_dynamo_client_def split: option.splits sum.splits)

text \<open>The pages a service gives when every continuation token is followed, to the last page.\<close>

inductive pages_from :: "'s s3_client \<Rightarrow> string \<Rightarrow> string \<Rightarrow> string option \<Rightarrow> 's \<Rightarrow> list_page list \<Rightarrow> 's \<Rightarrow> bool"
  for c bucket prefix where
  last_page: "c3_list c bucket prefix tok s = (Ok p, s') \<Longrightarrow> lp_truncated p \<noteq> Some True \<or> lp_next p = None \<Longrightarrow>
     pages_from c bucket prefix tok s [p] s'"
| more_pages: "c3_list c bucket prefix tok s = (Ok p, s1) \<Longrightarrow> lp_truncated p = Some True \<Longrightarrow> lp_next p = Some t \<Longrightarrow>
     pages_from c bucket prefix (Some t) s1 ps s' \<Longrightarrow> pages_from c bucket prefix tok s (p # ps) s'"

lemma list_loop_pages:
  "pages_from c bucket prefix tok s ps s' \<Longrightarrow>
   list_loop c bucket prefix tok keys s = Some (Ok (keys @ concat (map page_keys ps)), s')"
proof (induction arbitrary: keys rule: pages_from.induct)
  case (last_page tok s p s')
  then show ?case by (subst list_loop.simps) (auto simp: Let_def split: option.split)
next
  case (more_pages tok s p s1 t ps s')
  then show ?case by (subst list_loop.simps) (simp add: Let_def)
qed

lemma list_loop_result:
  assumes "list_loop c bucket prefix tok keys s = Some r"
  shows "\<forall>ks s'. r = (Ok ks, s') \<longrightarrow> (\<exists>ps. pages_from c bucket prefix tok s ps s' \<and> ks = keys @ concat (map page_keys ps))"
proof (rule list_loop.raw_induct [where P = "\<lambda>c bucket prefix tok keys s r. \<forall>ks s'. r = (Ok ks, s') \<longrightarrow>
       (\<exists>ps. pages_from c bucket prefix tok s ps s' \<and> ks = keys @ concat (map page_keys ps))", OF _ assms],
    intro allI impI)
  fix loop :: "'s s3_client \<Rightarrow> string \<Rightarrow> string \<Rightarrow> string option \<Rightarrow> string list \<Rightarrow> 's \<Rightarrow>
      ((string, string list) result \<times> 's) option"
  fix c bucket prefix tok keys s r ks s'
  assume IH: "\<And>c bucket prefix tok keys s r. loop c bucket prefix tok keys s = Some r \<Longrightarrow>
      \<forall>ks s'. r = (Ok ks, s') \<longrightarrow> (\<exists>ps. pages_from c bucket prefix tok s ps s' \<and> ks = keys @ concat (map page_keys ps))"
    and run: "(case c3_list c bucket prefix tok s of
        (Err e, s) \<Rightarrow> Some (Err (s3_failed ''list_objects_v2'' bucket prefix (s3_text e)), s)
      | (Ok output, s) \<Rightarrow>
          (let keys = keys @ page_keys output in
           if lp_truncated output = Some True then
             (case lp_next output of
                None \<Rightarrow> Some (Ok keys, s)
              | Some token \<Rightarrow> loop c bucket prefix (Some token) keys s)
           else Some (Ok keys, s))) = Some r"
    and r: "r = (Ok ks, s')"
  obtain out s1 where o: "c3_list c bucket prefix tok s = (out, s1)" by fastforce
  with run r obtain p where p: "out = Ok p" by (cases out) auto
  show "\<exists>ps. pages_from c bucket prefix tok s ps s' \<and> ks = keys @ concat (map page_keys ps)"
  proof (cases "lp_truncated p = Some True \<and> lp_next p \<noteq> None")
    case True
    then obtain t where t: "lp_next p = Some t" by auto
    with run o p True have "loop c bucket prefix (Some t) (keys @ page_keys p) s1 = Some r"
      by (simp add: Let_def)
    from IH [OF this] r obtain ps where "pages_from c bucket prefix (Some t) s1 ps s'"
      "ks = keys @ page_keys p @ concat (map page_keys ps)" by auto
    moreover from this(1) have "pages_from c bucket prefix tok s (p # ps) s'"
      using o p True t by (intro more_pages) auto
    ultimately show ?thesis by (intro exI [of _ "p # ps"]) simp
  next
    case False
    then have "pages_from c bucket prefix tok s [p] s1" using o p by (intro last_page) auto
    moreover have "ks = keys @ page_keys p" "s' = s1"
      using run o p False r by (auto simp: Let_def split: if_splits option.splits)
    ultimately show ?thesis by (intro exI [of _ "[p]"]) simp
  qed
qed

text \<open>C26: a listing that succeeds returns the keys of all the pages of the service in order, to the last
  one, and it returns whenever the service comes to a last page; a service that always hands out
  another token keeps it going for ever.\<close>

theorem list_follows_all_pages:
  "(s3_list c bucket prefix s = Some (Ok ks, s') \<longleftrightarrow>
     (\<exists>ps. pages_from c bucket prefix None s ps s' \<and> ks = concat (map page_keys ps)))"
proof
  show "\<exists>ps. pages_from c bucket prefix None s ps s' \<and> ks = concat (map page_keys ps)"
    if "s3_list c bucket prefix s = Some (Ok ks, s')"
    using list_loop_result [OF that [unfolded s3_list_def]] by simp
  show "s3_list c bucket prefix s = Some (Ok ks, s')"
    if "\<exists>ps. pages_from c bucket prefix None s ps s' \<and> ks = concat (map page_keys ps)"
    using that list_loop_pages [where tok = None and keys = "[]"] unfolding s3_list_def by fastforce
qed

text \<open>rendering never leaks: the response of a failed rendering is the same whatever the template,
  the context and the error are; and a set of templates builds only when every source compiles.\<close>

theorem render_html_outcomes:
  "(case templates_render te env n ctx of
      Ok body \<Rightarrow> rs_status (render_html te env n ctx) = 200 \<and> rs_body (render_html te env n ctx) = Some body
    | Err _ \<Rightarrow> render_html te env n ctx = text_response 500 ''template render error'')"
  by (auto simp: render_html_def split: sum.splits)

text \<open>A set of templates builds exactly when every source compiles; a name then renders the source that was
  added last under it, and the error of a build names the first source that does not compile.\<close>

lemma templates_build_append:
  "templates_build te (xs @ ys) env =
     (case templates_build te xs env of Err e \<Rightarrow> Err e | Ok env \<Rightarrow> templates_build te ys env)"
  by (induction xs arbitrary: env) (auto split: sum.splits)

lemma templates_build_Ok_iff:
  "(\<exists>env'. templates_build te sources env = Ok env') \<longleftrightarrow> (\<forall>(n, src) \<in> set sources. \<exists>t. te_compile te n src = Ok t)"
proof (induction sources arbitrary: env)
  case (Cons x sources)
  show ?case
    using Cons.IH by (cases x; cases "te_compile te (fst x) (snd x)") (simp_all split: prod.splits)
qed simp

lemma built_template_renders:
  assumes "templates_build te (templates_template n src sources) env = Ok env'"
  shows "\<exists>t. te_compile te n src = Ok t \<and> env' n = Some t \<and>
    (\<forall>ctx. templates_render te env' n ctx =
       (case te_render te t ctx of Ok body \<Rightarrow> Ok body | Err e \<Rightarrow> Err (''rendering template '' @ sq @ n @ sq @ '' failed: '' @ e)))"
  using assms by (auto simp: templates_template_def templates_build_append templates_render_def split: sum.splits)

lemma templates_build_error:
  assumes "templates_build te sources env = Err e"
  shows "\<exists>before n src after cause. sources = before @ (n, src) # after \<and> te_compile te n src = Err cause \<and>
    (\<forall>(m, s) \<in> set before. \<exists>t. te_compile te m s = Ok t) \<and>
    e = ''compiling template '' @ sq @ n @ sq @ '' failed: '' @ cause"
  using assms
proof (induction sources arbitrary: env)
  case (Cons x sources)
  obtain n src where x: "x = (n, src)" by fastforce
  show ?case
  proof (cases "te_compile te n src")
    case (Inl cause)
    with Cons.prems x show ?thesis by (intro exI [of _ "[]"] exI [of _ n] exI [of _ src] exI [of _ sources] exI [of _ cause]) simp
  next
    case (Inr t)
    with Cons.prems x have "templates_build te sources (env(n \<mapsto> t)) = Err e" by simp
    from Cons.IH [OF this] obtain before m s after cause where "sources = before @ (m, s) # after"
      "te_compile te m s = Err cause" "\<forall>(m, s) \<in> set before. \<exists>t. te_compile te m s = Ok t"
      "e = ''compiling template '' @ sq @ m @ sq @ '' failed: '' @ cause" by blast
    with Inr x show ?thesis 
      by (intro exI [of _ "x # before"] exI [of _ m] exI [of _ s] exI [of _ after] exI [of _ cause]) simp
  qed
qed simp

end
