(* ===== verification/Recipe_Api.thy ===== *)
theory Recipe_Api
  imports Auth_Middleware "HOL-Library.List_Lexorder"
begin

text \<open>
  The recipe API shipped as the framework's example service (\<open>examples/recipe-api/src/routes.rs\<close>): its
  order store and the handlers behind it, on the models of the framework's extractors.

  The store is the map behind the mutex and whether that is poisoned.  The id of a new order
  (\<open>Uuid::now_v7\<close>), the iteration order of the \<open>HashMap\<close>, Unicode case folding, the JSON texts of
  responses and axum's own rejections are arguments.
\<close>

section \<open>Data\<close>

datatype order_status = Received

record order =
  od_id :: string
  od_customer :: string
  od_items :: "string list"
  od_status :: order_status
  od_created_by :: string

record order_store =
  os_orders :: "string \<rightharpoonup> order"
  os_poisoned :: bool

definition order_store_default :: order_store where
  "order_store_default = \<lparr>os_orders = Map.empty, os_poisoned = False\<rparr>"

record recipe_error =
  re_status :: nat
  re_code :: string
  re_message :: string

definition recipe_not_found :: "string \<Rightarrow> recipe_error" where
  "recipe_not_found message = \<lparr>re_status = 404, re_code = ''not_found'', re_message = message\<rparr>"

definition recipe_internal :: "string \<Rightarrow> recipe_error" where
  "recipe_internal message = \<lparr>re_status = 500, re_code = ''internal_error'', re_message = message\<rparr>"

text \<open>How the bodies are written as JSON.\<close>

record recipe_json =
  rj_error :: "string \<Rightarrow> string \<Rightarrow> string"
  rj_order :: "order \<Rightarrow> string"
  rj_search :: "order list \<Rightarrow> nat \<Rightarrow> string"
  rj_user :: "string \<Rightarrow> string \<Rightarrow> string list \<Rightarrow> string"
  rj_status :: "string \<Rightarrow> string \<Rightarrow> string"
  rj_upper :: "string \<Rightarrow> string \<Rightarrow> string"

definition recipe_error_response :: "recipe_json \<Rightarrow> recipe_error \<Rightarrow> response" where
  "recipe_error_response rj e = json_response (re_status e) (rj_error rj (re_code e) (re_message e))"

definition locked_orders :: "order_store \<Rightarrow> (recipe_error, string \<rightharpoonup> order) result" where
  "locked_orders st =
     (if os_poisoned st then Err (recipe_internal ''order store is unavailable'') else Ok (os_orders st))"

section \<open>Creating and reading orders\<close>

record create_order_request =
  cr_customer :: string
  cr_items :: "string list"

definition validate_order :: "create_order_request \<Rightarrow> validation_errors option" where
  "validate_order rq =
     (if trim (cr_customer rq) = [] then Some (validation_errors_one ''customer'' ''customer is required'')
      else if cr_items rq = [] then Some (validation_errors_one ''items'' ''at least one item is required'')
      else if list_ex (\<lambda>item. trim item = []) (cr_items rq) then Some (validation_errors_one ''items'' ''items cannot be blank'')
      else None)"

definition into_order :: "string \<Rightarrow> string \<Rightarrow> create_order_request \<Rightarrow> order" where
  "into_order uuid created_by rq =
     \<lparr>od_id = uuid, od_customer = trim (cr_customer rq), od_items = map trim (cr_items rq),
      od_status = Received, od_created_by = created_by\<rparr>"

text \<open>A handler: its extractors in the order of the arguments, then the body.  \<open>ctx\<close> is the auth context
  of the request and \<open>body\<close>, \<open>path\<close>, \<open>query\<close> what axum extracts.\<close>

definition create_order ::
  "recipe_json \<Rightarrow> error_env \<Rightarrow> string \<Rightarrow> 'x auth_context option \<Rightarrow> ('rej, create_order_request) result \<Rightarrow>
   order_store \<Rightarrow> response \<times> order_store" where
  "create_order rj env uuid ctx body st =
     (case authenticated env ctx of
        Err rs \<Rightarrow> (rs, st)
      | Ok i \<Rightarrow>
          (case validated env validate_order body of
             Err rs \<Rightarrow> (rs, st)
           | Ok rq \<Rightarrow>
               (let order = into_order uuid (id_subject i) rq in
                case locked_orders st of
                  Err e \<Rightarrow> (recipe_error_response rj e, st)
                | Ok orders \<Rightarrow>
                    (json_response 201 (rj_order rj order), st\<lparr>os_orders := orders(od_id order \<mapsto> order)\<rparr>))))"

definition get_order ::
  "recipe_json \<Rightarrow> error_env \<Rightarrow> ('rej, string) result \<Rightarrow> order_store \<Rightarrow> response" where
  "get_order rj env path st =
     (case path_params env path of
        Err rs \<Rightarrow> rs
      | Ok order_id \<Rightarrow>
          (case locked_orders st of
             Err e \<Rightarrow> recipe_error_response rj e
           | Ok orders \<Rightarrow>
               (case orders order_id of
                  None \<Rightarrow> recipe_error_response rj (recipe_not_found ''order was not found'')
                | Some order \<Rightarrow> json_response 200 (rj_order rj order))))"

section \<open>Searching and the caller\<close>

definition DEFAULT_SEARCH_LIMIT :: nat where "DEFAULT_SEARCH_LIMIT = 25"
definition MAX_SEARCH_LIMIT :: nat where "MAX_SEARCH_LIMIT = 100"

definition matches_customer :: "(string \<Rightarrow> string) \<Rightarrow> string option \<Rightarrow> order \<Rightarrow> bool" where
  "matches_customer lower customer order =
     (case map_option lower customer of
        None \<Rightarrow> True
      | Some c \<Rightarrow> find_sub c (lower (od_customer order)) \<noteq> None)"

text \<open>\<open>take\<close> comes before the sort, which is stable.\<close>

definition search_result ::
  "((string \<rightharpoonup> order) \<Rightarrow> order list) \<Rightarrow> (string \<Rightarrow> string) \<Rightarrow> string option \<Rightarrow> nat \<Rightarrow> (string \<rightharpoonup> order) \<Rightarrow> order list" where
  "search_result hash_values lower customer limit orders =
     sort_key od_customer (take limit (filter (matches_customer lower customer) (hash_values orders)))"

definition search_orders ::
  "recipe_json \<Rightarrow> error_env \<Rightarrow> ((string \<rightharpoonup> order) \<Rightarrow> order list) \<Rightarrow> (string \<Rightarrow> string) \<Rightarrow>
   ('rej, string option \<times> nat option) result \<Rightarrow> order_store \<Rightarrow> response" where
  "search_orders rj env hash_values lower query st =
     (case query_params env query of
        Err rs \<Rightarrow> rs
      | Ok (customer, requested) \<Rightarrow>
          (let requested_limit = (case requested of Some l \<Rightarrow> l | None \<Rightarrow> DEFAULT_SEARCH_LIMIT);
               limit = min requested_limit MAX_SEARCH_LIMIT
           in case locked_orders st of
                Err e \<Rightarrow> recipe_error_response rj e
              | Ok orders \<Rightarrow>
                  json_response 200 (rj_search rj (search_result hash_values lower customer limit orders) limit)))"

definition current_user :: "recipe_json \<Rightarrow> error_env \<Rightarrow> 'x auth_context option \<Rightarrow> response" where
  "current_user rj env ctx =
     (case authenticated env ctx of
        Err rs \<Rightarrow> rs
      | Ok i \<Rightarrow> json_response 200 (rj_user rj (id_subject i) (id_auth_method i) (sorted_list_of_set (id_scopes i))))"

section \<open>The public routes\<close>

definition recipe_status :: "recipe_json \<Rightarrow> response" where
  "recipe_status rj = json_response 200 (rj_status rj ''recipe-api'' ''ok'')"

definition recipe_to_uppercase :: "(string \<Rightarrow> string) \<Rightarrow> string \<Rightarrow> string" where
  "recipe_to_uppercase upper text = upper (trim text)"

definition uppercase_text ::
  "recipe_json \<Rightarrow> error_env \<Rightarrow> (string \<Rightarrow> string) \<Rightarrow> ('rej, string) result \<Rightarrow> response" where
  "uppercase_text rj env upper query =
     (case query_params env query of
        Err rs \<Rightarrow> rs
      | Ok text \<Rightarrow> json_response 200 (rj_upper rj text (recipe_to_uppercase upper text)))"

section \<open>Properties\<close>

text \<open>an order is created exactly for an authenticated caller with a valid body and an intact store,
  under the caller's subject with every text trimmed and none of them blank; reading it back by its id
  returns the very same representation, and every other order is what it was.\<close>

theorem created_order_is_read_back:
  assumes "create_order rj env uuid ctx body st = (rs, st')"
  shows "if rs_status rs = 201
    then \<exists>i rq. optional_identity ctx = Some i \<and> body = Ok rq \<and>
      rs_body rs = Some (rj_order rj (into_order uuid (id_subject i) rq)) \<and>
      os_orders st' = (os_orders st)(uuid \<mapsto> into_order uuid (id_subject i) rq) \<and>
      [] \<notin> set (trim (cr_customer rq) # map trim (cr_items rq)) \<and> cr_items rq \<noteq> [] \<and>
      rs_body (get_order rj env (Ok uuid :: (unit, string) result) st') = rs_body rs \<and>
      {k. get_order rj env (Ok k :: (unit, string) result) st' \<noteq> get_order rj env (Ok k :: (unit, string) result) st} \<subseteq> {uuid}
    else st' = st \<and> rs_status rs \<in> {400, 401, 500}"
proof (cases "authenticated env ctx")
  case (Inl rs0)
  then have "rs_status rs0 = 401"
    by (auto simp: authenticated_def auth_required_def quick_error_response_def split: option.splits)
  then show ?thesis using assms Inl by (simp add: create_order_def)
next
  case (Inr i)
  then have i: "optional_identity ctx = Some i"
    by (auto simp: authenticated_def optional_identity_def split: option.splits)
  show ?thesis
  proof (cases "validated env validate_order body")
    case (Inl rs0)
    then have "rs_status rs0 = 400"
      by (auto simp: validated_def json_body_def standard_bad_request_def quick_error_response_def
          validation_error_response_def quick_error_response_with_details_def split: sum.splits option.splits)
    then show ?thesis using assms \<open>authenticated env ctx = Inr i\<close> Inl by (simp add: create_order_def)
  next
    case (Inr rq)
    then have body: "body = Ok rq" and "validate_order rq = None"
      by (auto simp: validated_def json_body_def split: sum.splits option.splits)
    then have texts: "[] \<notin> set (trim (cr_customer rq) # map trim (cr_items rq)) \<and> cr_items rq \<noteq> []"
      by (auto simp: validate_order_def list_ex_iff image_iff split: if_splits)
    show ?thesis
    proof (cases "os_poisoned st")
      case True
      then show ?thesis using assms Inr \<open>authenticated env ctx = Inr i\<close>
        by (auto simp: create_order_def locked_orders_def recipe_error_response_def recipe_internal_def json_response_def Let_def)
    next
      case False
      then have run: "rs = json_response 201 (rj_order rj (into_order uuid (id_subject i) rq))"
        "st' = st\<lparr>os_orders := (os_orders st)(uuid \<mapsto> into_order uuid (id_subject i) rq)\<rparr>"
        using assms Inr \<open>authenticated env ctx = Inr i\<close>
        by (auto simp: create_order_def locked_orders_def into_order_def Let_def)
      then have "rs_status rs = 201" "rs_body rs = Some (rj_order rj (into_order uuid (id_subject i) rq))"
        by (simp_all add: json_response_def)
      moreover have "rs_body (get_order rj env (Ok uuid :: (unit, string) result) st') = rs_body rs"
        using False by (simp add: run get_order_def path_params_def locked_orders_def json_response_def)
      moreover have "{k. get_order rj env (Ok k :: (unit, string) result) st' \<noteq>
          get_order rj env (Ok k :: (unit, string) result) st} \<subseteq> {uuid}"
        using False by (auto simp: run get_order_def path_params_def locked_orders_def)
      ultimately show ?thesis using i body texts by (simp add: run(2))
    qed
  qed
qed

text \<open>a search returns at most 100 stored orders, all of them matching the filter, sorted by customer
  and without repetition, and it returns every match when there are no more than the limit; above the
  limit it is an arbitrary choice of the hash map, made before the sort.\<close>

theorem search_returns_matches:
  assumes hash: "set (hash_values orders) = ran orders" "distinct (hash_values orders)"
    and limit: "limit = min requested MAX_SEARCH_LIMIT"
  shows "set (search_result hash_values lower customer limit orders) \<subseteq> {order \<in> ran orders. matches_customer lower customer order} \<and>
    length (search_result hash_values lower customer limit orders) =
      min limit (card {order \<in> ran orders. matches_customer lower customer order}) \<and>
    limit \<le> 100 \<and> distinct (search_result hash_values lower customer limit orders) \<and>
    sorted (map od_customer (search_result hash_values lower customer limit orders)) \<and>
    (if card {order \<in> ran orders. matches_customer lower customer order} \<le> limit
     then set (search_result hash_values lower customer limit orders) = {order \<in> ran orders. matches_customer lower customer order}
     else True)"
proof -
  let ?f = "filter (matches_customer lower customer) (hash_values orders)"
  have set: "set ?f = {order \<in> ran orders. matches_customer lower customer order}" using hash(1) by auto
  have card: "card {order \<in> ran orders. matches_customer lower customer order} = length ?f"
    unfolding set [symmetric] by (rule distinct_card) (simp add: hash(2))
  show ?thesis
    unfolding card unfolding set [symmetric] search_result_def
    using hash(2) by (auto simp: limit MAX_SEARCH_LIMIT_def distinct_sort intro: distinct_take dest: in_set_takeD)
qed

section \<open>Concrete instances\<close>

definition demo_recipe_json :: recipe_json where
  "demo_recipe_json = \<lparr>rj_error = (\<lambda>c m. c), rj_order = od_customer, rj_search = (\<lambda>os l. concat (map od_customer os)),
     rj_user = (\<lambda>s m sc. s), rj_status = (\<lambda>s st. st), rj_upper = (\<lambda>t u. u)\<rparr>"

definition demo_caller :: "unit auth_context option" where
  "demo_caller = Some \<lparr>ctx_identity = Some (identity_new ''user:7'' ''mock''), ctx_client_ip = ''unknown'',
     ctx_request_id = [], ctx_auth_result = AuthOk ''mock''\<rparr>"

lemma created_order_is_read_back_witness:
  "\<exists>rs st'. create_order demo_recipe_json demo_env ''o-1'' demo_caller
      (Ok \<lparr>cr_customer = '' Ada '', cr_items = [''tea'']\<rparr> :: (unit, create_order_request) result) order_store_default = (rs, st') \<and>
    rs_status rs = 201 \<and> rs_body (get_order demo_recipe_json demo_env (Ok ''o-1'' :: (unit, string) result) st') = rs_body rs"
proof -
  obtain rs st' where run: "create_order demo_recipe_json demo_env ''o-1'' demo_caller
      (Ok \<lparr>cr_customer = '' Ada '', cr_items = [''tea'']\<rparr> :: (unit, create_order_request) result) order_store_default = (rs, st')"
    by fastforce
  have "rs_status (fst (create_order demo_recipe_json demo_env ''o-1'' demo_caller
      (Ok \<lparr>cr_customer = '' Ada '', cr_items = [''tea'']\<rparr> :: (unit, create_order_request) result) order_store_default)) = 201"
    by code_simp
  then have "rs_status rs = 201" by (simp add: run)
  with created_order_is_read_back [OF run] run show ?thesis by auto
qed

lemma search_returns_matches_witness:
  "length (search_result (\<lambda>m. case m ''o-1'' of Some x \<Rightarrow> [x] | None \<Rightarrow> []) (\<lambda>s. s) (Some ''d'') (min 7 MAX_SEARCH_LIMIT)
     [''o-1'' \<mapsto> into_order ''o-1'' ''user:7'' \<lparr>cr_customer = ''Ada'', cr_items = [''tea'']\<rparr>]) = 1"
proof -
  let ?o = "into_order ''o-1'' ''user:7'' \<lparr>cr_customer = ''Ada'', cr_items = [''tea'']\<rparr>"
  let ?m = "[''o-1'' \<mapsto> ?o]" and ?vals = "\<lambda>m. case m ''o-1'' of Some x \<Rightarrow> [x] | None \<Rightarrow> ([] :: order list)"
  have "matches_customer (\<lambda>s. s) (Some ''d'') ?o" by code_simp
  then have "{order \<in> ran [''o-1'' \<mapsto> ?o]. matches_customer (\<lambda>s. s) (Some ''d'') order} = {?o}" by auto
  moreover have "length (search_result ?vals (\<lambda>s. s) (Some ''d'') (min 7 MAX_SEARCH_LIMIT) ?m) =
      min (min 7 MAX_SEARCH_LIMIT) (card {order \<in> ran ?m. matches_customer (\<lambda>s. s) (Some ''d'') order})"
    by (rule search_returns_matches [where requested = 7, THEN conjunct2, THEN conjunct1]) simp_all
  ultimately show ?thesis by (simp add: MAX_SEARCH_LIMIT_def)
qed

end
