(* ===== verification/Services.thy ===== *)
theory Services
  imports Request_Path Builtin_Plugins Health Recipe_Api
begin

text \<open>
  The services the repository ships as applications of the framework: the plugins and mains of
  \<open>examples/sample-api\<close>, \<open>recipe-api\<close>, \<open>bench-api\<close> and of the template \<open>templates/oss\<close>, the preset
  \<open>presets::api\<close> they start from, and the OpenAPI plugin (\<open>openapi.rs\<close>).

  A router is built from single routes: \<open>route e\<close> is axum's router of one endpoint, a method and a path,
  and \<open>ops\<close> merges and layers routers.  The handlers behind the endpoints of the recipe service run on the
  models of \<open>Recipe_Api\<close>; what axum extracts from a request is an argument.
\<close>

section \<open>Routers of endpoints\<close>

type_synonym endpoint = "string \<times> string"

definition endpoint_law :: "('r \<Rightarrow> (endpoint \<times> 'mw list) set) \<Rightarrow> (endpoint \<Rightarrow> 'r) \<Rightarrow> bool" where
  "endpoint_law stacks route \<longleftrightarrow> (\<forall>e. stacks (route e) = {(e, [])})"

definition endpoints :: "('r, 'mw) router_ops \<Rightarrow> (endpoint \<Rightarrow> 'r) \<Rightarrow> endpoint list \<Rightarrow> 'r" where
  "endpoints ops route es = fold (\<lambda>e r. ro_merge ops r (route e)) es (ro_new ops)"

text \<open>A plugin that overrides its name and its routes.\<close>

definition service_plugin :: "string \<Rightarrow> (route_group \<times> 'r) list \<Rightarrow> ('x, 'addr, 'act, 'r, 'e, 'w) plugin_handle" where
  "service_plugin name rs = (default_plugin name)
     \<lparr>pl_routes := \<lambda>_. map (\<lambda>(g, r). \<lparr>tr_group = g, tr_router = r\<rparr>) rs\<rparr>"

section \<open>The preset and the OpenAPI plugin\<close>

definition health_handle ::
  "('r, 'mw) router_ops \<Rightarrow> (endpoint \<Rightarrow> 'r) \<Rightarrow> health_plugin \<Rightarrow> ('x, 'addr, 'act, 'r, 'e, 'w) plugin_handle" where
  "health_handle ops route hp = (default_plugin ''gasket:health'')
     \<lparr>pl_ordering := with_first ordering_new,
      pl_routes := \<lambda>_. map (\<lambda>hr. case hr of
          BareLivez path \<Rightarrow> \<lparr>tr_group = Bare, tr_router = endpoints ops route [(''GET'', path)]\<rparr>
        | PublicHealthcheck path contributors info \<Rightarrow> \<lparr>tr_group = Public, tr_router = endpoints ops route [(''GET'', path)]\<rparr>)
        (health_routes hp)\<rparr>"

definition health_plugin_default :: health_plugin where
  "health_plugin_default = \<lparr>hp_contributors = [], hp_app_info = None\<rparr>"

definition server_handle :: "('x, 'addr, 'act, 'r, 'e, 'w) plugin_handle" where
  "server_handle = (default_plugin ''gasket:server'')\<lparr>pl_ordering := with_last ordering_new\<rparr>"

definition api_handles :: "('r, 'mw) router_ops \<Rightarrow> (endpoint \<Rightarrow> 'r) \<Rightarrow> ('x, 'addr, 'act, 'r, 'e, 'w) plugin_handle list" where
  "api_handles ops route = [health_handle ops route health_plugin_default, server_handle]"

lemma api_handles_declared: "map plugin_decl.truncate (api_handles ops route) = api_preset"
  by (simp add: api_handles_def health_handle_def server_handle_def default_plugin_def api_preset_def health_decl_def
      server_decl_def plugin_decl.defs)

text \<open>\<open>swagger\<close> is the router of utoipa's \<open>SwaggerUi\<close> for the specification.\<close>

definition openapi_plugin :: "('r, 'mw) router_ops \<Rightarrow> ('spec \<Rightarrow> 'r) \<Rightarrow> 'spec \<Rightarrow> ('x, 'addr, 'act, 'r, 'e, 'w) plugin_handle" where
  "openapi_plugin ops swagger spec =
     service_plugin ''gasket:openapi'' [(Public, ro_merge ops (ro_new ops) (swagger spec))]"

definition openapi_from_api_doc :: "('r, 'mw) router_ops \<Rightarrow> ('spec \<Rightarrow> 'r) \<Rightarrow> ('doc \<Rightarrow> 'spec) \<Rightarrow> 'doc \<Rightarrow> ('x, 'addr, 'act, 'r, 'e, 'w) plugin_handle" where
  "openapi_from_api_doc ops swagger openapi doc = openapi_plugin ops swagger (openapi doc)"

section \<open>The plugins of the services\<close>

definition sample_endpoints :: "endpoint list" where
  "sample_endpoints = [(''GET'', ''/v1/items''), (''POST'', ''/v1/items''), (''GET'', ''/v1/items/{id}'')]"

definition sample_plugin :: "('r, 'mw) router_ops \<Rightarrow> (endpoint \<Rightarrow> 'r) \<Rightarrow> ('x, 'addr, 'act, 'r, 'e, 'w) plugin_handle" where
  "sample_plugin ops route = service_plugin ''sample:app'' [(Protected, endpoints ops route sample_endpoints)]"

definition bench_endpoints :: "endpoint list" where
  "bench_endpoints = [(''GET'', ''/bench/noop''), (''GET'', ''/bench/json''), (''POST'', ''/bench/echo'')]"

definition build_bench_router :: "('r, 'mw) router_ops \<Rightarrow> (endpoint \<Rightarrow> 'r) \<Rightarrow> 'r" where
  "build_bench_router ops route = endpoints ops route bench_endpoints"

definition bench_plugin :: "('r, 'mw) router_ops \<Rightarrow> (endpoint \<Rightarrow> 'r) \<Rightarrow> ('x, 'addr, 'act, 'r, 'e, 'w) plugin_handle" where
  "bench_plugin ops route = service_plugin ''bench'' [(Protected, endpoints ops route bench_endpoints)]"

definition template_endpoints :: "endpoint list" where
  "template_endpoints = [(''GET'', ''/v1/hello'')]"

definition template_plugin :: "('r, 'mw) router_ops \<Rightarrow> (endpoint \<Rightarrow> 'r) \<Rightarrow> ('x, 'addr, 'act, 'r, 'e, 'w) plugin_handle" where
  "template_plugin ops route = service_plugin ''app'' [(Protected, endpoints ops route template_endpoints)]"

text \<open>\<open>route_cache_get!\<close> expands to \<open>cached_get\<close> with a public policy: the layer of the response cache
  around the handler of one route.  \<open>layer\<close> names it, by its time to live in seconds.\<close>

definition cached_get :: "('r, ('auth, 'p) middleware) router_ops \<Rightarrow> 'p \<Rightarrow> 'r \<Rightarrow> 'r" where
  "cached_get ops layer handler = ro_layer ops (PluginLayer layer) handler"

definition recipe_status_endpoint :: endpoint where
  "recipe_status_endpoint = (''GET'', ''/status'')"

definition recipe_upper_endpoint :: endpoint where
  "recipe_upper_endpoint = (''GET'', ''/v1/strings/upper'')"

definition public_routes ::
  "('r, ('auth, 'p) middleware) router_ops \<Rightarrow> (endpoint \<Rightarrow> 'r) \<Rightarrow> (nat \<Rightarrow> 'p) \<Rightarrow> 'r" where
  "public_routes ops route layer =
     ro_merge ops (ro_merge ops (ro_new ops) (cached_get ops (layer 10) (route recipe_status_endpoint)))
       (route recipe_upper_endpoint)"

definition recipe_protected_endpoints :: "endpoint list" where
  "recipe_protected_endpoints =
     [(''GET'', ''/v1/me''), (''GET'', ''/v1/orders''), (''POST'', ''/v1/orders''), (''GET'', ''/v1/orders/{order_id}'')]"

definition protected_routes :: "('r, 'mw) router_ops \<Rightarrow> (endpoint \<Rightarrow> 'r) \<Rightarrow> 'r" where
  "protected_routes ops route = endpoints ops route recipe_protected_endpoints"

definition recipe_plugin ::
  "('r, ('auth, 'p) middleware) router_ops \<Rightarrow> (endpoint \<Rightarrow> 'r) \<Rightarrow> (nat \<Rightarrow> 'p) \<Rightarrow> ('x, 'addr, 'act, 'r, 'e, 'w) plugin_handle" where
  "recipe_plugin ops route layer = service_plugin ''example:recipe-api''
     [(Public, public_routes ops route layer), (Protected, protected_routes ops route)]"

text \<open>The handlers of the benchmark and of the template keep no state; \<open>enc\<close> writes a value as JSON, and a body that
  is not the payload's JSON is answered by axum's rejection.\<close>

record json_payload =
  jp_message :: string
  jp_count :: nat

definition noop :: nat where "noop = 200"

definition bench_json_response :: "(json_payload \<Rightarrow> string) \<Rightarrow> response" where
  "bench_json_response enc = json_response 200 (enc \<lparr>jp_message = ''hello from rusty gasket'', jp_count = 42\<rparr>)"

definition json_echo :: "(json_payload \<Rightarrow> string) \<Rightarrow> (response, json_payload) result \<Rightarrow> response" where
  "json_echo enc body = (case body of Err rejection \<Rightarrow> rejection | Ok p \<Rightarrow> json_response 200 (enc p))"

definition hello :: "(string \<Rightarrow> string) \<Rightarrow> response" where
  "hello enc = json_response 200 (enc ''Hello from Rusty Gasket!'')"

section \<open>The mains\<close>

text \<open>The builder each main hands to \<open>build\<close>.\<close>

definition service_builder ::
  "('r, 'mw) router_ops \<Rightarrow> (endpoint \<Rightarrow> 'r) \<Rightarrow> app_config_definition \<Rightarrow> ('x, 'addr, 'act, 'r, 'e, 'w) plugin_handle \<Rightarrow>
   ('x, 'addr, 'act, 'r, 'e, 'w, 'auth) gasket_app_builder" where
  "service_builder ops route d p = with_config d (with_plugin p (with_preset (api_handles ops route) builder))"

definition sample_main ::
  "process_env \<Rightarrow> ('r, 'mw) router_ops \<Rightarrow> (endpoint \<Rightarrow> 'r) \<Rightarrow> ('x, 'addr, 'act, 'r, 'e, 'w, 'auth) gasket_app_builder" where
  "sample_main penv ops route = service_builder ops route
     (definition_server (server_config_new ''127.0.0.1'' 8080) (definition_new penv ''sample-api'')) (sample_plugin ops route)"

definition bench_main ::
  "process_env \<Rightarrow> ('r, 'mw) router_ops \<Rightarrow> (endpoint \<Rightarrow> 'r) \<Rightarrow> ('x, 'addr, 'act, 'r, 'e, 'w, 'auth) gasket_app_builder" where
  "bench_main penv ops route = service_builder ops route
     (definition_server (server_config_new ''127.0.0.1'' 8081) (definition_new penv ''bench-api'')) (bench_plugin ops route)"

definition recipe_main ::
  "process_env \<Rightarrow> ('r, ('auth, 'p) middleware) router_ops \<Rightarrow> (endpoint \<Rightarrow> 'r) \<Rightarrow> (nat \<Rightarrow> 'p) \<Rightarrow>
   ('x, 'addr, 'act, 'r, 'e, 'w, 'auth) gasket_app_builder" where
  "recipe_main penv ops route layer = service_builder ops route
     (definition_server (server_config_new ''127.0.0.1'' 8081) (definition_new penv ''recipe-api'')) (recipe_plugin ops route layer)"

text \<open>The template's configuration: any failure to read or parse the file gives the defaults.\<close>

definition template_config ::
  "process_env \<Rightarrow> (string \<Rightarrow> ('io read_error, string) result) \<Rightarrow> (string \<Rightarrow> ('pe, app_config_definition) result) \<Rightarrow>
   (string \<Rightarrow> ('pe, app_config_definition) result) \<Rightarrow> app_config_definition" where
  "template_config penv rd from_toml from_yaml =
     (case from_file rd from_toml from_yaml ''gasket.toml'' of Ok d \<Rightarrow> d | Err _ \<Rightarrow> definition_default penv)"

definition template_main ::
  "process_env \<Rightarrow> (string \<Rightarrow> ('io read_error, string) result) \<Rightarrow> (string \<Rightarrow> ('pe, app_config_definition) result) \<Rightarrow>
   (string \<Rightarrow> ('pe, app_config_definition) result) \<Rightarrow> ('r, 'mw) router_ops \<Rightarrow> (endpoint \<Rightarrow> 'r) \<Rightarrow>
   ('x, 'addr, 'act, 'r, 'e, 'w, 'auth) gasket_app_builder" where
  "template_main penv rd from_toml from_yaml ops route =
     service_builder ops route (template_config penv rd from_toml from_yaml) (template_plugin ops route)"

section \<open>Building a service\<close>

lemma endpoints_stacks:
  assumes "router_laws ops stacks" and "endpoint_law stacks route"
  shows "stacks (endpoints ops route es) = (\<lambda>e. (e, [])) ` set es"
proof -
  have "stacks (fold (\<lambda>e r. ro_merge ops r (route e)) es r) = stacks r \<union> (\<lambda>e. (e, [])) ` set es" for r
    using assms by (induction es arbitrary: r) (auto simp: router_laws_def endpoint_law_def)
  then show ?thesis using assms(1) by (simp add: endpoints_def router_laws_def)
qed

definition service_handles ::
  "('r, 'mw) router_ops \<Rightarrow> (endpoint \<Rightarrow> 'r) \<Rightarrow> ('x, 'addr, 'act, 'r, 'e, 'w) plugin_handle \<Rightarrow>
   ('x, 'addr, 'act, 'r, 'e, 'w) plugin_handle list" where
  "service_handles ops route p = api_handles ops route @ [p]"

lemmas service_handle_defs = service_handles_def api_handles_def health_handle_def server_handle_def service_plugin_def
  default_plugin_def with_first_def with_last_def ordering_new_def

text \<open>The service's own plugin declares nothing, so it starts between the two of the preset.\<close>

lemma service_sorted:
  fixes ops :: "('r, 'mw) router_ops" and route :: "endpoint \<Rightarrow> 'r" and name :: string and rs :: "(route_group \<times> 'r) list"
  defines "ps \<equiv> service_handles ops route (service_plugin name rs) :: ('x, 'addr, 'act, 'r, 'e, 'w) plugin_handle list"
  assumes "name \<noteq> ''gasket:health''" "name \<noteq> ''gasket:server''"
  shows "topological_sort ck ps = Ok [0, 2, 1]"
proof -
  have prec: "must_precede ps u v \<longleftrightarrow> (u = 0 \<and> (v = 1 \<or> v = 2)) \<or> (u = 2 \<and> v = 1)" for u v
    by (auto simp: ps_def service_handle_defs must_precede_def Let_def nth_Cons' less_Suc_eq numeral_2_eq_2)
  have len: "length ps = 3" by (simp add: ps_def service_handle_defs)
  have "valid_order ps [0, 2, 1]" by (auto simp: valid_order_def prec len)
  moreover have "well_declared ps" "no_self_constraint ps"
    using assms(2,3) by (simp_all add: ps_def service_handle_defs well_declared_def names_resolve_def no_self_constraint_def)
  ultimately obtain srt where srt: "topological_sort ck ps = Ok srt"
    using topological_sort_decides [of ps ck] by (auto split: if_splits)
  note v = topological_sort_valid [OF srt]
  have ends: "hd srt = 0" "last srt = 1"
    by (rule valid_order_hd [OF v] valid_order_last [OF v]; auto simp: len prec)+
  have "set srt = {..<3}" using v unfolding valid_order_def len by blast
  then have set: "set srt = {0, 1, 2}" by (simp add: lessThan_nat_numeral lessThan_Suc insert_commute numeral_3_eq_3 numeral_2_eq_2)
  have d: "distinct srt" using v unfolding valid_order_def by blast
  then have "length srt = 3" unfolding distinct_card [OF d, symmetric] set by simp
  then obtain a b c where abc: "srt = [a, b, c]" by (auto simp only: numeral_3_eq_3 length_Suc_conv length_0_conv)
  have ac: "a = 0" "c = 1" using ends unfolding abc by simp_all
  have "b \<in> set srt" by (simp add: abc)
  then have "b \<in> {0, 1, 2}" by (simp only: set)
  moreover have "b \<noteq> a" "b \<noteq> c" using d by (simp_all add: abc)
  ultimately have "b = 2" unfolding ac by blast
  show ?thesis unfolding srt abc ac \<open>b = 2\<close> ..
qed

definition service_app ::
  "('r, 'mw) router_ops \<Rightarrow> (endpoint \<Rightarrow> 'r) \<Rightarrow> ('x, 'addr, 'act, 'r, 'e, 'w) plugin_handle \<Rightarrow> app_config \<Rightarrow> 'x \<Rightarrow>
   ('x, 'addr, 'act, 'r, 'e, 'w, 'auth) gasket_app" where
  "service_app ops route p c x =
     \<lparr>ga_plugins = [health_handle ops route health_plugin_default, p, server_handle], ga_actions = Map.empty,
      ga_config = c, ga_extensions = x, ga_body_limit = DEFAULT_REQUEST_BODY_LIMIT, ga_named_auth = Map.empty\<rparr>"

lemma service_build:
  assumes "name \<noteq> ''gasket:health''" "name \<noteq> ''gasket:server''"
  shows "build ck penv x (service_builder ops route d (service_plugin name rs)) w =
    (case resolve penv d of
       Err e \<Rightarrow> (Err (ConfigFailed e), w, [])
     | Ok c \<Rightarrow> (Ok (service_app ops route (service_plugin name rs) c x), w,
         map (\<lambda>n. (HPrepare, n, None)) [''gasket:health'', name, ''gasket:server'']))"
proof -
  let ?p = "service_plugin name rs" and ?h = "health_handle ops route health_plugin_default"
  have ps: "bu_plugins (service_builder ops route d ?p) = service_handles ops route ?p"
    "bu_config_def (service_builder ops route d ?p) = Some d"
    "bu_body_limit (service_builder ops route d ?p) = DEFAULT_REQUEST_BODY_LIMIT"
    "bu_named_auth (service_builder ops route d ?p) = Map.empty" for d
    by (simp_all add: service_builder_def with_config_def with_plugin_def with_preset_def builder_def service_handles_def)
  have dup: "first_duplicate {} (map pl_name (service_handles ops route ?p)) = None"
    using assms by (simp add: first_duplicate_None service_handle_defs)
  have dep: "missing_dependency (service_handles ops route ?p) = None"
    by (simp add: missing_dependency_def service_handle_defs)
  have order: "reorder [0, 2, 1] (map Some (service_handles ops route ?p)) = [?h, ?p, server_handle]"
    by (simp add: service_handles_def api_handles_def)
  have init: "fold pl_init [?h, ?p, server_handle] init_context_new = init_context_new"
    and config: "fold pl_configure [?h, ?p, server_handle] c = c" for c
    by (simp_all add: service_handle_defs)
  have prep: "prepare_loop [] [?h, ?p, server_handle] ctx w =
      (Ok ctx, w, map (\<lambda>n. (HPrepare, n, None)) [''gasket:health'', name, ''gasket:server''])" for ctx
    by (simp add: service_handle_defs)
  show ?thesis
    unfolding build_def ps dup dep service_sorted [OF assms] option.case sum.case Let_def order init config prep
    by (simp add: service_app_def init_context_new_def split: sum.split)
qed

text \<open>The body limit and the logging middleware are all a route of such a service stands behind.\<close>

definition service_stack :: "route_group \<Rightarrow> ('auth, 'p) middleware list" where
  "service_stack g = (case g of Bare \<Rightarrow> [] | _ \<Rightarrow> [BodyLimit DEFAULT_REQUEST_BODY_LIMIT, LoggingMiddleware])"

lemma service_router:
  fixes stacks :: "'r \<Rightarrow> (endpoint \<times> ('auth, 'p) middleware list) set"
    and app :: "('x, 'addr, 'act, 'r, 'e, 'w, 'auth) gasket_app"
  assumes laws: "router_laws ops stacks" and route: "endpoint_law stacks route" and order: "\<And>xs. set (hash_order xs) = set xs"
    and groups: "\<And>n. ProtectedWith n \<notin> fst ` set rs"
    and app: "app = service_app ops route (service_plugin name rs) c x"
  shows "\<exists>router. build_router hash_order ops app = Ok router \<and>
    stacks router = insert ((''GET'', ''/livez''), []) (insert ((''GET'', ''/healthcheck''), service_stack Public)
      (\<Union>(g, r) \<in> set rs. wrap (service_stack g) (stacks r)))"
proof -
  have layers: "collect_layers app = []"
    by (simp add: collect_layers_def app service_app_def service_handle_defs)
  have limit: "ga_body_limit app = DEFAULT_REQUEST_BODY_LIMIT" by (simp add: app service_app_def)
  have routes: "collect_routes app =
      [\<lparr>tr_group = Bare, tr_router = endpoints ops route [(''GET'', ''/livez'')]\<rparr>,
       \<lparr>tr_group = Public, tr_router = endpoints ops route [(''GET'', ''/healthcheck'')]\<rparr>] @
      map (\<lambda>(g, r). \<lparr>tr_group = g, tr_router = r\<rparr>) rs"
    by (simp add: collect_routes_def app service_app_def service_handle_defs health_routes_def)
  have "layers_law stacks lp (collect_layers app)" for lp :: "'r tagged_layer \<Rightarrow> 'p"
    by (simp add: layers layers_law_def)
  note spec = build_router_spec [OF laws this order]
  have stack: "group_stack lp app g = service_stack g" if "\<And>n. g \<noteq> ProtectedWith n" for lp g
    using that by (cases g) (auto simp: group_stack_def transport_stack_def layers limit service_stack_def)
  have known: "tr_group t \<noteq> ProtectedWith n" if "t \<in> set (collect_routes app)" for t n
    using that groups [of n] unfolding routes by force
  have "build_router hash_order ops app \<noteq> Err n" for n
    using spec [where lp = "\<lambda>_. undefined"] known [of _ n] by (auto split: sum.splits)
  then obtain router where router: "build_router hash_order ops app = Ok router"
    by (cases "build_router hash_order ops app") auto
  have "stacks router = (\<Union>t \<in> set (collect_routes app). wrap (service_stack (tr_group t)) (stacks (tr_router t)))"
    using spec [where lp = "\<lambda>_. undefined"] unfolding router by (simp add: stack known cong: SUP_cong_simp)
  also have "\<dots> = insert ((''GET'', ''/livez''), []) (insert ((''GET'', ''/healthcheck''), service_stack Public)
      (\<Union>(g, r) \<in> set rs. wrap (service_stack g) (stacks r)))"
    by (simp add: routes endpoints_stacks [OF laws route] service_stack_def wrap_def split_beta insert_commute)
  finally show ?thesis using router by blast
qed

text \<open>A stack without an auth middleware lets every handler see the context the request came with.\<close>

lemma logging_layer_agree:
  assumes "\<And>rid. agree_on P (f rid) (g rid)"
  shows "agree_on P (logging_layer sv f) (logging_layer sv g)"
proof -
  have "f rid (rq\<lparr>ar_request_id := r, ar_logging := l\<rparr>) w = g rid (rq\<lparr>ar_request_id := r, ar_logging := l\<rparr>) w"
    if "P (ar_context rq)" for rid rq r l w
    using agree_onD [OF assms, of "rq\<lparr>ar_request_id := r, ar_logging := l\<rparr>"] that by simp
  then show ?thesis
    by (simp add: agree_on_def logging_layer_def logged_request_def logging_middleware_def Let_def split_beta)
qed

lemma run_stack_agree:
  assumes "\<And>n. keeps_context (sv_body_limit sv n)" and "\<And>p. keeps_context (sv_plugin sv p)"
    and "\<And>st. AuthMiddleware st \<notin> set ms" and "agree_on P f g"
  shows "agree_on P (run_stack sv env ms f) (run_stack sv env ms g)"
  using assms(3)
proof (induction ms arbitrary: env)
  case Nil
  then show ?case using assms(4) by simp
next
  case (Cons m ms)
  then have "agree_on P (run_stack sv env ms f) (run_stack sv env ms g)" for env by simp
  with assms(1,2) Cons.prems show ?case
    by (cases m) (auto intro: keeps_contextD logging_layer_agree)
qed

section \<open>The shipped services\<close>

definition shipped_services ::
  "process_env \<Rightarrow> (string \<Rightarrow> ('io read_error, string) result) \<Rightarrow> (string \<Rightarrow> ('pe, app_config_definition) result) \<Rightarrow>
   (string \<Rightarrow> ('pe, app_config_definition) result) \<Rightarrow>
   ('r, ('auth, 'p) middleware) router_ops \<Rightarrow> (endpoint \<Rightarrow> 'r) \<Rightarrow> (nat \<Rightarrow> 'p) \<Rightarrow>
   (string \<times> endpoint list \<times> ('x, 'addr, 'act, 'r, 'e, 'w, 'auth) gasket_app_builder) list" where
  "shipped_services penv rd from_toml from_yaml ops route layer =
     [(''sample:app'', sample_endpoints, sample_main penv ops route),
      (''example:recipe-api'', recipe_status_endpoint # recipe_upper_endpoint # recipe_protected_endpoints,
        recipe_main penv ops route layer),
      (''bench'', bench_endpoints, bench_main penv ops route),
      (''app'', template_endpoints, template_main penv rd from_toml from_yaml ops route)]"

lemmas endpoint_defs = sample_endpoints_def bench_endpoints_def template_endpoints_def recipe_protected_endpoints_def
  recipe_status_endpoint_def recipe_upper_endpoint_def

lemma public_routes_stacks:
  assumes "router_laws ops stacks" and "endpoint_law stacks route"
  shows "stacks (public_routes ops route layer) =
    {(recipe_status_endpoint, [PluginLayer (layer 10)]), (recipe_upper_endpoint, [])}"
proof -
  have "stacks (route e) = {(e, [])}" for e using assms(2) unfolding endpoint_law_def by blast
  then show ?thesis
    using assms(1) by (simp add: public_routes_def cached_get_def router_laws_def wrap_def insert_commute)
qed

text \<open>Each service is its plugin's routes behind the two of the preset, in groups whose stacks hold no
  authentication.\<close>

lemma shipped_service_shape:
  fixes stacks :: "'r \<Rightarrow> (endpoint \<times> ('auth, 'p) middleware list) set"
  assumes laws: "router_laws ops stacks" and route: "endpoint_law stacks route"
    and "(name, es, b) \<in> set (shipped_services penv rd from_toml from_yaml ops route layer)"
  obtains rs d where "b = service_builder ops route d (service_plugin name rs)"
    and "name \<noteq> ''gasket:health''" "name \<noteq> ''gasket:server''" "fst ` set rs \<subseteq> {Public, Protected}"
    and "fst ` (\<Union>(g, r) \<in> set rs. stacks r) = set es"
    and "\<And>g r e ms. (g, r) \<in> set rs \<Longrightarrow> (e, ms) \<in> stacks r \<Longrightarrow> \<exists>inner. ms = map PluginLayer inner"
proof -
  note simps = sample_main_def recipe_main_def bench_main_def template_main_def sample_plugin_def recipe_plugin_def
    bench_plugin_def template_plugin_def
  note public = public_routes_stacks [OF laws route]
  have inner: "\<exists>inner. [PluginLayer p] = map PluginLayer inner" for p :: 'p by (rule exI [of _ "[p]"]) simp
  note eps = endpoints_stacks [OF laws route]
  from assms(3) consider "name = ''sample:app''" "es = sample_endpoints" "b = sample_main penv ops route"
    | "name = ''example:recipe-api''" "es = recipe_status_endpoint # recipe_upper_endpoint # recipe_protected_endpoints"
      "b = recipe_main penv ops route layer"
    | "name = ''bench''" "es = bench_endpoints" "b = bench_main penv ops route"
    | "name = ''app''" "es = template_endpoints" "b = template_main penv rd from_toml from_yaml ops route"
    by (auto simp: shipped_services_def)
  then show thesis
  proof cases
    case 1
    show thesis by (rule that [OF 1(3) [unfolded simps, folded 1(1)]]) (auto simp: 1 eps image_image simp del: split_paired_all)
  next
    case 2
    show thesis by (rule that [OF 2(3) [unfolded simps, folded 2(1)]]) (auto simp: 2 public eps image_image protected_routes_def inner)
  next
    case 3
    show thesis by (rule that [OF 3(3) [unfolded simps, folded 3(1)]]) (auto simp: 3 eps image_image simp del: split_paired_all)
  next
    case 4
    show thesis by (rule that [OF 4(3) [unfolded simps, folded 4(1)]]) (auto simp: 4 eps image_image simp del: split_paired_all)
  qed
qed

text \<open>The routes of a service with such a plugin and the stacks they are served behind.\<close>

lemma service_served:
  fixes stacks :: "'r \<Rightarrow> (endpoint \<times> ('auth, 'p) middleware list) set"
    and app :: "('x, 'addr, 'act, 'r, 'e, 'w, 'auth) gasket_app"
  assumes laws: "router_laws ops stacks" and route: "endpoint_law stacks route" and order: "\<And>xs. set (hash_order xs) = set xs"
    and app: "app = service_app ops route (service_plugin name rs) c x"
    and groups: "fst ` set rs \<subseteq> {Public, Protected}" and es: "fst ` (\<Union>(g, r) \<in> set rs. stacks r) = set es"
    and inner: "\<And>g r e ms. (g, r) \<in> set rs \<Longrightarrow> (e, ms) \<in> stacks r \<Longrightarrow> \<exists>inner. ms = map PluginLayer inner"
    and distinct: "distinct ((''GET'', ''/livez'') # (''GET'', ''/healthcheck'') # es)"
  shows "\<exists>router. build_router hash_order ops app = Ok router \<and>
    fst ` stacks router = set ((''GET'', ''/livez'') # (''GET'', ''/healthcheck'') # es) \<and>
    (\<forall>e ms. (e, ms) \<in> stacks router \<longrightarrow> e = (''GET'', ''/livez'') \<and> ms = [] \<or> e \<noteq> (''GET'', ''/livez'') \<and>
        (\<exists>inner. ms = [BodyLimit DEFAULT_REQUEST_BODY_LIMIT, LoggingMiddleware] @ map PluginLayer inner))"
proof -
  have "ProtectedWith n \<notin> fst ` set rs" for n using groups by auto
  then obtain router where router: "build_router hash_order ops app = Ok router"
    "stacks router = insert ((''GET'', ''/livez''), []) (insert ((''GET'', ''/healthcheck''), service_stack Public)
      (\<Union>(g, r) \<in> set rs. wrap (service_stack g) (stacks r)))"
    using service_router [OF laws route order _ app] by blast
  have "fst ` wrap ms S = fst ` S" for ms :: "('auth, 'p) middleware list" and S :: "(endpoint \<times> _) set"
    by (simp add: wrap_def image_image split_beta)
  then have "fst ` stacks router = set ((''GET'', ''/livez'') # (''GET'', ''/healthcheck'') # es)"
    unfolding router(2) by (simp add: image_UN split_beta es [unfolded image_UN split_beta, symmetric])
  moreover have "e = (''GET'', ''/livez'') \<and> ms = [] \<or> e \<noteq> (''GET'', ''/livez'') \<and>
      (\<exists>inner. ms = [BodyLimit DEFAULT_REQUEST_BODY_LIMIT, LoggingMiddleware] @ map PluginLayer inner)"
    if "(e, ms) \<in> stacks router" for e ms
  proof -
    from that [unfolded router(2)] consider "e = (''GET'', ''/livez'')" "ms = []"
      | "e = (''GET'', ''/healthcheck'')" "ms = service_stack Public"
      | g r where "(g, r) \<in> set rs" "(e, ms) \<in> wrap (service_stack g) (stacks r)" by auto
    then show ?thesis
    proof cases
      case 3
      then obtain st where st: "ms = service_stack g @ st" "(e, st) \<in> stacks r" by (auto simp: wrap_def)
      with inner [OF 3(1)] obtain ps where "st = map PluginLayer ps" by blast
      moreover have "g \<in> {Public, Protected}" using groups 3(1) by force
      moreover have "e \<in> set es" using 3(1) st(2) unfolding es [symmetric] by force
      with distinct have "e \<noteq> (''GET'', ''/livez'')" by auto
      ultimately show ?thesis by (auto simp: st(1) service_stack_def)
    qed (auto simp: service_stack_def)
  qed
  ultimately show ?thesis using router(1) by blast
qed


text \<open>The OpenAPI plugin adds its pages to any application behind the stack of the public group, whatever
  the other plugins contribute.\<close>

lemma openapi_pages_public:
  assumes "router_laws ops stacks" and "layers_law stacks lp (collect_layers app)" and "\<And>xs. set (hash_order xs) = set xs"
    and "build_router hash_order ops app = Ok router" and "openapi_from_api_doc ops swagger openapi doc \<in> set (ga_plugins app)"
    and "(e, ms) \<in> stacks (swagger (openapi doc))"
  shows "(e, transport_stack lp app @ ms) \<in> stacks router"
proof -
  let ?t = "\<lparr>tr_group = Public, tr_router = ro_merge ops (ro_new ops) (swagger (openapi doc))\<rparr>"
  have "?t \<in> set (collect_routes app)"
    using assms(5) unfolding collect_routes_def by (force simp: openapi_from_api_doc_def openapi_plugin_def service_plugin_def)
  moreover have "(e, transport_stack lp app @ ms) \<in> wrap (group_stack lp app (tr_group ?t)) (stacks (tr_router ?t))"
    using assms(1,6) by (force simp: group_stack_def wrap_def router_laws_def)
  ultimately show ?thesis
    using build_router_spec [OF assms(1-3)] unfolding assms(4) sum.case by blast
qed

section \<open>The handlers of the recipe service\<close>

text \<open>What axum extracts from a request, and the id a new order gets.\<close>

record ('x, 'rej) recipe_io =
  ri_uuid :: "'x auth_request \<Rightarrow> string"
  ri_order :: "'x auth_request \<Rightarrow> ('rej, create_order_request) result"
  ri_path :: "'x auth_request \<Rightarrow> ('rej, string) result"
  ri_query :: "'x auth_request \<Rightarrow> ('rej, string option \<times> nat option) result"
  ri_values :: "(string \<rightharpoonup> order) \<Rightarrow> order list"
  ri_lower :: "string \<Rightarrow> string"

text \<open>The handler behind each protected endpoint; the store is the rest of the service's state, and the
  task-local request id is the one in the request's extensions.\<close>

definition recipe_handler ::
  "recipe_json \<Rightarrow> ('x, 'rej) recipe_io \<Rightarrow> error_env \<Rightarrow> endpoint \<Rightarrow> ('s, 'x, order_store) service" where
  "recipe_handler rj io env e rq w =
     (let env = env\<lparr>ee_request_id := ar_request_id rq\<rparr>; ctx = ar_context rq; st = aw_rest w;
          (rs, st) =
            (if e = (''GET'', ''/v1/me'') then (current_user rj env ctx, st)
             else if e = (''GET'', ''/v1/orders'') then (search_orders rj env (ri_values io) (ri_lower io) (ri_query io rq) st, st)
             else if e = (''POST'', ''/v1/orders'') then create_order rj env (ri_uuid io rq) ctx (ri_order io rq) st
             else (get_order rj env (ri_path io rq) st, st))
      in (response.extend rs \<lparr>ars_context = None\<rparr>, w\<lparr>aw_rest := st\<rparr>))"

text \<open>Requests one after the other: the endpoint each one matches, the stack of its route and the request.\<close>

fun serve_requests ::
  "('s, 'x, 'w, 'p) serving \<Rightarrow> error_env \<Rightarrow> (endpoint \<Rightarrow> ('s, 'x, 'w) service) \<Rightarrow>
   (endpoint \<times> (('s, 'x) auth_state, 'p) middleware list \<times> 'x auth_request) list \<Rightarrow> ('s, 'w) auth_world \<Rightarrow>
   'x auth_response list \<times> ('s, 'w) auth_world" where
  "serve_requests sv env handler [] w = ([], w)"
| "serve_requests sv env handler ((e, ms, rq) # rqs) w =
     (let (rs, w) = run_stack sv env ms (handler e) rq w;
          (rss, w) = serve_requests sv env handler rqs w
      in (rs # rss, w))"

text \<open>tower-http's body limit: it answers 413 itself or passes the request on.\<close>

definition body_limit_law :: "('s, 'x, 'w, 'p) serving \<Rightarrow> bool" where
  "body_limit_law sv \<longleftrightarrow> (\<forall>n f rq w. sv_body_limit sv n f rq w = f rq w \<or>
     (\<exists>rs. rs_status rs = 413 \<and> sv_body_limit sv n f rq w = (rs, w)))"

lemma status_extend [simp]: "rs_status (response.extend rs x) = rs_status rs"
  by (simp add: response.defs)

lemma quick_error_status [simp]: "rs_status (quick_error_response env status code message) = status"
  by (simp add: quick_error_response_def finalize_error_response_def json_response_def Let_def response.defs)

lemma logging_layer_call:
  assumes "logging_layer sv next_run rq w = (rs, w')"
  obtains rid rs0 where "next_run rid (rq\<lparr>ar_request_id := Some rid, ar_logging := True\<rparr>) (w\<lparr>aw_logging := logging_context_new\<rparr>) = (rs0, w')"
    and "rs_status rs = rs_status rs0"
  using assms
  by (fastforce simp: logging_layer_def logged_request_def logging_middleware_def Let_def split: prod.splits option.splits)

text \<open>The answers the shipped service gives at the protected endpoints: 401 to a caller who has to be somebody,
  an empty page of results to everybody, and no order is ever found.\<close>

definition shipped_answer :: "endpoint \<Rightarrow> nat \<Rightarrow> bool" where
  "shipped_answer e status \<longleftrightarrow> status = 413 \<or>
     (if e = (''GET'', ''/v1/me'') \<or> e = (''POST'', ''/v1/orders'') then status = 401
      else if e = (''GET'', ''/v1/orders'') then status \<in> {200, 400} else status \<in> {400, 404})"

lemma recipe_handler_answer:
  assumes "ar_context rq = None" and "aw_rest w = order_store_default" and "e \<in> set recipe_protected_endpoints"
    and "recipe_handler rj io env e rq w = (rs, w')"
  shows "aw_rest w' = order_store_default \<and> shipped_answer e (rs_status rs)"
  using assms
  by (auto simp: shipped_answer_def recipe_handler_def recipe_protected_endpoints_def current_user_def search_orders_def query_params_def create_order_def authenticated_def auth_required_def
      standard_bad_request_def get_order_def path_params_def order_store_default_def locked_orders_def recipe_error_response_def recipe_not_found_def
      Let_def json_response_def split: if_splits sum.splits)

lemma recipe_call_answer:
  assumes "body_limit_law sv" and "ar_context rq = None" and "aw_rest w = order_store_default"
    and "e \<in> set recipe_protected_endpoints"
    and "run_stack sv env (service_stack Protected) (recipe_handler rj io henv e) rq w = (rs, w')"
  shows "aw_rest w' = order_store_default \<and> shipped_answer e (rs_status rs)"
proof -
  let ?k = "logging_layer sv (\<lambda>rid. recipe_handler rj io henv e)"
  have "run_stack sv env (service_stack Protected) (recipe_handler rj io henv e) rq w =
      sv_body_limit sv DEFAULT_REQUEST_BODY_LIMIT ?k rq w"
    by (simp add: service_stack_def)
  with assms(1,5) consider "rs_status rs = 413" "w' = w" | "?k rq w = (rs, w')"
    unfolding body_limit_law_def by (metis prod.inject)
  then show ?thesis
  proof cases
    case 1
    then show ?thesis using assms(3) by (simp add: shipped_answer_def)
  next
    case 2
    then obtain rid rs0 where call: "recipe_handler rj io henv e (rq\<lparr>ar_request_id := Some rid, ar_logging := True\<rparr>)
        (w\<lparr>aw_logging := logging_context_new\<rparr>) = (rs0, w')" and "rs_status rs = rs_status rs0"
      by (rule logging_layer_call)
    with recipe_handler_answer [OF _ _ assms(4) call] assms(2,3) show ?thesis by simp
  qed
qed

lemma recipe_protected_stack:
  fixes stacks :: "'r \<Rightarrow> (endpoint \<times> ('auth, 'p) middleware list) set"
  assumes laws: "router_laws ops stacks" and route: "endpoint_law stacks route" and order: "\<And>xs. set (hash_order xs) = set xs"
    and built: "build ck penv x (recipe_main penv ops route layer) w0 = (Ok app, w1, lg)"
    and router: "build_router hash_order ops app = Ok router"
    and e: "e \<in> set recipe_protected_endpoints" and served: "(e, ms) \<in> stacks router"
  shows "ms = service_stack Protected"
proof -
  let ?rs = "[(Public, public_routes ops route layer), (Protected, protected_routes ops route)]"
  have "\<exists>c. app = service_app ops route (service_plugin ''example:recipe-api'' ?rs) c x"
    using built unfolding recipe_main_def recipe_plugin_def
    by (subst (asm) service_build) (auto split: sum.splits)
  then obtain c where "app = service_app ops route (service_plugin ''example:recipe-api'' ?rs) c x" ..
  from service_router [OF laws route order _ this] router
  have routes: "stacks router = insert ((''GET'', ''/livez''), []) (insert ((''GET'', ''/healthcheck''), service_stack Public)
      (\<Union>(g, r) \<in> set ?rs. wrap (service_stack g) (stacks r)))" by auto
  have "fst ` stacks (public_routes ops route layer) = {recipe_status_endpoint, recipe_upper_endpoint}"
    using public_routes_stacks [OF laws route] by (simp add: insert_commute)
  then have public: "e \<notin> fst ` stacks (public_routes ops route layer)" "e \<noteq> (''GET'', ''/livez'')" "e \<noteq> (''GET'', ''/healthcheck'')"
    if "e \<in> set recipe_protected_endpoints" for e
    using that by (auto simp: endpoint_defs)
  have protected: "wrap (service_stack Protected) (stacks (protected_routes ops route)) =
      (\<lambda>e. (e, service_stack Protected)) ` set recipe_protected_endpoints"
    by (simp add: wrap_def protected_routes_def endpoints_stacks [OF laws route] image_image)
  have "(e, ms) \<notin> wrap (service_stack Public) (stacks (public_routes ops route layer))"
    using public(1) [OF e] by (force simp: wrap_def)
  with served public(2,3) [OF e] have "(e, ms) \<in> (\<lambda>e. (e, service_stack Protected)) ` set recipe_protected_endpoints"
    unfolding routes protected [symmetric] by simp
  then show ?thesis by blast
qed

text \<open>C12: the recipe service as its main ships it never stores an order: whatever requests reach its protected
  endpoints, in whatever number, its store stays as empty as it started, creating an order and asking who one
  is are answered 401, a search is answered to anybody, and no order id is found; only the body limit answers otherwise, with 413.\<close>

theorem recipe_service_stores_nothing:
  fixes stacks :: "'r \<Rightarrow> (endpoint \<times> (('s, 'x) auth_state, 'p) middleware list) set"
  assumes laws: "router_laws ops stacks" and route: "endpoint_law stacks route" and order: "\<And>xs. set (hash_order xs) = set xs"
    and built: "build ck penv x (recipe_main penv ops route layer) w0 = (Ok app, w1, lg)"
    and router: "build_router hash_order ops app = Ok router"
    and limit: "body_limit_law sv"
    and requests: "list_all (\<lambda>(e, ms, rq). e \<in> set recipe_protected_endpoints \<and> (e, ms) \<in> stacks router \<and> ar_context rq = None) rqs"
    and fresh: "aw_rest w = order_store_default"
    and served: "serve_requests sv env (recipe_handler rj io henv) rqs w = (rss, w')"
  shows "aw_rest w' = order_store_default \<and> list_all2 (\<lambda>(e, _) rs. shipped_answer e (rs_status rs)) rqs rss"
proof -
  note stack = recipe_protected_stack [OF laws route order built router]
  from requests fresh served show ?thesis
  proof (induction rqs arbitrary: w rss)
    case (Cons q rqs)
    obtain e ms rq where q: "q = (e, ms, rq)" by (cases q)
    obtain rs w1 rss' where run: "run_stack sv env ms (recipe_handler rj io henv e) rq w = (rs, w1)"
      "serve_requests sv env (recipe_handler rj io henv) rqs w1 = (rss', w')" "rss = rs # rss'"
      using Cons.prems(3) by (auto simp: q split: prod.splits)
    have "ms = service_stack Protected" using Cons.prems(1) stack [of e ms] by (auto simp: q)
    with Cons.prems(1,2) run(1) have "aw_rest w1 = order_store_default \<and> shipped_answer e (rs_status rs)"
      using recipe_call_answer [OF limit, of rq w e env rj io henv rs w1] by (auto simp: q)
    with Cons.IH [OF _ _ run(2)] Cons.prems(1) show ?case by (simp add: q run(3))
  qed simp
qed

section \<open>Concrete instances\<close>

type_synonym demo_service_mw = "((unit, unit) auth_state, string) middleware"

definition demo_route :: "endpoint \<Rightarrow> (endpoint, demo_service_mw) stack_router" where
  "demo_route e = [(e, [])]"

definition demo_serving :: "(unit, unit, order_store, string) serving" where
  "demo_serving = \<lparr>sv_uuid = ''generated-1'', sv_env_name = ''local'', sv_matched = None, sv_elapsed_ms = 1,
     sv_body_limit = (\<lambda>n f. f), sv_plugin = (\<lambda>p f. f)\<rparr>"

lemma demo_route_law: "endpoint_law set demo_route"
  by (simp add: endpoint_law_def demo_route_def)

lemma demo_environment: "environment_of (resolve_env_str (\<lambda>_. None) d) = Some Local" if "df_env d = None"
proof -
  have "environment_of ''local'' = Some Local" by code_simp
  then show ?thesis using that by (simp add: resolve_env_str_def)
qed


definition demo_recipe_io :: "(unit, unit) recipe_io" where
  "demo_recipe_io = \<lparr>ri_uuid = (\<lambda>_. ''o-1''), ri_order = (\<lambda>_. Ok \<lparr>cr_customer = ''Ada'', cr_items = [''tea'']\<rparr>),
     ri_path = (\<lambda>_. Ok ''o-1''), ri_query = (\<lambda>_. Ok (None, None)), ri_values = (\<lambda>_. []), ri_lower = (\<lambda>s. s)\<rparr>"

lemma recipe_service_stores_nothing_witness:
  "\<exists>rs1 rs2 w'. serve_requests demo_serving demo_env (recipe_handler demo_recipe_json demo_recipe_io demo_env)
       [((''POST'', ''/v1/orders''), service_stack Protected, demo_request ''Bearer x''),
        ((''GET'', ''/v1/orders/{order_id}''), service_stack Protected, demo_request ''Bearer x'')]
       \<lparr>aw_backends = (), aw_audit = [], aw_logging = None, aw_rest = order_store_default\<rparr> = ([rs1, rs2], w') \<and>
     rs_status rs1 \<in> {401, 413} \<and> aw_rest w' = order_store_default"
proof -
  let ?rqs = "[((''POST'', ''/v1/orders''), service_stack Protected, demo_request ''Bearer x''),
        ((''GET'', ''/v1/orders/{order_id}''), service_stack Protected, demo_request ''Bearer x'')]
      :: (endpoint \<times> demo_service_mw list \<times> unit auth_request) list"
    and ?w = "\<lparr>aw_backends = (), aw_audit = [], aw_logging = None, aw_rest = order_store_default\<rparr>"
    and ?b = "recipe_main (\<lambda>_. None) stack_ops demo_route (\<lambda>_. ''cache'') ::
      (unit, unit, unit, _, unit, unit, (unit, unit) auth_state) gasket_app_builder"
    and ?rs = "[(Public, public_routes stack_ops demo_route (\<lambda>_. ''cache'')), (Protected, protected_routes stack_ops demo_route)]"
  have "environment_of ''local'' = Some Local" by code_simp
  then obtain c where "resolve (\<lambda>_. None) (definition_server (server_config_new ''127.0.0.1'' 8081)
      (definition_new (\<lambda>_. None) ''recipe-api'')) = Ok c"
    by (simp add: resolve_def resolve_env_str_def definition_server_def definition_new_def definition_default_def Let_def)
  then have built: "\<exists>app lg. build True (\<lambda>_. None) () ?b () = (Ok app, (), lg) \<and>
      app = service_app stack_ops demo_route (service_plugin ''example:recipe-api'' ?rs) c ()"
    unfolding recipe_main_def recipe_plugin_def by (subst service_build) simp_all
  then obtain app lg where app: "build True (\<lambda>_. None) () ?b () = (Ok app, (), lg)"
    "app = service_app stack_ops demo_route (service_plugin ''example:recipe-api'' ?rs) c ()" by blast
  from service_router [OF stack_ops_laws demo_route_law _ _ app(2), of "\<lambda>xs. xs"]
  obtain router where router: "build_router (\<lambda>xs. xs) stack_ops app = Ok router"
    "set router = insert ((''GET'', ''/livez''), []) (insert ((''GET'', ''/healthcheck''), service_stack Public)
      (\<Union>(g, r) \<in> set ?rs. wrap (service_stack g) (set r)))" by auto
  have "set (protected_routes stack_ops demo_route) = (\<lambda>e. (e, [])) ` set recipe_protected_endpoints"
    unfolding protected_routes_def by (rule endpoints_stacks [OF stack_ops_laws demo_route_law])
  then have "(e, service_stack Protected) \<in> set router" if "e \<in> set recipe_protected_endpoints" for e
    using that by (simp add: router(2) wrap_def image_image)
  then have requests: "list_all (\<lambda>(e, ms, rq). e \<in> set recipe_protected_endpoints \<and> (e, ms) \<in> set router \<and> ar_context rq = None) ?rqs"
    by (simp add: recipe_protected_endpoints_def demo_request_def)
  have limit: "body_limit_law demo_serving" by (simp add: body_limit_law_def demo_serving_def)
  obtain rss w' where served: "serve_requests demo_serving demo_env (recipe_handler demo_recipe_json demo_recipe_io demo_env)
      ?rqs ?w = (rss, w')" by fastforce
  from recipe_service_stores_nothing [OF stack_ops_laws demo_route_law _ app(1) router(1) limit requests _ served]
  have "aw_rest w' = order_store_default" "list_all2 (\<lambda>(e, _) rs. shipped_answer e (rs_status rs)) ?rqs rss" by simp_all
  then show ?thesis using served by (auto simp: list_all2_Cons1 shipped_answer_def)
qed

end
