(* ===== verification/Sample_Api.thy ===== *)
theory Sample_Api
  imports Http
begin

text \<open>
  The item store of the sample service (\<open>examples/sample-api/src/routes.rs\<close>).  The mutex is the vector and
  whether it is poisoned, in which case \<open>expect\<close> panics; the id of a new item is an argument, and so is the
  JSON text of a response.  A handler's answer is its status and body, or a panic.
\<close>

record item =
  it_id :: string
  it_name :: string
  it_description :: "string option"

record create_item_request =
  ci_name :: string
  ci_description :: "string option"

record item_store =
  st_items :: "item list"
  st_poisoned :: bool

record item_json =
  ij_items :: "item list \<Rightarrow> string"
  ij_item :: "item \<Rightarrow> string"
  ij_not_found :: string

definition item_store_default :: item_store where
  "item_store_default = \<lparr>st_items = [], st_poisoned = False\<rparr>"

definition lock_items :: "item_store \<Rightarrow> (string, item list) result" where
  "lock_items store = (if st_poisoned store then Err ''lock poisoned'' else Ok (st_items store))"

definition list_items :: "item_json \<Rightarrow> item_store \<Rightarrow> (string, nat \<times> string) result" where
  "list_items ij store = map_sum id (\<lambda>items. (200, ij_items ij items)) (lock_items store)"

definition create_item ::
  "item_json \<Rightarrow> string \<Rightarrow> create_item_request \<Rightarrow> item_store \<Rightarrow> (string, nat \<times> string) result \<times> item_store" where
  "create_item ij uuid req store =
     (let item = \<lparr>it_id = uuid, it_name = ci_name req, it_description = ci_description req\<rparr> in
      case lock_items store of
        Err p \<Rightarrow> (Err p, store)
      | Ok items \<Rightarrow> (Ok (201, ij_item ij item), store\<lparr>st_items := items @ [item]\<rparr>))"

definition get_item :: "item_json \<Rightarrow> string \<Rightarrow> item_store \<Rightarrow> (string, nat \<times> string) result" where
  "get_item ij uuid store =
     (case lock_items store of
        Err p \<Rightarrow> Err p
      | Ok items \<Rightarrow> (case find (\<lambda>i. it_id i = uuid) items of
           Some item \<Rightarrow> Ok (200, ij_item ij item)
         | None \<Rightarrow> Ok (404, ij_not_found ij)))"

text \<open>A created item is read back by its fresh id, is last in the list, and hides no other item.\<close>

lemma created_item_is_read_back:
  assumes "create_item ij uuid req store = (Ok (status, body), store')" and "uuid \<notin> it_id ` set (st_items store)"
  shows "status = 201 \<and> get_item ij uuid store' = Ok (200, body) \<and>
    (\<exists>item. list_items ij store' = Ok (200, ij_items ij (st_items store @ [item])) \<and> body = ij_item ij item) \<and>
    (\<forall>other. other \<noteq> uuid \<longrightarrow> get_item ij other store' = get_item ij other store)"
proof -
  have find_append: "find P (xs @ [y]) = (case find P xs of Some x \<Rightarrow> Some x | None \<Rightarrow> if P y then Some y else None)"
    for P and xs :: "item list" and y
    by (induction xs) auto
  have fresh: "find (\<lambda>i. it_id i = uuid) (st_items store) = None"
    using assms(2) by (auto simp: find_None_iff)
  show ?thesis
    using assms(1) fresh
    by (auto simp: create_item_def get_item_def list_items_def lock_items_def find_append Let_def
        split: if_splits option.split)
qed

end
