(* ===== verification/Spec2Isabelle.thy ===== *)
theory Spec2Isabelle
  imports Plugin_Reference Builtin_Plugins Response_History Cache_Flight Cache_Refinement Remote_Backends
    Transport_Layers Request_Quota Access_Log Redaction Test_Requests Progress Telemetry App_Lifecycle Database Health Secrets Storage Services Sample_Api
begin

text \<open>
  Verification of rusty-gasket, a plugin-based web framework over axum (\<open>rusty-gasket/src/\<close>; the derive
  macro in \<open>rusty-gasket-macros/src/\<close>, the services in \<open>examples/\<close> and \<open>templates/oss\<close>).

  THE PROGRAM.  An application is a list of plugins and a configuration.  \<open>GasketAppBuilder::build\<close>
  resolves the configuration, runs the plugins' hooks and sorts them by their declared constraints;
  \<open>build_router\<close> folds the layers and routes they contribute into one router with a middleware stack per
  route group; \<open>server::run\<close> serves it.  A request passes the body limit, the logging middleware, which
  gives it an id, the auth middleware, which asks a chain of backends, and the plugins' layers (rate limiter,
  response cache, transactions, secure headers), before a handler's extractors and the handler see it.  The
  object cache, the secrets provider and the key store of the JWT backend are shared by concurrent requests.

  THE THEORIES, each importing those it calls.
    \<^item> \<open>Prelude\<close>: strings as UTF-8 bytes and the string and integer functions of the standard library
      that the code calls; the collection \<open>byte_class\<close> holds the definitions of the ASCII classes.
      \<open>Http\<close>: header maps, requests, responses.
    \<^item> \<open>Plugin_Ordering\<close> (\<open>plugin/ordering.rs\<close>): \<open>topological_sort\<close>, stage by stage.  Its graph is the
      declared constraint relation, its loop keeps an invariant, so a returned order is admissible, and one
      is returned whenever one exists.  \<open>Plugin_Reference\<close>: it equals a reference without a graph.
    \<^item> \<open>Config\<close> (\<open>config.rs\<close>): environments, the deep merge and \<open>resolve\<close>, the sections, the loader.
    \<^item> \<open>Plugin_Engine\<close> (\<open>plugin.rs\<close>, \<open>plugin/engine.rs\<close>, \<open>pipeline.rs\<close>, \<open>server.rs\<close>): the record
      \<open>plugin_handle\<close> of hooks over an outside world, \<open>build\<close> with its rollback, \<open>ready\<close>, \<open>shutdown\<close>, actions,
      \<open>server_run\<close>, and \<open>build_router\<close> over any router that obeys \<open>router_laws\<close>.
      \<open>Server\<close>: the shutdown signal and the TLS path.  \<open>App_Lifecycle\<close>: \<open>main\<close>, all hooks in order.
      \<open>Builtin_Plugins\<close> (\<open>middleware.rs\<close>, \<open>jobs.rs\<close>,
      \<open>presets.rs\<close>): the declarations of every shipped plugin, secure headers, the scheduler;
      \<open>Transport_Layers\<close>: the shipped middleware plugins as layers of the assembled router.
    \<^item> \<open>Errors\<close> (\<open>error.rs\<close>, \<open>extract.rs\<close>, \<open>api_error.rs\<close>): error responses with their redaction, the
      derive macro, the extractors.  \<open>Logging\<close>, \<open>Observability\<close>, \<open>Telemetry\<close> (\<open>observability/\<close>, \<open>otel.rs\<close>):
      request ids and the span of a request; tagged and sharded logs; subscribers and OpenTelemetry.
    \<^item> \<open>Auth_Core\<close> (\<open>auth/identity.rs\<close>, \<open>error.rs\<close>, \<open>backend.rs\<close>, \<open>chain.rs\<close>, \<open>backends/\<close>): the chain and the
      contract of a backend as the locales \<open>auth_backend\<close> and \<open>definitive_backend\<close>, interpreted on the static
      bearer, basic, API-key, JWT and mock backends.  \<open>Auth_Middleware\<close> (\<open>auth/middleware.rs\<close>,
      \<open>context.rs\<close>, \<open>audit.rs\<close>, \<open>extractors.rs\<close>, \<open>policy.rs\<close>): what a request and the audit log get.
      \<open>Jwt\<close> (\<open>auth/backends/jwt.rs\<close>): token sources, claims, the shared key store with the origin of its keys, the builder;
      \<open>Jwks_Flight\<close>: the refresh of the key store by concurrent requests as a step relation.
    \<^item> \<open>Rate_Limit\<close> (\<open>rate_limit.rs\<close>): the key strategies as interpretations of the locale
      \<open>rate_limit_key\<close>, the middleware, the limiter's cleanup.  \<open>Request_Quota\<close>: the limiter behind
      authentication over a sequence of requests.
    \<^item> \<open>Cache_Keys\<close>, \<open>Cache_Store\<close>, \<open>Remote_Backends\<close>, \<open>Cache_Flight\<close>, \<open>Response_Cache\<close> (all \<open>cache.rs\<close>): keys
      and hashing, the locale \<open>cache_backend\<close> with the in-process backend as its interpretation and the
      cluster of Memcached servers as another provider, single flight as a step relation, response caching.
      \<open>Response_History\<close>: a cached route under concurrent requests as a step relation.
      \<open>Cache_Refinement\<close>: the object cache refines a map whose entries expire.
    \<^item> \<open>Secrets\<close> (\<open>aws/mod.rs\<close>): the single-flight fetch as a step relation.  \<open>Progress\<close>: the locale
      \<open>settling_protocol\<close>, by which every undropped call of the secrets provider and of the key store returns.
      \<open>Storage\<close> (\<open>aws/s3.rs\<close>,
      \<open>templates.rs\<close>, \<open>dynamodb/\<close>), \<open>Database\<close> (\<open>db/\<close>), \<open>Health\<close> (\<open>health.rs\<close>).
    \<^item> \<open>Request_Path\<close>: the stacks of \<open>build_router\<close> executed with the models of the middleware, and what
      holds of every request to a built application.  \<open>Access_Log\<close>: what the log says of a request.
      \<open>Test_Harness\<close> (\<open>testing/\<close>) is one such application, \<open>Test_Requests\<close> its client with the assertions.
    \<^item> \<open>Redaction\<close>: the \<open>Debug\<close> output of configurations, credentials, backends and the application.
    \<^item> \<open>Recipe_Api\<close>, \<open>Sample_Api\<close>: the handlers of two services on top of the extractors.  \<open>Services\<close>: the plugins and mains of
      all shipped services (\<open>examples/\<close>, \<open>templates/oss\<close>, \<open>presets.rs\<close>, \<open>openapi.rs\<close>), built, routed and served.

  HOW THE CODE IS READ.  A struct is a record, an enum a datatype, a \<open>Result\<close> the sum type with \<open>Err\<close> and
  \<open>Ok\<close>; a panic is a value too.  A fixed-width hash is a \<open>64 word\<close>; sizes and counters are naturals, with
  the checks, saturations and wrap-arounds of the code written out, and where these depend on the
  build profile the profile is an argument (\<open>ck\<close>).  Instants and durations are nanoseconds.  State that
  an asynchronous call may change is passed in and returned; where the interleaving of calls matters
  (single flights, secrets) every stretch of code between two awaits is one step of an inductive relation,
  and a dropped future is a step as well.  Third-party crates, the clock, generated ids, the
  environment and JSON texts are arguments; what a theorem needs of them is a hypothesis with a concrete
  witness (the laws of axum's router, the contract of a Memcached server, one bucket per key in the limiter).  Text lemmas and the
  properties marked C1, C2 and so on carry their statements in words; a witness after the properties of a
  theory runs each of them, where it has hypotheses, on a concrete input.

  BOUNDS.  \<open>kahn\<close> gets one more unit of fuel than there are plugins, and the reference as many as plugins: each round
  places a new plugin (\<open>kahn_run\<close>), so the fuel never runs out.  The listing loop of S3 follows tokens as long
  as the service hands them out and may not end: it is a \<open>partial_function\<close> whose value \<open>None\<close> is a call that
  does not return, and the property says exactly when it does.  \<open>run_job_loop\<close> and \<open>cleanup_loop\<close> are
  endless loops, read after any number of ticks.
  \<open>deep_merge_json\<close>, \<open>split_ws\<close> and \<open>utf8_chars\<close> come with termination proofs by a measure; everything else is
  structural recursion.

  WHAT DOES NOT HOLD.  Three properties of the single flights are negative: a follower of the object
  cache can miss its wake-up, a cancelled leader leaves its key blocked, and cancelled leaders of the key
  store let fetches overlap.  The waits of the secrets provider and of the key store do end (\<open>Progress\<close>).  Others state where the code stops short of its intent, such
  as a basic backend whose user name contains a colon, a replayed response that keeps one value per
  header name, an offset that overflows, a rate limit key that a caller picks with an unprintable byte, a
  database password that \<open>Debug\<close> prints from its first \<open>@\<close> on, or protected routes
  without authentication in every shipped service.  The manifest lists them as findings.

  NOT MODELLED.
    \<^item> Code without behaviour of its own: \<open>Debug\<close> implementations that print a type name only, getters, type erasure and boxing, re-exports,
      the build script, benchmarks, tests.
    \<^item> Code that only calls another crate: loading the configuration of the AWS SDK, what the CORS, compression
      and timeout layers of tower-http do (they are arguments of the plugins' models), the pages of the Swagger UI,
      self-signed certificates (rcgen).
    \<^item> Unicode tables: case folding and the escaping of \<open>Debug\<close> texts are arguments.
    \<^item> The JSON, TOML and form formats, and \<open>f64\<close> parsing: arguments.
    \<^item> Memory behind the mutexes and atomics: a lock is held for one step, except where its poisoning is
      part of the code's answer (the example services).
\<close>

end
